(* ===== verification/Kprelude.thy ===== *)
theory Kprelude
  imports Main "HOL-Library.Word"
begin

unbundle bit_operations_syntax

text \<open>
  Shared vocabulary of the development: the state-and-stop monad every kernel routine is
  written in, the loop combinators for C's table scans, Hoare triples with their rules, and
  generic facts on lists and machine words.

  A kernel routine is a function from a state to a result. A result is either \<open>Ok v s\<close> (the
  routine returned \<open>v\<close> and left state \<open>s\<close>) or \<open>Stop e s\<close>: control does not come back to the
  caller, for the reason \<open>e\<close>, and \<open>s\<close> is the state at that moment.
\<close>

named_theorems hoare_intros \<comment> \<open>introduction rules for Hoare triples\<close>
named_theorems run_simps    \<comment> \<open>what a routine returns from a given state\<close>
named_theorems layout       \<comment> \<open>numeric constants of the headers\<close>

section \<open>The monad of kernel routines\<close>

datatype ('a, 'e, 's) res = Ok 'a 's | Stop 'e 's

type_synonym ('a, 'e, 's) routine = "'s \<Rightarrow> ('a, 'e, 's) res"

abbreviation ret :: "'a \<Rightarrow> ('a, 'e, 's) routine" where
  "ret \<equiv> Ok"

abbreviation stop :: "'e \<Rightarrow> ('a, 'e, 's) routine" where
  "stop \<equiv> Stop"

abbreviation skip :: "(unit, 'e, 's) routine" where
  "skip \<equiv> Ok ()"

definition bind :: "('a, 'e, 's) routine \<Rightarrow> ('a \<Rightarrow> ('b, 'e, 's) routine) \<Rightarrow> ('b, 'e, 's) routine" where
  "bind m f s = (case m s of Ok a t \<Rightarrow> f a t | Stop e t \<Rightarrow> Stop e t)"

definition andthen :: "('a, 'e, 's) routine \<Rightarrow> ('b, 'e, 's) routine \<Rightarrow> ('b, 'e, 's) routine" where
  "andthen m n = bind m (\<lambda>_. n)"

definition gets :: "('s \<Rightarrow> 'a) \<Rightarrow> ('a, 'e, 's) routine" where
  "gets f s = Ok (f s) s"

definition modify :: "('s \<Rightarrow> 's) \<Rightarrow> (unit, 'e, 's) routine" where
  "modify f s = Ok () (f s)"

text \<open>\<open>for(i in xs) body\<close>, and the same loop left early by a \<open>return\<close> or \<open>goto\<close> in the body.\<close>

primrec for_each :: "'i list \<Rightarrow> ('i \<Rightarrow> (unit, 'e, 's) routine) \<Rightarrow> (unit, 'e, 's) routine" where
  "for_each [] f = skip"
| "for_each (x # xs) f = bind (f x) (\<lambda>_. for_each xs f)"

primrec for_find :: "'i list \<Rightarrow> ('i \<Rightarrow> ('a option, 'e, 's) routine) \<Rightarrow> ('a option, 'e, 's) routine" where
  "for_find [] f = ret None"
| "for_find (x # xs) f =
     bind (f x) (\<lambda>r. case r of None \<Rightarrow> for_find xs f | Some v \<Rightarrow> ret (Some v))"

lemma bind_cong [fundef_cong]:
  assumes "m s = m' s'" and "\<And>a t. m' s' = Ok a t \<Longrightarrow> f a t = g a t"
  shows "bind m f s = bind m' g s'"
  using assms by (simp add: bind_def split: res.splits)

lemma gets_run [simp]: "gets f s = Ok (f s) s"
  by (simp add: gets_def)

lemma modify_run [simp]: "modify f s = Ok () (f s)"
  by (simp add: modify_def)

lemma bind_Ok: "m s = Ok a t \<Longrightarrow> bind m f s = f a t"
  by (simp add: bind_def)

lemma bind_Stop: "m s = Stop e t \<Longrightarrow> bind m f s = Stop e t"
  by (simp add: bind_def)

lemma andthen_Ok: "m s = Ok a t \<Longrightarrow> andthen m n s = n t"
  by (simp add: andthen_def bind_def)

lemma andthen_Stop: "m s = Stop e t \<Longrightarrow> andthen m n s = Stop e t"
  by (simp add: andthen_def bind_def)

lemma andthen_run: "andthen m n s = (case m s of Ok a t \<Rightarrow> n t | Stop e t \<Rightarrow> Stop e t)"
  by (simp add: andthen_def bind_def)

lemmas [run_simps] = bind_def andthen_run

lemma bind_basic [simp]:
  "bind (ret x) f = f x"
  "bind (gets g) f s = f (g s) s"
  "bind (modify h) k s = k () (h s)"
  "bind (stop e) f = stop e"
  by (auto simp: bind_def fun_eq_iff)

lemma andthen_basic [simp]:
  "andthen (ret x) n = n"
  "andthen (modify h) n s = n (h s)"
  "andthen (stop e) n = stop e"
  "andthen skip n = n"
  by (auto simp: andthen_def bind_def fun_eq_iff)

lemma bind_assoc: "bind (bind m f) g = bind m (\<lambda>x. bind (f x) g)"
  by (auto simp: bind_def fun_eq_iff split: res.splits)

lemma bind_Ok_iff: "bind m f s = Ok b u \<longleftrightarrow> (\<exists>a t. m s = Ok a t \<and> f a t = Ok b u)"
  by (auto simp: bind_def split: res.splits)

lemma bind_OkE:
  assumes "bind m f s = Ok b u"
  obtains a t where "m s = Ok a t" and "f a t = Ok b u"
  using assms by (auto simp: bind_Ok_iff)

lemma andthen_Ok_iff: "andthen m n s = Ok b u \<longleftrightarrow> (\<exists>a t. m s = Ok a t \<and> n t = Ok b u)"
  by (auto simp: andthen_def bind_Ok_iff)

lemma for_each_append: "for_each (xs @ ys) f = andthen (for_each xs f) (for_each ys f)"
  by (induction xs) (simp, simp add: andthen_def bind_assoc)

text \<open>
  The two shapes of table scan in the kernel: a loop whose body leaves the state alone until it
  finds its entry, and a loop that updates every entry.
\<close>

lemma for_find_scan:
  assumes "\<And>i. i \<in> set xs \<Longrightarrow> f i w = (if P i then Ok (Some (v i)) (g i) else Ok None w)"
  shows "for_find xs f w =
     (case List.find P xs of None \<Rightarrow> Ok None w | Some i \<Rightarrow> Ok (Some (v i)) (g i))"
  using assms by (induction xs) (auto simp: bind_def)

lemma for_each_fold:
  assumes "\<And>i s. i \<in> set xs \<Longrightarrow> I s \<Longrightarrow> f i s = Ok () (g i s) \<and> I (g i s)" and "I w"
  shows "for_each xs f w = Ok () (fold g xs w)"
  using assms by (induction xs arbitrary: w) (auto simp: bind_def)

lemma find_Some_upt:
  "List.find P [0..<n] = Some i \<longleftrightarrow> i < n \<and> P i \<and> (\<forall>j<i. \<not> P j)"
proof
  assume "List.find P [0..<n] = Some i"
  then show "i < n \<and> P i \<and> (\<forall>j<i. \<not> P j)"
    by (auto simp: find_Some_iff)
next
  assume "i < n \<and> P i \<and> (\<forall>j<i. \<not> P j)"
  then show "List.find P [0..<n] = Some i"
    by (auto simp: find_Some_iff intro!: exI [of _ i])
qed

lemma find_None_upt: "List.find P [0..<n] = None \<longleftrightarrow> (\<forall>i<n. \<not> P i)"
  by (auto simp: find_None_iff)

section \<open>Hoare triples\<close>

text \<open>
  \<open>hoare P m Q E\<close>: from a state satisfying \<open>P\<close>, if \<open>m\<close> returns then \<open>Q\<close> holds of the value and
  the state, and if it stops then \<open>E\<close> holds of the reason and the state. Total correctness is
  \<open>E = (\<lambda>_ _. False)\<close>; an invariant that survives a panic or a crash is an \<open>E\<close> that says so.
\<close>

definition hoare :: "('s \<Rightarrow> bool) \<Rightarrow> ('a, 'e, 's) routine \<Rightarrow> ('a \<Rightarrow> 's \<Rightarrow> bool) \<Rightarrow> ('e \<Rightarrow> 's \<Rightarrow> bool) \<Rightarrow> bool" where
  "hoare P m Q E \<longleftrightarrow> (\<forall>s. P s \<longrightarrow> (case m s of Ok a t \<Rightarrow> Q a t | Stop e t \<Rightarrow> E e t))"

abbreviation invariant_of :: "('s \<Rightarrow> bool) \<Rightarrow> ('a, 'e, 's) routine \<Rightarrow> bool" where
  "invariant_of I m \<equiv> hoare I m (\<lambda>_. I) (\<lambda>_. I)"

lemma hoareD: "hoare P m Q E \<Longrightarrow> P s \<Longrightarrow> m s = Ok a t \<Longrightarrow> Q a t"
  by (auto simp: hoare_def)

lemma hoareD_Stop: "hoare P m Q E \<Longrightarrow> P s \<Longrightarrow> m s = Stop e t \<Longrightarrow> E e t"
  by (auto simp: hoare_def)

lemma hoareI:
  assumes "\<And>s a t. P s \<Longrightarrow> m s = Ok a t \<Longrightarrow> Q a t" and "\<And>s e t. P s \<Longrightarrow> m s = Stop e t \<Longrightarrow> E e t"
  shows "hoare P m Q E"
  using assms by (auto simp: hoare_def split: res.splits)

lemma hoare_total: "hoare P m Q (\<lambda>_ _. False) \<Longrightarrow> P s \<Longrightarrow> \<exists>a t. m s = Ok a t \<and> Q a t"
  by (cases "m s") (auto simp: hoare_def)

lemma hoare_weaken:
  assumes "hoare P' m Q' E'" and "\<And>s. P s \<Longrightarrow> P' s" and "\<And>a t. Q' a t \<Longrightarrow> Q a t"
    and "\<And>e t. E' e t \<Longrightarrow> E e t"
  shows "hoare P m Q E"
  using assms by (fastforce simp: hoare_def split: res.splits)

lemma hoare_pre: "hoare P' m Q E \<Longrightarrow> (\<And>s. P s \<Longrightarrow> P' s) \<Longrightarrow> hoare P m Q E"
  by (rule hoare_weaken)

lemma hoare_ret [hoare_intros]: "hoare (Q x) (ret x) Q E"
  by (simp add: hoare_def)

lemma hoare_stop [hoare_intros]: "hoare (E e) (stop e) Q E"
  by (simp add: hoare_def)

lemma hoare_gets [hoare_intros]: "hoare (\<lambda>s. Q (f s) s) (gets f) Q E"
  by (simp add: hoare_def)

lemma hoare_modify [hoare_intros]: "hoare (\<lambda>s. Q () (f s)) (modify f) Q E"
  by (simp add: hoare_def)

lemma hoare_bind:
  "hoare P m R E \<Longrightarrow> (\<And>a. hoare (R a) (f a) Q E) \<Longrightarrow> hoare P (bind m f) Q E"
  by (fastforce simp: hoare_def bind_def split: res.splits)

lemma hoare_andthen:
  "hoare P m (\<lambda>_. R) E \<Longrightarrow> hoare R n Q E \<Longrightarrow> hoare P (andthen m n) Q E"
  unfolding andthen_def by (rule hoare_bind)

lemma hoare_if [hoare_intros]:
  "(b \<Longrightarrow> hoare P m Q E) \<Longrightarrow> (\<not> b \<Longrightarrow> hoare P n Q E) \<Longrightarrow> hoare P (if b then m else n) Q E"
  by simp

lemma hoare_for_each:
  assumes "\<And>x. x \<in> set xs \<Longrightarrow> hoare I (f x) (\<lambda>_. I) E"
  shows "hoare I (for_each xs f) (\<lambda>_. I) E"
  using assms
proof (induction xs)
  case Nil
  show ?case by (simp add: hoare_def)
next
  case (Cons x xs)
  have "hoare I (f x) (\<lambda>_. I) E" and "hoare I (for_each xs f) (\<lambda>_. I) E"
    using Cons by auto
  then show ?case by (auto intro: hoare_bind)
qed

lemma hoare_for_find:
  assumes "\<And>x. x \<in> set xs \<Longrightarrow> hoare I (f x) (\<lambda>r. case r of None \<Rightarrow> I | Some v \<Rightarrow> Q (Some v)) E"
    and "\<And>s. I s \<Longrightarrow> Q None s"
  shows "hoare I (for_find xs f) Q E"
  using assms(1)
proof (induction xs)
  case Nil
  show ?case using assms(2) by (simp add: hoare_def)
next
  case (Cons x xs)
  have "hoare (case r of None \<Rightarrow> I | Some v \<Rightarrow> Q (Some v))
     (case r of None \<Rightarrow> for_find xs f | Some v \<Rightarrow> ret (Some v)) Q E" for r
    using Cons by (cases r) (auto intro: hoare_ret)
  with Cons.prems show ?case by (auto intro!: hoare_bind)
qed

section \<open>Lists\<close>

lemma nth_list_update_if: "i < length xs \<Longrightarrow> xs[i := v] ! j = (if j = i then v else xs ! j)"
  by auto

lemma list_update_same_conv2 [simp]: "i < length xs \<Longrightarrow> xs ! i = v \<Longrightarrow> xs[i := v] = xs"
  by (auto simp: list_update_same_conv)

lemma map_nth_upt: "n \<le> length xs \<Longrightarrow> map ((!) xs) [0..<n] = take n xs"
  by (rule nth_equalityI) auto

lemma length_fold_update: "length (fold (\<lambda>i xs. xs[i := h i (xs ! i)]) js xs) = length xs"
  by (induction js arbitrary: xs) auto

lemma fold_update_upt:
  "n \<le> length xs \<Longrightarrow> j < length xs \<Longrightarrow>
   fold (\<lambda>i xs. xs[i := h i (xs ! i)]) [0..<n] xs ! j = (if j < n then h j (xs ! j) else xs ! j)"
  by (induction n) (auto simp: length_fold_update nth_list_update_if)

lemma fold_update_upt_map:
  "fold (\<lambda>i xs. xs[i := h i (xs ! i)]) [0..<length xs] xs = map (\<lambda>i. h i (xs ! i)) [0..<length xs]"
  by (rule nth_equalityI) (auto simp: length_fold_update fold_update_upt)

section \<open>Words\<close>

lemma word_add_neq_self: "(x :: 'a::len word) + y = x \<longleftrightarrow> y = 0"
  by simp

lemma unat_bound: "unat (w :: 'a::len word) < 2 ^ LENGTH('a)"
  by (rule unsigned_less)

lemma unat_ucast_up:
  "LENGTH('a) \<le> LENGTH('b) \<Longrightarrow> unat (ucast (w :: 'a::len word) :: 'b::len word) = unat w"
  by (metis take_bit_nat_eq_self unat_bound unsigned_ucast_eq order_less_le_trans one_le_numeral
      power_increasing)

lemma unat_minus_one_word: "unat (- 1 :: 'a::len word) = 2 ^ LENGTH('a) - 1"
  by (simp add: unsigned_minus_1_eq_mask mask_eq_exp_minus_1)

lemma unat_add_no_wrap:
  fixes x y :: "'a::len word"
  shows "unat x + unat y < 2 ^ LENGTH('a) \<Longrightarrow> unat (x + y) = unat x + unat y"
  by (simp add: unat_word_ariths)

lemma unat_diff_le:
  fixes x y :: "'a::len word"
  shows "y \<le> x \<Longrightarrow> unat (x - y) = unat x - unat y"
  by (rule unat_sub)

lemma of_nat_less_word:
  "n < 2 ^ LENGTH('a) \<Longrightarrow> unat (of_nat n :: 'a::len word) = n"
  by (simp add: unat_of_nat take_bit_nat_eq_self)

lemma word_and_not_mask_conv:
  fixes x :: "'a::len word"
  shows "x AND NOT (mask n) = push_bit n (drop_bit n x)"
  by (rule bit_word_eqI) (auto simp: bit_simps not_less)

lemma unat_and_not_mask:
  fixes x :: "'a::len word"
  shows "unat (x AND NOT (mask n)) = unat x div 2 ^ n * 2 ^ n"
proof -
  have "unat (push_bit n (drop_bit n x)) = take_bit LENGTH('a) (push_bit n (drop_bit n (unat x)))"
    by (simp add: unsigned_push_bit_eq unat_drop_bit_eq)
  also have "\<dots> = unat x div 2 ^ n * 2 ^ n"
  proof -
    have "unat x div 2 ^ n * 2 ^ n \<le> unat x" by (rule div_times_less_eq_dividend)
    also have "\<dots> < 2 ^ LENGTH('a)" by (rule unsigned_less)
    finally show ?thesis
      by (simp add: push_bit_eq_mult drop_bit_eq_div take_bit_nat_eq_self_iff)
  qed
  finally show ?thesis by (simp add: word_and_not_mask_conv)
qed


section \<open>Transition systems\<close>

inductive reachable :: "('s \<Rightarrow> bool) \<Rightarrow> ('s \<Rightarrow> 's \<Rightarrow> bool) \<Rightarrow> 's \<Rightarrow> bool"
  for init :: "'s \<Rightarrow> bool" and step :: "'s \<Rightarrow> 's \<Rightarrow> bool" where
  reach_init: "init s \<Longrightarrow> reachable init step s"
| reach_step: "reachable init step s \<Longrightarrow> step s t \<Longrightarrow> reachable init step t"

text \<open>An inductive invariant of a transition system, and what it gives.\<close>

locale inductive_invariant =
  fixes init :: "'s \<Rightarrow> bool" and step :: "'s \<Rightarrow> 's \<Rightarrow> bool" and inv :: "'s \<Rightarrow> bool"
  assumes inv_init: "init s \<Longrightarrow> inv s"
    and inv_step: "inv s \<Longrightarrow> step s t \<Longrightarrow> inv t"
begin

lemma inv_reachable: "reachable init step s \<Longrightarrow> inv s"
  by (induction rule: reachable.induct) (auto intro: inv_init inv_step)

lemma inv_steps: "step\<^sup>*\<^sup>* s t \<Longrightarrow> inv s \<Longrightarrow> inv t"
  by (induction rule: rtranclp_induct) (auto intro: inv_step)

end

end
