(* ===== verification/Cmem.thy ===== *)
theory Cmem
  imports Kprelude
begin

unbundle bit_operations_syntax

text \<open>
  Byte-addressed memory, little-endian integers in byte sequences, and the C library routines of
  \<open>kernel/string.c\<close>. Plain \<open>char\<close> is unsigned on RISC-V.
  A pointer is a 64-bit address; a routine that writes through one takes the memory and returns
  the new one. The loops keep the order of C's loads and stores, so overlapping operands of
  \<open>memmove\<close> are visible in the model.
\<close>

type_synonym byte = "8 word"
type_synonym addr = "64 word"
type_synonym memory = "addr \<Rightarrow> byte"

section \<open>string.c\<close>

primrec memset_loop :: "memory \<Rightarrow> addr \<Rightarrow> byte \<Rightarrow> nat \<Rightarrow> nat \<Rightarrow> memory" where
  "memset_loop m cdst c i 0 = m"
| "memset_loop m cdst c i (Suc k) = memset_loop (m(cdst + of_nat i := c)) cdst c (Suc i) k"

definition memset :: "memory \<Rightarrow> addr \<Rightarrow> int \<Rightarrow> 32 word \<Rightarrow> memory" where
  "memset m dst c n = memset_loop m dst (word_of_int c) 0 (unat n)"

primrec memcmp_loop :: "memory \<Rightarrow> addr \<Rightarrow> addr \<Rightarrow> nat \<Rightarrow> int" where
  "memcmp_loop m s1 s2 0 = 0"
| "memcmp_loop m s1 s2 (Suc n) =
     (if m s1 \<noteq> m s2 then uint (m s1) - uint (m s2) else memcmp_loop m (s1 + 1) (s2 + 1) n)"

definition memcmp :: "memory \<Rightarrow> addr \<Rightarrow> addr \<Rightarrow> 32 word \<Rightarrow> int" where
  "memcmp m v1 v2 n = memcmp_loop m v1 v2 (unat n)"

primrec copy_up :: "memory \<Rightarrow> addr \<Rightarrow> addr \<Rightarrow> nat \<Rightarrow> memory" where
  "copy_up m d s 0 = m"
| "copy_up m d s (Suc n) = copy_up (m(d := m s)) (d + 1) (s + 1) n"

primrec copy_down :: "memory \<Rightarrow> addr \<Rightarrow> addr \<Rightarrow> nat \<Rightarrow> memory" where
  "copy_down m d s 0 = m"
| "copy_down m d s (Suc n) = copy_down (m(d - 1 := m (s - 1))) (d - 1) (s - 1) n"

definition memmove :: "memory \<Rightarrow> addr \<Rightarrow> addr \<Rightarrow> 32 word \<Rightarrow> memory" where
  "memmove m dst src n =
     (if n = 0 then m
      else if src < dst \<and> src + ucast n > dst
      then copy_down m (dst + ucast n) (src + ucast n) (unat n)
      else copy_up m dst src (unat n))"

definition memcpy :: "memory \<Rightarrow> addr \<Rightarrow> addr \<Rightarrow> 32 word \<Rightarrow> memory" where
  "memcpy m dst src n = memmove m dst src n"

primrec strncmp_loop :: "memory \<Rightarrow> addr \<Rightarrow> addr \<Rightarrow> nat \<Rightarrow> int" where
  "strncmp_loop m p q 0 = 0"
| "strncmp_loop m p q (Suc n) =
     (if m p \<noteq> 0 \<and> m p = m q then strncmp_loop m (p + 1) (q + 1) n
      else uint (m p) - uint (m q))"

definition strncmp :: "memory \<Rightarrow> addr \<Rightarrow> addr \<Rightarrow> 32 word \<Rightarrow> int" where
  "strncmp m p q n = strncmp_loop m p q (unat n)"

primrec zero_fill :: "memory \<Rightarrow> addr \<Rightarrow> nat \<Rightarrow> memory" where
  "zero_fill m s 0 = m"
| "zero_fill m s (Suc n) = zero_fill (m(s := 0)) (s + 1) n"

primrec strncpy_loop :: "memory \<Rightarrow> addr \<Rightarrow> addr \<Rightarrow> nat \<Rightarrow> memory" where
  "strncpy_loop m s t 0 = m"
| "strncpy_loop m s t (Suc n) =
     (let m' = m(s := m t)
      in if m t \<noteq> 0 then strncpy_loop m' (s + 1) (t + 1) n else zero_fill m' (s + 1) n)"

definition strncpy :: "memory \<Rightarrow> addr \<Rightarrow> addr \<Rightarrow> int \<Rightarrow> memory" where
  "strncpy m s t n = strncpy_loop m s t (nat n)"

primrec safestrcpy_loop :: "memory \<Rightarrow> addr \<Rightarrow> addr \<Rightarrow> nat \<Rightarrow> memory" where
  "safestrcpy_loop m s t 0 = m(s := 0)"
| "safestrcpy_loop m s t (Suc n) =
     (let m' = m(s := m t)
      in if m t \<noteq> 0 then safestrcpy_loop m' (s + 1) (t + 1) n else m'(s + 1 := 0))"

definition safestrcpy :: "memory \<Rightarrow> addr \<Rightarrow> addr \<Rightarrow> int \<Rightarrow> memory" where
  "safestrcpy m s t n = (if n \<le> 0 then m else safestrcpy_loop m s t (nat n - 1))"

text \<open>\<open>strlen\<close> has no bound of its own: on memory without a NUL it does not return.\<close>

partial_function (option) strlen_loop :: "memory \<Rightarrow> addr \<Rightarrow> nat \<Rightarrow> nat option" where
  "strlen_loop m s n = (if m (s + of_nat n) \<noteq> 0 then strlen_loop m s (Suc n) else Some n)"

definition strlen :: "memory \<Rightarrow> addr \<Rightarrow> nat option" where
  "strlen m s = strlen_loop m s 0"

section \<open>Byte sequences\<close>

definition load_bytes :: "memory \<Rightarrow> addr \<Rightarrow> nat \<Rightarrow> byte list" where
  "load_bytes m a n = map (\<lambda>i. m (a + of_nat i)) [0..<n]"

primrec store_bytes :: "memory \<Rightarrow> addr \<Rightarrow> byte list \<Rightarrow> memory" where
  "store_bytes m a [] = m"
| "store_bytes m a (b # bs) = store_bytes (m(a := b)) (a + 1) bs"

text \<open>Integers in memory are little-endian on RISC-V.\<close>

definition bytes_of :: "nat \<Rightarrow> 'a::len word \<Rightarrow> byte list" where
  "bytes_of n w = map (\<lambda>i. ucast (drop_bit (8 * i) w)) [0..<n]"

primrec word_of :: "byte list \<Rightarrow> 'a::len word" where
  "word_of [] = 0"
| "word_of (b # bs) = ucast b OR push_bit 8 (word_of bs)"

definition load64 :: "memory \<Rightarrow> addr \<Rightarrow> 64 word" where
  "load64 m a = word_of (load_bytes m a 8)"

definition store64 :: "memory \<Rightarrow> addr \<Rightarrow> 64 word \<Rightarrow> memory" where
  "store64 m a v = store_bytes m a (bytes_of 8 v)"


section \<open>Facts on byte memory\<close>

lemma addr_eq_offset:
  fixes x d :: addr
  assumes "i < 2 ^ 64"
  shows "x = d + of_nat i \<longleftrightarrow> unat (x - d) = i"
proof
  assume "x = d + of_nat i"
  then show "unat (x - d) = i" using assms by (simp add: of_nat_less_word)
next
  assume "unat (x - d) = i"
  then have "of_nat i = x - d" by auto
  then show "x = d + of_nat i" by simp
qed

lemma unat_diff_Suc:
  fixes x d :: addr
  shows "x \<noteq> d \<Longrightarrow> unat (x - (d + 1)) = unat (x - d) - 1"
  using unat_minus_one [of "x - d"] by (simp add: diff_diff_eq)

lemma unat_diff_pos: "(x :: addr) \<noteq> d \<Longrightarrow> 0 < unat (x - d)"
  by (metis gr_zeroI right_minus_eq unat_eq_zero)

lemma memset_loop_apply:
  "i + k \<le> 2 ^ 64 \<Longrightarrow>
   memset_loop m d c i k x = (if i \<le> unat (x - d) \<and> unat (x - d) < i + k then c else m x)"
proof (induction k arbitrary: m i)
  case 0
  then show ?case by auto
next
  case (Suc k)
  have "i < 2 ^ 64" using Suc.prems by simp
  then have "x = d + of_nat i \<longleftrightarrow> unat (x - d) = i" by (rule addr_eq_offset)
  with Suc show ?case by auto
qed

lemma memset_apply:
  "memset m dst c n x = (if unat (x - dst) < unat n then word_of_int c else m x)"
proof -
  have "unat n \<le> 2 ^ 64" using unat_bound [of n] by simp
  then show ?thesis by (simp add: memset_def memset_loop_apply)
qed

lemma copy_up_apply:
  assumes "n \<le> 2 ^ 64" and "d = s \<or> n \<le> unat (d - s)"
  shows "copy_up m d s n x = (if unat (x - d) < n then m (s + (x - d)) else m x)"
  using assms
proof (induction n arbitrary: m d s)
  case 0
  then show ?case by simp
next
  case (Suc n)
  let ?m = "m(d := m s)"
  have IH: "copy_up ?m (d + 1) (s + 1) n x
      = (if unat (x - (d + 1)) < n then ?m (s + 1 + (x - (d + 1))) else ?m x)"
    using Suc.prems by (intro Suc.IH) auto
  show ?case
  proof (cases "x = d")
    case True
    have "unat (x - (d + 1)) = 2 ^ 64 - 1" using True by (simp add: unat_minus_one_word)
    with IH True Suc.prems show ?thesis by auto
  next
    case False
    have 1: "unat (x - (d + 1)) < n \<longleftrightarrow> unat (x - d) < Suc n"
      using False unat_diff_pos [of x d] by (simp add: unat_diff_Suc) linarith
    have 2: "s + 1 + (x - (d + 1)) = s + (x - d)" by simp
    have "s + (x - d) \<noteq> d" if "unat (x - d) < Suc n"
    proof
      assume "s + (x - d) = d"
      then have "d - s = x - d" by (simp add: algebra_simps)
      with Suc.prems(2) that False show False by auto
    qed
    with IH 1 2 False show ?thesis by auto
  qed
qed

lemma copy_down_apply:
  assumes "n \<le> 2 ^ 64" and "d = s \<or> n \<le> unat (s - d)"
  shows "copy_down m (d + of_nat n) (s + of_nat n) n x = (if unat (x - d) < n then m (s + (x - d)) else m x)"
  using assms
proof (induction n arbitrary: m)
  case 0
  then show ?case by simp
next
  case (Suc n)
  let ?m = "m(d + of_nat n := m (s + of_nat n))"
  have IH: "copy_down ?m (d + of_nat n) (s + of_nat n) n x
      = (if unat (x - d) < n then ?m (s + (x - d)) else ?m x)"
    using Suc.prems by (intro Suc.IH) auto
  have n: "n < 2 ^ 64" using Suc.prems by simp
  then have at: "x = d + of_nat n \<longleftrightarrow> unat (x - d) = n" by (rule addr_eq_offset)
  have "s + (x - d) \<noteq> d + of_nat n" if "unat (x - d) < n"
  proof
    assume eq: "s + (x - d) = d + of_nat n"
    then have sd: "s - d = of_nat n - (x - d)" by (simp add: algebra_simps)
    have "x - d \<le> of_nat n" using that n by (simp add: word_le_nat_alt of_nat_less_word)
    then have "unat (s - d) = n - unat (x - d)"
      unfolding sd using n by (subst unat_sub) (simp_all add: of_nat_less_word)
    moreover have "d \<noteq> s" using eq that at by auto
    ultimately show False using Suc.prems(2) by auto
  qed
  moreover have "copy_down m (d + of_nat (Suc n)) (s + of_nat (Suc n)) (Suc n) x
      = copy_down ?m (d + of_nat n) (s + of_nat n) n x" by simp
  moreover have "s + (x - d) = s + of_nat n" if "unat (x - d) = n"
    using that at by auto
  ultimately show ?case using IH at by (auto simp: less_Suc_eq)
qed

lemma memmove_apply:
  assumes "unat src + unat n < 2 ^ 64"
  shows "memmove m dst src n x = (if unat (x - dst) < unat n then m (src + (x - dst)) else m x)"
proof -
  have n32: "unat n < 2 ^ 32" using unat_bound [of n] by simp
  have uc: "(ucast n :: addr) = of_nat (unat n)" by simp
  have un: "unat (ucast n :: addr) = unat n" by (simp add: unat_ucast_up)
  have end_eq: "unat (src + ucast n) = unat src + unat n"
    using assms un by (simp add: unat_add_no_wrap)
  show ?thesis
  proof (cases "src < dst \<and> src + ucast n > dst")
    case True
    have "unat (src - dst) = 2 ^ 64 - (unat dst - unat src)"
      using True unat_bound [of dst]
      by (simp add: unat_sub_if' word_less_nat_alt)
    moreover have "unat dst - unat src < unat n"
      using True end_eq by (simp add: word_less_nat_alt) linarith
    ultimately have "unat n \<le> unat (src - dst)" using n32 by simp
    then have "copy_down m (dst + of_nat (unat n)) (src + of_nat (unat n)) (unat n) x
        = (if unat (x - dst) < unat n then m (src + (x - dst)) else m x)"
      using n32 by (intro copy_down_apply) auto
    with True show ?thesis unfolding memmove_def uc by auto
  next
    case False
    have "dst = src \<or> unat n \<le> unat (dst - src)"
      using False assms end_eq unat_bound [of src]
      by (auto simp: unat_sub_if' word_less_nat_alt not_less word_unat_eq_iff)
    then have "copy_up m dst src (unat n) x = (if unat (x - dst) < unat n then m (src + (x - dst)) else m x)"
      using n32 by (intro copy_up_apply) auto
    with False show ?thesis unfolding memmove_def by auto
  qed
qed


lemma length_load_bytes [simp]: "length (load_bytes m a n) = n"
  by (simp add: load_bytes_def)

lemma nth_load_bytes [simp]: "i < n \<Longrightarrow> load_bytes m a n ! i = m (a + of_nat i)"
  by (simp add: load_bytes_def)

lemma load_bytes_cong:
  "(\<And>i. i < n \<Longrightarrow> m (a + of_nat i) = m' (b + of_nat i)) \<Longrightarrow> load_bytes m a n = load_bytes m' b n"
  by (simp add: load_bytes_def)

lemma load_bytes_Suc: "load_bytes m a (Suc n) = m a # load_bytes m (a + 1) n"
proof (rule nth_equalityI)
  fix i assume "i < length (load_bytes m a (Suc n))"
  then show "load_bytes m a (Suc n) ! i = (m a # load_bytes m (a + 1) n) ! i"
    by (cases i) (simp_all add: add.assoc)
qed simp

lemma store_bytes_apply:
  "length bs \<le> 2 ^ 64 \<Longrightarrow>
   store_bytes m a bs x = (if unat (x - a) < length bs then bs ! unat (x - a) else m x)"
proof (induction bs arbitrary: m a)
  case Nil
  then show ?case by simp
next
  case (Cons b bs)
  show ?case
  proof (cases "x = a")
    case True
    have "unat (x - (a + 1)) = 2 ^ 64 - 1" using True by (simp add: unat_minus_one_word)
    with True Cons show ?thesis by auto
  next
    case False
    then have "0 < unat (x - a)" by (rule unat_diff_pos)
    with False Cons show ?thesis
      by (cases "unat (x - a)") (simp_all add: unat_diff_Suc)
  qed
qed

lemma load_store_bytes:
  "length bs \<le> 2 ^ 64 \<Longrightarrow> load_bytes (store_bytes m a bs) a (length bs) = bs"
  by (rule nth_equalityI) (auto simp: store_bytes_apply of_nat_less_word)

lemma load_store_bytes_disjoint:
  assumes "length bs \<le> 2 ^ 64"
    and "\<And>i. i < n \<Longrightarrow> length bs \<le> unat (b + of_nat i - a)"
  shows "load_bytes (store_bytes m a bs) b n = load_bytes m b n"
  using assms by (intro load_bytes_cong) (auto simp: store_bytes_apply dest: leD)

section \<open>Little-endian integers\<close>

lemma length_bytes_of [simp]: "length (bytes_of n w) = n"
  by (simp add: bytes_of_def)

lemma bit_word_of:
  "bit (word_of bs :: 'a::len word) i \<longleftrightarrow>
     i < LENGTH('a) \<and> i div 8 < length bs \<and> bit (bs ! (i div 8)) (i mod 8)"
proof (induction bs arbitrary: i)
  case Nil
  then show ?case by simp
next
  case (Cons b bs)
  show ?case
  proof (cases "i < 8")
    case True
    then show ?thesis by (auto simp: bit_simps)
  next
    case False
    then have d: "i div 8 = Suc ((i - 8) div 8)" and m: "(i - 8) mod 8 = i mod 8"
      by (simp_all add: le_div_geq le_mod_geq)
    have "\<not> bit b i" using False by (auto dest: bit_imp_le_length)
    then show ?thesis
      using False Cons [of "i - 8"] d m by (auto simp: bit_simps)
  qed
qed

lemma word_of_bytes_of:
  fixes w :: "'a::len word"
  assumes "LENGTH('a) = 8 * n"
  shows "word_of (bytes_of n w) = w"
proof (rule bit_word_eqI)
  fix i assume "i < LENGTH('a)"
  then have "i div 8 < n" using assms by auto
  then show "bit (word_of (bytes_of n w) :: 'a word) i = bit w i"
    using \<open>i < LENGTH('a)\<close> by (simp add: bit_word_of bytes_of_def bit_simps)
qed

lemma bytes_of_word_of:
  assumes "length bs = n" and "8 * n \<le> LENGTH('a)"
  shows "bytes_of n (word_of bs :: 'a::len word) = bs"
proof (rule nth_equalityI)
  fix k assume "k < length (bytes_of n (word_of bs :: 'a word))"
  then have k: "k < n" by simp
  have "bit (ucast (drop_bit (8 * k) (word_of bs :: 'a word)) :: byte) j = bit (bs ! k) j" if "j < 8" for j
    using that k assms by (simp add: bit_simps bit_word_of)
  then have "(ucast (drop_bit (8 * k) (word_of bs :: 'a word)) :: byte) = bs ! k"
    by (intro bit_word_eqI) simp
  with k show "bytes_of n (word_of bs :: 'a word) ! k = bs ! k" by (simp add: bytes_of_def)
qed (use assms in simp)

lemma load64_store64: "load64 (store64 m a v) a = v"
  using load_store_bytes [of "bytes_of 8 v" m a]
  by (simp add: load64_def store64_def word_of_bytes_of)

lemma store64_apply:
  "store64 m a v x = (if unat (x - a) < 8 then bytes_of 8 v ! unat (x - a) else m x)"
  by (simp add: store64_def store_bytes_apply)

text \<open>Aligned words do not overlap.\<close>

lemma aligned_words_apart:
  fixes a b :: addr
  assumes "unat a mod 8 = 0" and "unat b mod 8 = 0" and "a \<noteq> b" and "i < 8"
  shows "8 \<le> unat (b + of_nat i - a)"
proof (rule ccontr)
  assume "\<not> ?thesis"
  then obtain j where j: "j < 8" "unat (b + of_nat i - a) = j" by auto
  then have eq: "b + of_nat i = a + of_nat j" by (simp add: addr_eq_offset)
  from assms(1) obtain ka where ka: "unat a = 8 * ka" by (metis mod_0_imp_dvd dvdE)
  from assms(2) obtain kb where kb: "unat b = 8 * kb" by (metis mod_0_imp_dvd dvdE)
  have "8 * ka < 2 ^ 64" "8 * kb < 2 ^ 64"
    using unat_bound [of a] unat_bound [of b] ka kb by simp_all
  then have "unat (a + of_nat j) = 8 * ka + j" "unat (b + of_nat i) = 8 * kb + i"
    using ka kb j(1) assms(4) by (simp_all add: unat_add_no_wrap of_nat_less_word)
  then have "8 * kb + i = 8 * ka + j" using eq by simp
  then have "ka = kb" using j(1) assms(4) by linarith
  with ka kb assms(3) show False by (simp add: word_unat_eq_iff)
qed

lemma load64_store64_other:
  assumes "unat a mod 8 = 0" and "unat b mod 8 = 0" and "a \<noteq> b"
  shows "load64 (store64 m a v) b = load64 m b"
  unfolding load64_def store64_def
  using aligned_words_apart [OF assms] by (subst load_store_bytes_disjoint) simp_all


section \<open>The string routines\<close>

definition cstr :: "memory \<Rightarrow> addr \<Rightarrow> nat \<Rightarrow> byte list" where
  \<comment> \<open>the C string at an address, cut at \<open>n\<close> bytes\<close>
  "cstr m a n = takeWhile (\<lambda>b. b \<noteq> 0) (load_bytes m a n)"

definition apart :: "addr \<Rightarrow> addr \<Rightarrow> nat \<Rightarrow> bool" where
  \<comment> \<open>the objects of \<open>n\<close> bytes at the two addresses do not overlap\<close>
  "apart s t n \<longleftrightarrow> (\<forall>i < n. \<forall>j < n. s + of_nat i \<noteq> t + of_nat j)"

lemma cstr_Suc: "cstr m a (Suc n) = (if m a = 0 then [] else m a # cstr m (a + 1) n)"
  by (simp add: cstr_def load_bytes_Suc)

lemma cstr_0 [simp]: "cstr m a 0 = []"
  by (simp add: cstr_def load_bytes_def)

lemma apart_Suc: "apart s t (Suc n) \<Longrightarrow> apart (s + 1) (t + 1) n"
proof -
  assume a: "apart s t (Suc n)"
  have "s + of_nat (Suc i) \<noteq> t + of_nat (Suc j)" if "i < n" "j < n" for i j
    using a that unfolding apart_def by (meson Suc_mono)
  then show ?thesis by (simp add: apart_def algebra_simps)
qed

lemma apart_upd_load: "apart s t (Suc n) \<Longrightarrow> load_bytes (m(s := v)) (t + 1) n = load_bytes m (t + 1) n"
proof (rule load_bytes_cong)
  fix i assume "apart s t (Suc n)" "i < n"
  then have "s + of_nat 0 \<noteq> t + of_nat (Suc i)" unfolding apart_def by blast
  then have "t + 1 + of_nat i \<noteq> s" by (simp add: add.assoc)
  then show "(m(s := v)) (t + 1 + of_nat i) = m (t + 1 + of_nat i)" by simp
qed

lemma strncmp_loop_zero_iff: "strncmp_loop m p q n = 0 \<longleftrightarrow> cstr m p n = cstr m q n"
proof (induction n arbitrary: p q)
  case 0
  then show ?case by simp
next
  case (Suc n)
  have "uint (m p) - uint (m q) = 0 \<longleftrightarrow> m p = m q" by (simp add: word_uint_eq_iff)
  with Suc show ?case by (auto simp: cstr_Suc)
qed

lemma zero_fill_apply:
  "n \<le> 2 ^ 64 \<Longrightarrow> zero_fill m s n x = (if unat (x - s) < n then 0 else m x)"
proof -
  assume n: "n \<le> 2 ^ 64"
  have "zero_fill m s n = store_bytes m s (replicate n 0)"
    by (induction n arbitrary: m s) simp_all
  with n show ?thesis by (simp add: store_bytes_apply)
qed

lemma strncpy_loop_store:
  "apart s t n \<Longrightarrow>
   strncpy_loop m s t n = store_bytes m s (take n (cstr m t n @ replicate n 0))"
proof (induction n arbitrary: m s t)
  case 0
  then show ?case by simp
next
  case (Suc n)
  have zf: "zero_fill m s k = store_bytes m s (replicate k 0)" for m s k
    by (induction k arbitrary: m s) simp_all
  have "cstr (m(s := m t)) (t + 1) n = cstr m (t + 1) n"
    using Suc.prems by (simp add: cstr_def apart_upd_load)
  moreover have "take n (cstr m (t + 1) n @ replicate (Suc n) 0) = take n (cstr m (t + 1) n @ replicate n 0)"
    by (simp add: min_def del: replicate.simps)
  ultimately show ?case
    using Suc.IH [OF apart_Suc [OF Suc.prems]]
    by (cases "m t = 0") (simp_all add: cstr_Suc Let_def zf fun_upd_def)
qed

lemma safestrcpy_loop_store:
  "apart s t (Suc k) \<Longrightarrow>
   safestrcpy_loop m s t k =
     store_bytes m s (if length (cstr m t k) < k then cstr m t k @ [0, 0] else cstr m t k @ [0])"
proof (induction k arbitrary: m s t)
  case 0
  then show ?case by simp
next
  case (Suc k)
  let ?m = "m(s := m t)"
  have same: "cstr ?m (t + 1) k = cstr m (t + 1) k"
    using Suc.prems apart_upd_load [of s t k] by (simp add: cstr_def apart_def)
  have "safestrcpy_loop ?m (s + 1) (t + 1) k = store_bytes ?m (s + 1)
      (if length (cstr m (t + 1) k) < k then cstr m (t + 1) k @ [0, 0] else cstr m (t + 1) k @ [0])"
    using Suc.IH [OF apart_Suc [OF Suc.prems], of ?m] unfolding same .
  then show ?case by (simp only: safestrcpy_loop.simps Let_def cstr_Suc) (simp add: fun_upd_def)
qed

lemma strlen_loop_stop:
  assumes "\<And>i. n \<le> i \<Longrightarrow> i < k \<Longrightarrow> m (s + of_nat i) \<noteq> 0" and "m (s + of_nat k) = 0" and "n \<le> k"
  shows "strlen_loop m s n = Some k"
  using assms
proof (induction "k - n" arbitrary: n)
  case 0
  then show ?case by (simp add: strlen_loop.simps)
next
  case (Suc d)
  then have "strlen_loop m s (Suc n) = Some k" by (intro Suc.hyps) auto
  moreover have "m (s + of_nat n) \<noteq> 0" using Suc by auto
  ultimately show ?case by (subst strlen_loop.simps) simp
qed

text \<open>
  C13. \<open>memmove\<close> copies as if through a temporary, whatever the overlap of source and destination:
  afterwards the destination holds the bytes the source held before the call, and every byte
  outside the destination is unchanged. The source range must not run past the end of the address
  space (the C comparison \<open>s + n > d\<close> would wrap).
\<close>

theorem memmove_copies_overlapping:
  assumes "unat src + unat n < 2 ^ 64"
  shows "load_bytes (memmove m dst src n) dst (unat n) = load_bytes m src (unat n)
    \<and> (\<forall>x. unat n \<le> unat (x - dst) \<longrightarrow> memmove m dst src n x = m x)"
proof
  have n: "unat n < 2 ^ 64" using assms by simp
  show "load_bytes (memmove m dst src n) dst (unat n) = load_bytes m src (unat n)"
    using n assms by (intro load_bytes_cong) (simp add: memmove_apply of_nat_less_word)
  show "\<forall>x. unat n \<le> unat (x - dst) \<longrightarrow> memmove m dst src n x = m x"
    using assms by (simp add: memmove_apply)
qed

theorem memmove_copies_overlapping_witness:
  "load_bytes (memmove (\<lambda>a. ucast a) 102 100 5) 102 5 = [100, 101, 102, 103, 104]
   \<and> memmove (\<lambda>a. ucast a) 102 100 5 107 = 107"
proof -
  have "load_bytes (memmove (\<lambda>a. ucast a) 102 100 5) 102 (unat (5 :: 32 word))
        = load_bytes (\<lambda>a. ucast a) 100 (unat (5 :: 32 word))"
    and "memmove (\<lambda>a. ucast a) 102 100 5 107 = ucast (107 :: addr)"
    using memmove_copies_overlapping [of 100 5 "\<lambda>a. ucast a" 102] by simp_all
  then show ?thesis by (simp add: load_bytes_def upt_rec)
qed

end
