(* ===== verification/Riscv.thy ===== *)
theory Riscv
  imports Cmem
begin

unbundle bit_operations_syntax

text \<open>
  The numeric layer of the kernel: the Sv39 macros of \<open>kernel/riscv.h\<close>, the address-space layout
  of \<open>kernel/memlayout.h\<close> and the limits of \<open>kernel/param.h\<close> and \<open>kernel/fs.h\<close>, with the facts on page rounding,
  page-table indices and PTE encoding that the virtual-memory proofs use.
\<close>

section \<open>param.h\<close>

definition NPROC :: nat where [layout]: "NPROC = 64"
definition NCPU :: nat where [layout]: "NCPU = 8"
definition NOFILE :: nat where [layout]: "NOFILE = 16"
definition NFILE :: nat where [layout]: "NFILE = 100"
definition NINODE :: nat where [layout]: "NINODE = 50"
definition NDEV :: int where [layout]: "NDEV = 10"
definition ROOTDEV :: "32 word" where [layout]: "ROOTDEV = 1"
definition MAXARG :: nat where [layout]: "MAXARG = 32"
definition MAXOPBLOCKS :: nat where [layout]: "MAXOPBLOCKS = 10"
definition LOGSIZE :: nat where [layout]: "LOGSIZE = MAXOPBLOCKS * 3"
definition NBUF :: nat where [layout]: "NBUF = MAXOPBLOCKS * 3"
definition MAXPATH :: nat where [layout]: "MAXPATH = 128"
definition USERSTACK :: "64 word" where [layout]: "USERSTACK = 1"

section \<open>riscv.h: pages, PTEs and Sv39 indices\<close>

definition PGSIZE :: "64 word" where [layout]: "PGSIZE = 4096"
definition PGSHIFT :: nat where [layout]: "PGSHIFT = 12"

definition PGROUNDUP :: "64 word \<Rightarrow> 64 word" where
  "PGROUNDUP sz = (sz + PGSIZE - 1) AND NOT (PGSIZE - 1)"

definition PGROUNDDOWN :: "64 word \<Rightarrow> 64 word" where
  "PGROUNDDOWN a = a AND NOT (PGSIZE - 1)"

definition PTE_V :: "64 word" where [layout]: "PTE_V = push_bit 0 1"
definition PTE_R :: "64 word" where [layout]: "PTE_R = push_bit 1 1"
definition PTE_W :: "64 word" where [layout]: "PTE_W = push_bit 2 1"
definition PTE_X :: "64 word" where [layout]: "PTE_X = push_bit 3 1"
definition PTE_U :: "64 word" where [layout]: "PTE_U = push_bit 4 1"

definition PA2PTE :: "64 word \<Rightarrow> 64 word" where
  "PA2PTE pa = push_bit 10 (drop_bit 12 pa)"

definition PTE2PA :: "64 word \<Rightarrow> 64 word" where
  "PTE2PA pte = push_bit 12 (drop_bit 10 pte)"

definition PTE_FLAGS :: "64 word \<Rightarrow> 64 word" where
  "PTE_FLAGS pte = pte AND 0x3FF"

definition PXMASK :: "64 word" where [layout]: "PXMASK = 0x1FF"

definition PXSHIFT :: "nat \<Rightarrow> nat" where
  "PXSHIFT level = PGSHIFT + 9 * level"

definition PX :: "nat \<Rightarrow> 64 word \<Rightarrow> 64 word" where
  "PX level va = drop_bit (PXSHIFT level) va AND PXMASK"

definition MAXVA :: "64 word" where [layout]: "MAXVA = push_bit (9 + 9 + 9 + 12 - 1) 1"

definition SATP_SV39 :: "64 word" where [layout]: "SATP_SV39 = push_bit 60 8"

definition MAKE_SATP :: "64 word \<Rightarrow> 64 word" where
  "MAKE_SATP pagetable = SATP_SV39 OR drop_bit 12 pagetable"

section \<open>memlayout.h\<close>

definition UART0 :: "64 word" where [layout]: "UART0 = 0x10000000"
definition UART0_IRQ :: int where [layout]: "UART0_IRQ = 10"
definition VIRTIO0 :: "64 word" where [layout]: "VIRTIO0 = 0x10001000"
definition VIRTIO0_IRQ :: int where [layout]: "VIRTIO0_IRQ = 1"
definition PLIC :: "64 word" where [layout]: "PLIC = 0x0c000000"
definition KERNBASE :: "64 word" where [layout]: "KERNBASE = 0x80000000"
definition PHYSTOP :: "64 word" where [layout]: "PHYSTOP = KERNBASE + 128 * 1024 * 1024"
definition TRAMPOLINE :: "64 word" where [layout]: "TRAMPOLINE = MAXVA - PGSIZE"

definition KSTACK :: "nat \<Rightarrow> 64 word" where
  "KSTACK p = TRAMPOLINE - (of_nat p + 1) * 2 * PGSIZE"

definition TRAPFRAME :: "64 word" where [layout]: "TRAPFRAME = TRAMPOLINE - PGSIZE"

section \<open>fs.h and file.h: the disk layout's constants\<close>

definition ROOTINO :: "32 word" where [layout]: "ROOTINO = 1"
definition BSIZE :: nat where [layout]: "BSIZE = 1024"
definition FSMAGIC :: "32 word" where [layout]: "FSMAGIC = 0x10203040"
definition NDIRECT :: nat where [layout]: "NDIRECT = 12"
definition NINDIRECT :: nat where [layout]: "NINDIRECT = BSIZE div 4"
definition MAXFILE :: nat where [layout]: "MAXFILE = NDIRECT + NINDIRECT"
definition IPB :: nat where [layout]: "IPB = BSIZE div 64"
definition BPB :: nat where [layout]: "BPB = BSIZE * 8"
definition DIRSIZ :: nat where [layout]: "DIRSIZ = 14"

section \<open>Page rounding\<close>

lemma pgmask: "PGSIZE - 1 = mask 12"
  by (simp add: PGSIZE_def mask_eq_exp_minus_1)

lemma unat_PGSIZE [simp]: "unat PGSIZE = 4096"
  by (simp add: PGSIZE_def)

lemma page_up_measure:
  "(a :: addr) < a + PGSIZE \<Longrightarrow> 18446744073709551616 - unat (a + PGSIZE) < 18446744073709551616 - unat a"
  using unat_bound [of "a + PGSIZE"] by (simp add: word_less_nat_alt)

lemma unat_PGROUNDDOWN: "unat (PGROUNDDOWN a) = unat a div 4096 * 4096"
  unfolding PGROUNDDOWN_def pgmask unat_and_not_mask by simp

lemma unat_PGROUNDUP:
  assumes "unat a + 4095 < 2 ^ 64"
  shows "unat (PGROUNDUP a) = (unat a + 4095) div 4096 * 4096"
proof -
  have "a + PGSIZE - 1 = a + 4095" by (simp add: PGSIZE_def)
  moreover have "unat (a + 4095) = unat a + 4095" using assms by (simp add: unat_add_no_wrap)
  ultimately have "unat (a + PGSIZE - 1) = unat a + 4095" by (simp only:)
  then show ?thesis
    unfolding PGROUNDUP_def pgmask unat_and_not_mask by simp
qed

lemma PGROUNDDOWN_aligned [simp]: "unat (PGROUNDDOWN a) mod 4096 = 0"
  by (simp add: unat_PGROUNDDOWN)

lemma PGROUNDUP_aligned [simp]: "unat (PGROUNDUP a) mod 4096 = 0"
  unfolding PGROUNDUP_def pgmask unat_and_not_mask by simp

lemma PGROUNDDOWN_le: "PGROUNDDOWN a \<le> a"
  by (simp add: word_le_nat_alt unat_PGROUNDDOWN div_times_less_eq_dividend)

lemma PGROUNDDOWN_offset: "unat (a - PGROUNDDOWN a) = unat a mod 4096"
  by (simp add: unat_diff_le [OF PGROUNDDOWN_le] unat_PGROUNDDOWN minus_div_mult_eq_mod)

lemma word_mod_PGSIZE: "a mod PGSIZE = 0 \<longleftrightarrow> unat a mod 4096 = 0"
  by (simp add: PGSIZE_def word_unat_eq_iff unat_mod)

lemma PGROUNDDOWN_id: "unat a mod 4096 = 0 \<Longrightarrow> PGROUNDDOWN a = a"
  by (auto simp: word_unat_eq_iff unat_PGROUNDDOWN dvd_eq_mod_eq_0 [symmetric])

section \<open>PTE encoding\<close>

lemma not_bit_above: "(w :: 'a::len word) < 2 ^ n \<Longrightarrow> n \<le> i \<Longrightarrow> \<not> bit w i"
proof -
  assume w: "w < 2 ^ n" and i: "n \<le> i"
  have "unat (2 ^ n :: 'a word) = take_bit LENGTH('a) (2 ^ n)"
    using unat_of_nat [of "2 ^ n", where 'a = 'a] 
    by (simp only: of_nat_power of_nat_numeral take_bit_eq_mod)
  also have "\<dots> \<le> 2 ^ n" by (rule take_bit_nat_less_eq_self)
  finally have "unat w < 2 ^ n" using w by (simp add: word_less_nat_alt)
  then have "take_bit n w = w"
    unfolding word_unat_eq_iff unsigned_take_bit_eq by (simp add: take_bit_nat_eq_self)
  then have "bit w i = bit (take_bit n w) i" by simp
  with i show ?thesis by (simp add: bit_simps)
qed

lemma not_bit_below: "unat (w :: 'a::len word) mod 2 ^ n = 0 \<Longrightarrow> i < n \<Longrightarrow> \<not> bit w i"
proof -
  assume w: "unat w mod 2 ^ n = 0" and i: "i < n"
  have "take_bit n w = 0"
    unfolding word_unat_eq_iff unsigned_take_bit_eq using w by (simp add: take_bit_eq_mod)
  then have "\<not> bit (take_bit n w) i" by simp
  with i show ?thesis by (simp add: bit_simps)
qed

lemma PTE2PA_PA2PTE:
  assumes "unat pa mod 4096 = 0" and "pa < 2 ^ 56" and "flags < 2 ^ 10"
  shows "PTE2PA (PA2PTE pa OR flags) = pa"
proof (rule bit_word_eqI)
  fix i assume i: "i < LENGTH(64)"
  have low: "\<not> bit pa j" if "j < 12" for j
    using not_bit_below [of pa 12] that assms(1) by simp
  have high: "\<not> bit pa j" if "56 \<le> j" for j using not_bit_above assms(2) that by blast
  have fl: "\<not> bit flags j" if "10 \<le> j" for j using not_bit_above assms(3) that by blast
  show "bit (PTE2PA (PA2PTE pa OR flags)) i = bit pa i"
  proof (cases "i < 12")
    case True
    then show ?thesis using low by (simp add: PTE2PA_def PA2PTE_def bit_simps)
  next
    case False
    then show ?thesis
      using i fl [of "i - 2"] high [of i]
      by (auto simp: PTE2PA_def PA2PTE_def bit_simps)
  qed
qed

end
