(* ===== verification/Kstate.thy ===== *)
theory Kstate
  imports Riscv
begin

text \<open>
  The kernel's data structures, as the headers declare them, and the state every routine works on.
  A pointer into one of the kernel's fixed tables (\<open>struct proc *\<close>, \<open>struct buf *\<close>,
  \<open>struct inode *\<close>, \<open>struct file *\<close>, \<open>struct cpu *\<close>) is an index into that table, and a null
  pointer is \<open>None\<close>. Pages handed out by \<open>kalloc\<close> are addressed by their 64-bit physical address,
  which is also the kernel's virtual address for them; \<open>struct pipe\<close> and \<open>struct trapframe\<close>, which
  live in such pages, are kept as typed values under the address of their page.

  A spinlock or sleep channel is named rather than addressed: the constructors of \<open>lockid\<close> and
  \<open>chan\<close> are the distinct objects whose addresses the code passes to \<open>acquire\<close> and \<open>sleep\<close>.
\<close>

section \<open>Locks and channels (spinlock.h, sleeplock.h)\<close>

datatype slockid = Buf_lock nat | Inode_lock nat

datatype lockid =
    Kmem_lock | Pid_lock | Wait_lock | Proc_lock nat | Bcache_lock | Log_lock | Itable_lock
  | Ftable_lock | Pipe_lock addr | Cons_lock | Uart_tx_lock | Pr_lock | Tickslock | Vdisk_lock
  | Sleep_lk slockid

datatype chan =
    Chan_proc nat | Chan_ticks | Chan_log | Chan_sleeplock slockid | Chan_nread addr
  | Chan_nwrite addr | Chan_cons_r | Chan_uart_tx_r | Chan_buf nat | Chan_disk_free

record spinlock =
  locked :: bool
  lk_name :: string
  lk_cpu :: "nat option"

record sleeplock =
  sl_locked :: bool
  sl_name :: string
  sl_pid :: int

section \<open>Processes and CPUs (proc.h)\<close>

record ctxt =
  ctx_ra :: "64 word"
  ctx_sp :: "64 word"
  ctx_s :: "nat \<Rightarrow> 64 word"  \<comment> \<open>s0 to s11\<close>

record cpu =
  c_proc :: "nat option"
  c_context :: ctxt
  noff :: int
  intena :: bool

text \<open>The saved registers of a user process: one slot per field of \<open>struct trapframe\<close>.\<close>

datatype tfslot =
    Kernel_satp | Kernel_sp | Kernel_trap | Epc | Kernel_hartid
  | Tf_ra | Tf_sp | Tf_gp | Tf_tp | T0 | T1 | T2 | S0 | S1
  | A0 | A1 | A2 | A3 | A4 | A5 | A6 | A7
  | S2 | S3 | S4 | S5 | S6 | S7 | S8 | S9 | S10 | S11 | T3 | T4 | T5 | T6

type_synonym trapframe = "tfslot \<Rightarrow> 64 word"

datatype procstate = UNUSED | USED | SLEEPING | RUNNABLE | RUNNING | ZOMBIE

record proc =
  p_state :: procstate
  p_chan :: "chan option"
  p_killed :: int
  p_xstate :: int
  p_pid :: int
  p_parent :: "nat option"
  p_kstack :: "64 word"
  p_sz :: "64 word"
  p_pagetable :: addr
  p_trapframe :: addr
  p_context :: ctxt
  p_ofile :: "nat option list"
  p_cwd :: "nat option"
  p_name :: "byte list"

section \<open>Buffers, log, inodes, files and pipes (buf.h, log.c, fs.h, file.h, pipe.c)\<close>

record buf =
  b_valid :: bool
  b_disk :: bool
  b_dev :: "32 word"
  b_blockno :: "32 word"
  b_refcnt :: "32 word"
  b_prev :: nat
  b_next :: nat
  b_data :: "byte list"

record logheader =
  lh_n :: int
  lh_block :: "32 word list"

record logst =
  log_start :: "32 word"
  log_size :: int
  log_outstanding :: int
  log_committing :: bool
  log_dev :: "32 word"
  log_lh :: logheader

record superblock =
  sb_magic :: "32 word"
  sb_size :: "32 word"
  sb_nblocks :: "32 word"
  sb_ninodes :: "32 word"
  sb_nlog :: "32 word"
  sb_logstart :: "32 word"
  sb_inodestart :: "32 word"
  sb_bmapstart :: "32 word"

text \<open>The four \<open>short\<close> fields are kept as 16-bit words and read as signed where the code compares them.\<close>

record dinode =
  d_type :: "16 word"
  d_major :: "16 word"
  d_minor :: "16 word"
  d_nlink :: "16 word"
  d_size :: "32 word"
  d_addrs :: "32 word list"

record inode =
  i_dev :: "32 word"
  i_inum :: "32 word"
  i_ref :: int
  i_valid :: bool
  i_type :: "16 word"
  i_major :: "16 word"
  i_minor :: "16 word"
  i_nlink :: "16 word"
  i_size :: "32 word"
  i_addrs :: "32 word list"

record dirent =
  de_inum :: "16 word"
  de_name :: "byte list"

datatype ftype = FD_NONE | FD_PIPE | FD_INODE | FD_DEVICE

record kfile =
  f_type :: ftype
  f_ref :: int
  f_readable :: bool
  f_writable :: bool
  f_pipe :: addr
  f_ip :: "nat option"
  f_off :: "32 word"
  f_major :: "16 word"

record pipe =
  pi_data :: "byte list"
  pi_nread :: "32 word"
  pi_nwrite :: "32 word"
  pi_readopen :: bool
  pi_writeopen :: bool

record console =
  cons_buf :: "byte list"
  cons_r :: "32 word"
  cons_w :: "32 word"
  cons_e :: "32 word"

text \<open>
  The UART driver's transmit buffer, and the device behind it: \<open>ut_rx\<close> are the bytes received and
  not yet read, \<open>ut_room\<close> how many more bytes the transmitter takes before it is busy.
\<close>

record uartst =
  uart_tx_buf :: "byte list"
  uart_tx_w :: "64 word"
  uart_tx_r :: "64 word"
  ut_rx :: "byte list"
  ut_room :: nat

text \<open>
  The disk driver (virtio.h, virtio_disk.c). The descriptors, the two rings and the request headers
  are shared with the device. A 64-bit address in a descriptor points to one of three kinds of
  object and is named by it; \<open>vseen\<close> is how far into the avail ring the device has
  looked, and \<open>vkick\<close> the value \<open>avail->idx\<close> had when the driver last notified the device.
\<close>

datatype vptr = Vnull | Vop nat | Vdata nat | Vstatus nat

record virtq_desc =
  vd_addr :: vptr
  vd_len :: "32 word"
  vd_flags :: "16 word"
  vd_next :: "16 word"

record virtio_blk_req =
  vr_type :: "32 word"
  vr_reserved :: "32 word"
  vr_sector :: "64 word"

record vdisk =
  desc :: "virtq_desc list"
  avail_idx :: "16 word"
  avail_ring :: "16 word list"
  used_idx_dev :: "16 word"
  used_ring :: "32 word list"
  vfree :: "bool list"
  used_idx :: "16 word"
  info_b :: "nat option list"
  info_status :: "byte list"
  vops :: "virtio_blk_req list"
  vpages :: "addr list"
  vseen :: "16 word"
  vkick :: "16 word"

text \<open>The only device functions in the table are the console's.\<close>

datatype devfn = Console_rw

record devsw_entry =
  dev_read :: "devfn option"
  dev_write :: "devfn option"

section \<open>The machine and the kernel's globals\<close>

text \<open>Control and status registers the kernel reads or writes (riscv.h).\<close>

datatype csr =
    Mhartid | Mstatus | Mepc | Medeleg | Mideleg | Mie | Menvcfg | Mcounteren | Pmpcfg0 | Pmpaddr0
  | Sstatus | Sip | Sie | Sepc | Stvec | Stimecmp | Satp | Scause | Stval | Time

text \<open>Code addresses the linker fixes.\<close>

datatype ksym = Sym_forkret | Sym_usertrap | Sym_kernelvec | Sym_uservec | Sym_userret | Sym_main

text \<open>
  \<open>ddisk\<close> is what the disk holds, block by block (there is one disk), and \<open>dwrites\<close> the sequence
  of block writes the device has completed, oldest first: a crash keeps some prefix of it.
  \<open>kout\<close> is what the UART has sent. \<open>dev_in\<close> is what the other device registers read as, and
  \<open>dev_out\<close> the writes to them, oldest first. \<open>kend\<close>, \<open>etext\<close> and \<open>trampoline\<close> are addresses the linker fixes.
\<close>

record kstate =
  hart :: nat
  csrs :: "csr \<Rightarrow> 64 word"
  cpus :: "cpu list"
  locks :: "lockid \<Rightarrow> spinlock"
  slocks :: "slockid \<Rightarrow> sleeplock"
  kend :: addr
  etext :: addr
  trampoline :: addr
  mem :: memory
  freelist :: addr
  kernel_pagetable :: addr
  procs :: "proc list"
  initproc :: "nat option"
  nextpid :: int
  trapframes :: "addr \<Rightarrow> trapframe"
  ticks :: "32 word"
  bufs :: "buf list"
  ddisk :: "32 word \<Rightarrow> byte list"
  dwrites :: "(32 word \<times> byte list) list"
  klog :: logst
  sb :: superblock
  itable :: "inode list"
  ftable :: "kfile list"
  pipes :: "addr \<Rightarrow> pipe"
  cons :: console
  kout :: "byte list"
  uart :: uartst
  devsw :: "devsw_entry list"
  dev_in :: "addr \<Rightarrow> 32 word"
  dev_out :: "(addr \<times> 32 word) list"
  panicked :: bool
  pr_locking :: bool
  first :: bool
  started :: bool
  syms :: "ksym \<Rightarrow> addr"
  vdisk :: vdisk

text \<open>
  A kernel thread runs until it sleeps. What the other threads, the interrupt handlers and the
  devices do to the shared state while it sleeps is not the thread's choice: \<open>others\<close> lists, one
  entry for each time the thread sleeps, the change they make before it runs again. When the list
  is used up the thread is left asleep. Theorems about blocking routines quantify over this list.
\<close>

record world = kstate +
  others :: "(kstate \<Rightarrow> kstate) list"

text \<open>Why control does not return to the caller.\<close>

datatype halt =
    Panic string      \<comment> \<open>\<open>panic\<close> was called\<close>
  | Fault             \<comment> \<open>undefined behaviour: a null pointer dereferenced, an access outside its object\<close>
  | Switched          \<comment> \<open>\<open>swtch\<close> went to the scheduler, and this thread was not chosen again\<close>
  | Spinning lockid   \<comment> \<open>spinning on a lock another hart holds\<close>
  | To_user "64 word" \<comment> \<open>left the kernel through \<open>userret\<close> with this \<open>satp\<close>\<close>
  | Diverged          \<comment> \<open>a pointer loop of the code that does not end\<close>

type_synonym 'a kernel = "('a, halt, world) routine"

abbreviation panic :: "string \<Rightarrow> 'a kernel" where
  "panic msg \<equiv> stop (Panic msg)"

definition deref :: "'a option \<Rightarrow> 'a kernel" where
  "deref p = (case p of None \<Rightarrow> stop Fault | Some x \<Rightarrow> ret x)"

definition nonnull :: "addr \<Rightarrow> unit kernel" where
  \<comment> \<open>the access through a page pointer that the code does not check\<close>
  "nonnull a = (if a = 0 then stop Fault else skip)"

lemma deref_Some [simp]: "deref (Some x) = ret x"
  by (simp add: deref_def)

definition resume :: "(kstate \<Rightarrow> kstate) \<Rightarrow> world \<Rightarrow> world" where
  \<comment> \<open>the others' change, applied to everything but the list itself\<close>
  "resume f w = kstate.extend (f (kstate.truncate w)) (world.fields (others w))"

section \<open>Table updates\<close>

definition upd_proc :: "nat \<Rightarrow> (proc \<Rightarrow> proc) \<Rightarrow> world \<Rightarrow> world" where
  "upd_proc p f w = w\<lparr>procs := (procs w)[p := f (procs w ! p)]\<rparr>"

definition upd_buf :: "nat \<Rightarrow> (buf \<Rightarrow> buf) \<Rightarrow> world \<Rightarrow> world" where
  "upd_buf b f w = w\<lparr>bufs := (bufs w)[b := f (bufs w ! b)]\<rparr>"

definition upd_inode :: "nat \<Rightarrow> (inode \<Rightarrow> inode) \<Rightarrow> world \<Rightarrow> world" where
  "upd_inode i f w = w\<lparr>itable := (itable w)[i := f (itable w ! i)]\<rparr>"

definition upd_file :: "nat \<Rightarrow> (kfile \<Rightarrow> kfile) \<Rightarrow> world \<Rightarrow> world" where
  "upd_file i f w = w\<lparr>ftable := (ftable w)[i := f (ftable w ! i)]\<rparr>"

definition upd_pipe :: "addr \<Rightarrow> (pipe \<Rightarrow> pipe) \<Rightarrow> world \<Rightarrow> world" where
  "upd_pipe a f w = w\<lparr>pipes := (pipes w)(a := f (pipes w a))\<rparr>"

definition upd_log :: "(logst \<Rightarrow> logst) \<Rightarrow> world \<Rightarrow> world" where
  "upd_log f w = w\<lparr>klog := f (klog w)\<rparr>"

definition upd_lock :: "lockid \<Rightarrow> (spinlock \<Rightarrow> spinlock) \<Rightarrow> world \<Rightarrow> world" where
  "upd_lock l f w = w\<lparr>locks := (locks w)(l := f (locks w l))\<rparr>"

definition upd_slock :: "slockid \<Rightarrow> (sleeplock \<Rightarrow> sleeplock) \<Rightarrow> world \<Rightarrow> world" where
  "upd_slock l f w = w\<lparr>slocks := (slocks w)(l := f (slocks w l))\<rparr>"

definition upd_cpu :: "(cpu \<Rightarrow> cpu) \<Rightarrow> world \<Rightarrow> world" where
  "upd_cpu f w = w\<lparr>cpus := (cpus w)[hart w := f (cpus w ! hart w)]\<rparr>"

definition upd_csr :: "csr \<Rightarrow> 64 word \<Rightarrow> world \<Rightarrow> world" where
  "upd_csr r v w = w\<lparr>csrs := (csrs w)(r := v)\<rparr>"

definition upd_tf :: "addr \<Rightarrow> tfslot \<Rightarrow> 64 word \<Rightarrow> world \<Rightarrow> world" where
  "upd_tf a r v w = w\<lparr>trapframes := (trapframes w)(a := (trapframes w a)(r := v))\<rparr>"

lemmas upd_defs =
  upd_proc_def upd_buf_def upd_inode_def upd_file_def upd_pipe_def upd_log_def upd_lock_def
  upd_slock_def upd_cpu_def upd_csr_def upd_tf_def

text \<open>Updates of the kernel state and of \<open>others\<close> commute; the simplifier moves \<open>others\<close> outward.\<close>

lemma others_order [simp]:
  "hart_update g1 (others_update h w) = others_update h (hart_update g1 w)"
  "csrs_update g2 (others_update h w) = others_update h (csrs_update g2 w)"
  "cpus_update g3 (others_update h w) = others_update h (cpus_update g3 w)"
  "locks_update g4 (others_update h w) = others_update h (locks_update g4 w)"
  "slocks_update g5 (others_update h w) = others_update h (slocks_update g5 w)"
  "kend_update g6 (others_update h w) = others_update h (kend_update g6 w)"
  "etext_update g7 (others_update h w) = others_update h (etext_update g7 w)"
  "trampoline_update g8 (others_update h w) = others_update h (trampoline_update g8 w)"
  "mem_update g9 (others_update h w) = others_update h (mem_update g9 w)"
  "freelist_update g10 (others_update h w) = others_update h (freelist_update g10 w)"
  "kernel_pagetable_update g11 (others_update h w) = others_update h (kernel_pagetable_update g11 w)"
  "procs_update g12 (others_update h w) = others_update h (procs_update g12 w)"
  "initproc_update g13 (others_update h w) = others_update h (initproc_update g13 w)"
  "nextpid_update g14 (others_update h w) = others_update h (nextpid_update g14 w)"
  "trapframes_update g15 (others_update h w) = others_update h (trapframes_update g15 w)"
  "ticks_update g16 (others_update h w) = others_update h (ticks_update g16 w)"
  "bufs_update g17 (others_update h w) = others_update h (bufs_update g17 w)"
  "ddisk_update g18 (others_update h w) = others_update h (ddisk_update g18 w)"
  "dwrites_update g19 (others_update h w) = others_update h (dwrites_update g19 w)"
  "klog_update g20 (others_update h w) = others_update h (klog_update g20 w)"
  "sb_update g21 (others_update h w) = others_update h (sb_update g21 w)"
  "itable_update g22 (others_update h w) = others_update h (itable_update g22 w)"
  "ftable_update g23 (others_update h w) = others_update h (ftable_update g23 w)"
  "pipes_update g24 (others_update h w) = others_update h (pipes_update g24 w)"
  "cons_update g25 (others_update h w) = others_update h (cons_update g25 w)"
  "kout_update g26 (others_update h w) = others_update h (kout_update g26 w)"
  "uart_update g27 (others_update h w) = others_update h (uart_update g27 w)"
  "devsw_update g28 (others_update h w) = others_update h (devsw_update g28 w)"
  "dev_in_update g29 (others_update h w) = others_update h (dev_in_update g29 w)"
  "dev_out_update g30 (others_update h w) = others_update h (dev_out_update g30 w)"
  "panicked_update g31 (others_update h w) = others_update h (panicked_update g31 w)"
  "pr_locking_update g32 (others_update h w) = others_update h (pr_locking_update g32 w)"
  "first_update g33 (others_update h w) = others_update h (first_update g33 w)"
  "started_update g34 (others_update h w) = others_update h (started_update g34 w)"
  "syms_update g35 (others_update h w) = others_update h (syms_update g35 w)"
  "vdisk_update g36 (others_update h w) = others_update h (vdisk_update g36 w)"
  by (cases w, simp)+

section \<open>The state the kernel is loaded with\<close>

text \<open>Zero-initialised data, the two initialised globals, and a disk of zeros.\<close>

definition zero_ctxt :: ctxt where
  "zero_ctxt = \<lparr>ctx_ra = 0, ctx_sp = 0, ctx_s = (\<lambda>_. 0)\<rparr>"

definition zero_cpu :: cpu where
  "zero_cpu = \<lparr>c_proc = None, c_context = zero_ctxt, noff = 0, intena = False\<rparr>"

definition zero_proc :: proc where
  "zero_proc = \<lparr>p_state = UNUSED, p_chan = None, p_killed = 0, p_xstate = 0, p_pid = 0,
     p_parent = None, p_kstack = 0, p_sz = 0, p_pagetable = 0, p_trapframe = 0,
     p_context = zero_ctxt, p_ofile = replicate NOFILE None, p_cwd = None, p_name = replicate 16 0\<rparr>"

definition zero_buf :: buf where
  "zero_buf = \<lparr>b_valid = False, b_disk = False, b_dev = 0, b_blockno = 0, b_refcnt = 0,
     b_prev = 0, b_next = 0, b_data = replicate BSIZE 0\<rparr>"

definition zero_inode :: inode where
  "zero_inode = \<lparr>i_dev = 0, i_inum = 0, i_ref = 0, i_valid = False, i_type = 0, i_major = 0,
     i_minor = 0, i_nlink = 0, i_size = 0, i_addrs = replicate (NDIRECT + 1) 0\<rparr>"

definition zero_file :: kfile where
  "zero_file = \<lparr>f_type = FD_NONE, f_ref = 0, f_readable = False, f_writable = False, f_pipe = 0,
     f_ip = None, f_off = 0, f_major = 0\<rparr>"

definition bss :: world where
  "bss = \<lparr>hart = 0, csrs = (\<lambda>_. 0), cpus = replicate NCPU zero_cpu,
     locks = (\<lambda>_. \<lparr>locked = False, lk_name = [], lk_cpu = None\<rparr>),
     slocks = (\<lambda>_. \<lparr>sl_locked = False, sl_name = [], sl_pid = 0\<rparr>),
     kend = 0x80022000, etext = 0x80008000, trampoline = 0x80007000, mem = (\<lambda>_. 0), freelist = 0,
     kernel_pagetable = 0, procs = replicate NPROC zero_proc, initproc = None, nextpid = 1,
     trapframes = (\<lambda>_ _. 0), ticks = 0, bufs = replicate (Suc NBUF) zero_buf,
     ddisk = (\<lambda>_. replicate BSIZE 0), dwrites = [],
     klog = \<lparr>log_start = 0, log_size = 0, log_outstanding = 0, log_committing = False, log_dev = 0,
       log_lh = \<lparr>lh_n = 0, lh_block = replicate LOGSIZE 0\<rparr>\<rparr>,
     sb = \<lparr>sb_magic = 0, sb_size = 0, sb_nblocks = 0, sb_ninodes = 0, sb_nlog = 0, sb_logstart = 0,
       sb_inodestart = 0, sb_bmapstart = 0\<rparr>,
     itable = replicate NINODE zero_inode, ftable = replicate NFILE zero_file,
     pipes = (\<lambda>_. \<lparr>pi_data = replicate 512 0, pi_nread = 0, pi_nwrite = 0, pi_readopen = False,
       pi_writeopen = False\<rparr>),
     cons = \<lparr>cons_buf = replicate 128 0, cons_r = 0, cons_w = 0, cons_e = 0\<rparr>, kout = [],
     uart = \<lparr>uart_tx_buf = replicate 32 0, uart_tx_w = 0, uart_tx_r = 0, ut_rx = [], ut_room = 1\<rparr>,
     devsw = replicate (nat NDEV) \<lparr>dev_read = None, dev_write = None\<rparr>,
     dev_in = (\<lambda>_. 0), dev_out = [], panicked = False, pr_locking = False, first = True,
     started = False, syms = (\<lambda>_. 0x80001000),
     vdisk = \<lparr>desc = replicate 8 \<lparr>vd_addr = Vnull, vd_len = 0, vd_flags = 0, vd_next = 0\<rparr>,
       avail_idx = 0, avail_ring = replicate 8 0, used_idx_dev = 0, used_ring = replicate 8 0,
       vfree = replicate 8 False, used_idx = 0, info_b = replicate 8 None,
       info_status = replicate 8 0,
       vops = replicate 8 \<lparr>vr_type = 0, vr_reserved = 0, vr_sector = 0\<rparr>, vpages = [], vseen = 0, vkick = 0\<rparr>,
     others = []\<rparr>"

end
