(* ===== verification/Spinlock.thy ===== *)
theory Spinlock
  imports Kstate
begin

unbundle bit_operations_syntax

text \<open>
  Interrupt control and spinlocks: the register accessors of \<open>kernel/riscv.h\<close> that the kernel's C
  code goes through, \<open>mycpu\<close>/\<open>cpuid\<close> of \<open>kernel/proc.c\<close>, and \<open>kernel/spinlock.c\<close>.
  The routines here run on the hart \<open>hart w\<close>. \<open>acquire\<close> on a lock that another hart holds does not
  return in this sequential view (\<open>Spinning\<close>); the theory \<open>Contend\<close> has the view of single accesses
  of any number of harts competing for a lock, and proves mutual exclusion for it.
\<close>

section \<open>riscv.h: control and status registers\<close>

definition r_csr :: "csr \<Rightarrow> 64 word kernel" where
  "r_csr r = gets (\<lambda>w. csrs w r)"

definition w_csr :: "csr \<Rightarrow> 64 word \<Rightarrow> unit kernel" where
  "w_csr r x = modify (upd_csr r x)"

definition r_sstatus :: "64 word kernel" where "r_sstatus = r_csr Sstatus"
definition w_sstatus :: "64 word \<Rightarrow> unit kernel" where "w_sstatus = w_csr Sstatus"

definition SSTATUS_SPP :: "64 word" where [layout]: "SSTATUS_SPP = push_bit 8 1"
definition SSTATUS_SPIE :: "64 word" where [layout]: "SSTATUS_SPIE = push_bit 5 1"
definition SSTATUS_SIE :: "64 word" where [layout]: "SSTATUS_SIE = push_bit 1 1"

definition intr_on :: "unit kernel" where
  "intr_on = bind r_sstatus (\<lambda>x. w_sstatus (x OR SSTATUS_SIE))"

definition intr_off :: "unit kernel" where
  "intr_off = bind r_sstatus (\<lambda>x. w_sstatus (x AND NOT SSTATUS_SIE))"

definition intr_get :: "bool kernel" where
  "intr_get = bind r_sstatus (\<lambda>x. ret (x AND SSTATUS_SIE \<noteq> 0))"

definition cpuid :: "nat kernel" where
  "cpuid = gets hart"

definition mycpu :: "cpu kernel" where
  "mycpu = bind cpuid (\<lambda>id. gets (\<lambda>w. cpus w ! id))"

section \<open>spinlock.c\<close>

definition initlock :: "lockid \<Rightarrow> string \<Rightarrow> unit kernel" where
  "initlock lk name = modify (upd_lock lk (\<lambda>_. \<lparr>locked = False, lk_name = name, lk_cpu = None\<rparr>))"

definition push_off :: "unit kernel" where
  "push_off =
     bind intr_get (\<lambda>old.
     bind intr_off (\<lambda>_.
     bind mycpu (\<lambda>c.
     andthen (if noff c = 0 then modify (upd_cpu (\<lambda>c. c\<lparr>intena := old\<rparr>)) else skip)
       (modify (upd_cpu (\<lambda>c. c\<lparr>noff := noff c + 1\<rparr>))))))"

definition pop_off :: "unit kernel" where
  "pop_off =
     bind intr_get (\<lambda>on.
     if on then panic ''pop_off - interruptible'' else
     bind mycpu (\<lambda>c.
     if noff c < 1 then panic ''pop_off'' else
     andthen (modify (upd_cpu (\<lambda>c. c\<lparr>noff := noff c - 1\<rparr>)))
       (bind mycpu (\<lambda>c. if noff c = 0 \<and> intena c then intr_on else skip))))"

definition holding :: "lockid \<Rightarrow> bool kernel" where
  "holding lk = bind cpuid (\<lambda>id. gets (\<lambda>w. locked (locks w lk) \<and> lk_cpu (locks w lk) = Some id))"

text \<open>One hart's view of the atomic swap loop: either the swap finds the lock free, or it never does.\<close>

definition test_and_set :: "lockid \<Rightarrow> unit kernel" where
  "test_and_set lk =
     bind (gets (\<lambda>w. locked (locks w lk))) (\<lambda>old.
     if old then stop (Spinning lk) else modify (upd_lock lk (\<lambda>l. l\<lparr>locked := True\<rparr>)))"

definition acquire :: "lockid \<Rightarrow> unit kernel" where
  "acquire lk =
     andthen push_off
     (bind (holding lk) (\<lambda>h.
     if h then panic ''acquire'' else
     andthen (test_and_set lk)
     (bind cpuid (\<lambda>id. modify (upd_lock lk (\<lambda>l. l\<lparr>lk_cpu := Some id\<rparr>))))))"

definition release :: "lockid \<Rightarrow> unit kernel" where
  "release lk =
     bind (holding lk) (\<lambda>h.
     if \<not> h then panic ''release'' else
     andthen (modify (upd_lock lk (\<lambda>l. l\<lparr>lk_cpu := None\<rparr>)))
     (andthen (modify (upd_lock lk (\<lambda>l. l\<lparr>locked := False\<rparr>)))
      pop_off))"

section \<open>Running under locks\<close>

definition sie :: "world \<Rightarrow> bool" where
  "sie w \<longleftrightarrow> csrs w Sstatus AND SSTATUS_SIE \<noteq> 0"

abbreviation this_cpu :: "world \<Rightarrow> cpu" where
  "this_cpu w \<equiv> cpus w ! hart w"

text \<open>
  The bookkeeping of \<open>push_off\<close> and \<open>pop_off\<close>: interrupts are off whenever the nesting depth is
  positive, and at depth zero \<open>intena\<close> still records the state \<open>pop_off\<close> restored.
\<close>

definition calm :: "world \<Rightarrow> bool" where
  "calm w \<longleftrightarrow> hart w < length (cpus w) \<and> 0 \<le> noff (this_cpu w)
     \<and> (if noff (this_cpu w) = 0 then intena (this_cpu w) = sie w else \<not> sie w)"

definition free_lock :: "lockid \<Rightarrow> world \<Rightarrow> bool" where
  "free_lock lk w \<longleftrightarrow> \<not> locked (locks w lk) \<and> lk_cpu (locks w lk) = None"

definition held :: "lockid \<Rightarrow> world \<Rightarrow> bool" where
  "held lk w \<longleftrightarrow> locked (locks w lk) \<and> lk_cpu (locks w lk) = Some (hart w)"

definition hold :: "lockid \<Rightarrow> world \<Rightarrow> world" where
  \<comment> \<open>the state right after \<open>acquire lk\<close> returned\<close>
  "hold lk w = w\<lparr>
     csrs := (csrs w)(Sstatus := csrs w Sstatus AND NOT SSTATUS_SIE),
     cpus := (cpus w)[hart w := (this_cpu w)\<lparr>noff := noff (this_cpu w) + 1,
                intena := if noff (this_cpu w) = 0 then sie w else intena (this_cpu w)\<rparr>],
     locks := (locks w)(lk := (locks w lk)\<lparr>locked := True, lk_cpu := Some (hart w)\<rparr>)\<rparr>"

lemma intr_get_run [run_simps]: "intr_get w = Ok (sie w) w"
  by (simp add: intr_get_def r_sstatus_def r_csr_def sie_def)

lemma intr_off_run: "intr_off w = Ok () (upd_csr Sstatus (csrs w Sstatus AND NOT SSTATUS_SIE) w)"
  by (simp add: intr_off_def r_sstatus_def w_sstatus_def r_csr_def w_csr_def)

lemma intr_on_run: "intr_on w = Ok () (upd_csr Sstatus (csrs w Sstatus OR SSTATUS_SIE) w)"
  by (simp add: intr_on_def r_sstatus_def w_sstatus_def r_csr_def w_csr_def)

lemma mycpu_run [run_simps]: "mycpu w = Ok (this_cpu w) w"
  by (simp add: mycpu_def cpuid_def)

lemma holding_run [run_simps]: "holding lk w = Ok (held lk w) w"
  by (simp add: holding_def cpuid_def held_def)

lemma SIE_cleared: "((x :: 64 word) AND NOT SSTATUS_SIE) AND SSTATUS_SIE = 0"
  by (rule bit_word_eqI) (auto simp: bit_simps)

lemma SIE_restored: "(x :: 64 word) AND SSTATUS_SIE \<noteq> 0 \<Longrightarrow> (x AND NOT SSTATUS_SIE) OR SSTATUS_SIE = x"
proof -
  assume nz: "x AND SSTATUS_SIE \<noteq> 0"
  have "bit x 1"
  proof (rule ccontr)
    assume "\<not> bit x 1"
    then have "x AND SSTATUS_SIE = 0" by (intro bit_word_eqI) (auto simp: SSTATUS_SIE_def bit_simps)
    with nz show False by simp
  qed
  then show ?thesis by (intro bit_word_eqI) (auto simp: SSTATUS_SIE_def bit_simps)
qed

lemma SIE_already_clear: "(x :: 64 word) AND SSTATUS_SIE = 0 \<Longrightarrow> x AND NOT SSTATUS_SIE = x"
proof (rule bit_word_eqI)
  fix i assume "x AND SSTATUS_SIE = 0"
  then have "\<not> bit (x AND SSTATUS_SIE) 1" by simp
  then have "\<not> bit x 1" by (simp add: SSTATUS_SIE_def bit_simps)
  then show "bit (x AND NOT SSTATUS_SIE) i = bit x i"
    by (auto simp: SSTATUS_SIE_def bit_simps dest: bit_imp_le_length)
qed

lemma sie_hold [simp]: "\<not> sie (hold lk w)"
  by (simp add: sie_def hold_def SIE_cleared)

text \<open>Record updates of different fields commute; these put them in one order.\<close>

lemma cpu_upd_order: "intena_update g (noff_update f c) = noff_update f (intena_update g c)"
  by simp

lemma spinlock_upd_order: "lk_cpu_update g (locked_update f l) = locked_update f (lk_cpu_update g l)"
  by simp

lemmas lock_orders = cpu_upd_order spinlock_upd_order

lemma push_off_run:
  assumes "hart w < length (cpus w)"
  shows "push_off w = Ok () (w\<lparr>
     csrs := (csrs w)(Sstatus := csrs w Sstatus AND NOT SSTATUS_SIE),
     cpus := (cpus w)[hart w := (this_cpu w)\<lparr>noff := noff (this_cpu w) + 1,
                intena := if noff (this_cpu w) = 0 then sie w else intena (this_cpu w)\<rparr>]\<rparr>)"
  using assms
  by (cases "noff (this_cpu w) = 0")
    (simp_all add: push_off_def run_simps intr_off_run upd_defs lock_orders)

lemma acquire_run [run_simps]:
  assumes "calm w" and "free_lock lk w"
  shows "acquire lk w = Ok () (hold lk w)"
proof -
  have h: "hart w < length (cpus w)" using assms by (simp add: calm_def)
  show ?thesis using assms(2)
    by (simp add: acquire_def push_off_run [OF h] test_and_set_def cpuid_def
        run_simps free_lock_def held_def hold_def upd_defs lock_orders)
qed

lemma release_hold [run_simps]:
  assumes "calm w" and "free_lock lk w"
  shows "release lk (hold lk w) = Ok () w"
proof -
  have h: "hart w < length (cpus w)" using assms by (simp add: calm_def)
  have l: "(locks w lk)\<lparr>locked := False, lk_cpu := None\<rparr> = locks w lk"
    using assms(2) by (simp add: free_lock_def)
  show ?thesis
  proof (cases "noff (this_cpu w) = 0")
    case True
    then show ?thesis using assms h l
      by (simp add: release_def pop_off_def run_simps intr_on_run held_def hold_def upd_defs calm_def
          lock_orders sie_def SIE_cleared SIE_restored SIE_already_clear)
  next
    case False
    then show ?thesis using assms h l
      by (simp add: release_def pop_off_def run_simps intr_on_run held_def hold_def upd_defs calm_def
          lock_orders sie_def SIE_cleared SIE_restored SIE_already_clear)
  qed
qed

text \<open>The other fields are untouched by \<open>hold\<close>, and updating them commutes with it.\<close>

lemma hold_sel [simp]:
  "hart (hold lk w) = hart w"
  "kend (hold lk w) = kend w"
  "etext (hold lk w) = etext w"
  "trampoline (hold lk w) = trampoline w"
  "mem (hold lk w) = mem w"
  "freelist (hold lk w) = freelist w"
  "kernel_pagetable (hold lk w) = kernel_pagetable w"
  "procs (hold lk w) = procs w"
  "initproc (hold lk w) = initproc w"
  "nextpid (hold lk w) = nextpid w"
  "trapframes (hold lk w) = trapframes w"
  "ticks (hold lk w) = ticks w"
  "bufs (hold lk w) = bufs w"
  "ddisk (hold lk w) = ddisk w"
  "dwrites (hold lk w) = dwrites w"
  "klog (hold lk w) = klog w"
  "sb (hold lk w) = sb w"
  "itable (hold lk w) = itable w"
  "ftable (hold lk w) = ftable w"
  "pipes (hold lk w) = pipes w"
  "cons (hold lk w) = cons w"
  "kout (hold lk w) = kout w"
  "uart (hold lk w) = uart w"
  "devsw (hold lk w) = devsw w"
  "dev_in (hold lk w) = dev_in w"
  "dev_out (hold lk w) = dev_out w"
  "panicked (hold lk w) = panicked w"
  "pr_locking (hold lk w) = pr_locking w"
  "first (hold lk w) = first w"
  "started (hold lk w) = started w"
  "syms (hold lk w) = syms w"
  "vdisk (hold lk w) = vdisk w"
  "others (hold lk w) = others w"
  "slocks (hold lk w) = slocks w"
  by (simp_all add: hold_def)

lemma hold_upd [simp]:
  "kend_update g1 (hold lk w) = hold lk (kend_update g1 w)"
  "etext_update g2 (hold lk w) = hold lk (etext_update g2 w)"
  "trampoline_update g3 (hold lk w) = hold lk (trampoline_update g3 w)"
  "mem_update g4 (hold lk w) = hold lk (mem_update g4 w)"
  "freelist_update g5 (hold lk w) = hold lk (freelist_update g5 w)"
  "kernel_pagetable_update g6 (hold lk w) = hold lk (kernel_pagetable_update g6 w)"
  "procs_update g7 (hold lk w) = hold lk (procs_update g7 w)"
  "initproc_update g8 (hold lk w) = hold lk (initproc_update g8 w)"
  "nextpid_update g9 (hold lk w) = hold lk (nextpid_update g9 w)"
  "trapframes_update g10 (hold lk w) = hold lk (trapframes_update g10 w)"
  "ticks_update g11 (hold lk w) = hold lk (ticks_update g11 w)"
  "bufs_update g12 (hold lk w) = hold lk (bufs_update g12 w)"
  "ddisk_update g13 (hold lk w) = hold lk (ddisk_update g13 w)"
  "dwrites_update g14 (hold lk w) = hold lk (dwrites_update g14 w)"
  "klog_update g15 (hold lk w) = hold lk (klog_update g15 w)"
  "sb_update g16 (hold lk w) = hold lk (sb_update g16 w)"
  "itable_update g17 (hold lk w) = hold lk (itable_update g17 w)"
  "ftable_update g18 (hold lk w) = hold lk (ftable_update g18 w)"
  "pipes_update g19 (hold lk w) = hold lk (pipes_update g19 w)"
  "cons_update g20 (hold lk w) = hold lk (cons_update g20 w)"
  "kout_update g21 (hold lk w) = hold lk (kout_update g21 w)"
  "uart_update g22 (hold lk w) = hold lk (uart_update g22 w)"
  "devsw_update g23 (hold lk w) = hold lk (devsw_update g23 w)"
  "dev_in_update g24 (hold lk w) = hold lk (dev_in_update g24 w)"
  "dev_out_update g25 (hold lk w) = hold lk (dev_out_update g25 w)"
  "panicked_update g26 (hold lk w) = hold lk (panicked_update g26 w)"
  "pr_locking_update g27 (hold lk w) = hold lk (pr_locking_update g27 w)"
  "first_update g28 (hold lk w) = hold lk (first_update g28 w)"
  "started_update g204 (hold lk w) = hold lk (started_update g204 w)"
  "syms_update g205 (hold lk w) = hold lk (syms_update g205 w)"
  "vdisk_update g206 (hold lk w) = hold lk (vdisk_update g206 w)"
  "others_update g29 (hold lk w) = hold lk (others_update g29 w)"
  "slocks_update g30 (hold lk w) = hold lk (slocks_update g30 w)"
  by (simp_all add: hold_def sie_def)

lemma calm_upd [simp]:
  "calm (kend_update g31 w) = calm w"
  "calm (etext_update g32 w) = calm w"
  "calm (trampoline_update g33 w) = calm w"
  "calm (mem_update g34 w) = calm w"
  "calm (freelist_update g35 w) = calm w"
  "calm (kernel_pagetable_update g36 w) = calm w"
  "calm (procs_update g37 w) = calm w"
  "calm (initproc_update g38 w) = calm w"
  "calm (nextpid_update g39 w) = calm w"
  "calm (trapframes_update g40 w) = calm w"
  "calm (ticks_update g41 w) = calm w"
  "calm (bufs_update g42 w) = calm w"
  "calm (ddisk_update g43 w) = calm w"
  "calm (dwrites_update g44 w) = calm w"
  "calm (klog_update g45 w) = calm w"
  "calm (sb_update g46 w) = calm w"
  "calm (itable_update g47 w) = calm w"
  "calm (ftable_update g48 w) = calm w"
  "calm (pipes_update g49 w) = calm w"
  "calm (cons_update g50 w) = calm w"
  "calm (kout_update g51 w) = calm w"
  "calm (uart_update g52 w) = calm w"
  "calm (devsw_update g53 w) = calm w"
  "calm (dev_in_update g54 w) = calm w"
  "calm (dev_out_update g55 w) = calm w"
  "calm (panicked_update g56 w) = calm w"
  "calm (pr_locking_update g57 w) = calm w"
  "calm (first_update g58 w) = calm w"
  "calm (started_update g207 w) = calm w"
  "calm (syms_update g208 w) = calm w"
  "calm (vdisk_update g209 w) = calm w"
  "calm (others_update g59 w) = calm w"
  "calm (slocks_update g60 w) = calm w"
  by (simp_all add: calm_def sie_def)

lemma free_lock_upd [simp]:
  "free_lock lk (kend_update g61 w) = free_lock lk w"
  "free_lock lk (etext_update g62 w) = free_lock lk w"
  "free_lock lk (trampoline_update g63 w) = free_lock lk w"
  "free_lock lk (mem_update g64 w) = free_lock lk w"
  "free_lock lk (freelist_update g65 w) = free_lock lk w"
  "free_lock lk (kernel_pagetable_update g66 w) = free_lock lk w"
  "free_lock lk (procs_update g67 w) = free_lock lk w"
  "free_lock lk (initproc_update g68 w) = free_lock lk w"
  "free_lock lk (nextpid_update g69 w) = free_lock lk w"
  "free_lock lk (trapframes_update g70 w) = free_lock lk w"
  "free_lock lk (ticks_update g71 w) = free_lock lk w"
  "free_lock lk (bufs_update g72 w) = free_lock lk w"
  "free_lock lk (ddisk_update g73 w) = free_lock lk w"
  "free_lock lk (dwrites_update g74 w) = free_lock lk w"
  "free_lock lk (klog_update g75 w) = free_lock lk w"
  "free_lock lk (sb_update g76 w) = free_lock lk w"
  "free_lock lk (itable_update g77 w) = free_lock lk w"
  "free_lock lk (ftable_update g78 w) = free_lock lk w"
  "free_lock lk (pipes_update g79 w) = free_lock lk w"
  "free_lock lk (cons_update g80 w) = free_lock lk w"
  "free_lock lk (kout_update g81 w) = free_lock lk w"
  "free_lock lk (uart_update g82 w) = free_lock lk w"
  "free_lock lk (devsw_update g83 w) = free_lock lk w"
  "free_lock lk (dev_in_update g84 w) = free_lock lk w"
  "free_lock lk (dev_out_update g85 w) = free_lock lk w"
  "free_lock lk (panicked_update g86 w) = free_lock lk w"
  "free_lock lk (pr_locking_update g87 w) = free_lock lk w"
  "free_lock lk (first_update g88 w) = free_lock lk w"
  "free_lock lk (started_update g210 w) = free_lock lk w"
  "free_lock lk (syms_update g211 w) = free_lock lk w"
  "free_lock lk (vdisk_update g212 w) = free_lock lk w"
  "free_lock lk (others_update g89 w) = free_lock lk w"
  "free_lock lk (slocks_update g90 w) = free_lock lk w"
  "free_lock lk (csrs_update g91 w) = free_lock lk w"
  "free_lock lk (cpus_update g92 w) = free_lock lk w"
  by (simp_all add: free_lock_def)

lemma calm_hold [simp]: "calm w \<Longrightarrow> calm (hold lk w)"
  by (simp add: calm_def) (simp add: hold_def)

lemma free_lock_hold [simp]: "free_lock l (hold lk w) \<longleftrightarrow> l \<noteq> lk \<and> free_lock l w"
  by (auto simp: free_lock_def hold_def)

lemma held_hold [simp]: "held l (hold lk w) \<longleftrightarrow> l = lk \<or> held l w"
  by (auto simp: held_def hold_def)

lemma free_not_held: "free_lock l w \<Longrightarrow> \<not> held l w"
  by (simp add: free_lock_def held_def)

lemma hold_commute:
  assumes "calm w" and "l \<noteq> lk"
  shows "hold l (hold lk w) = hold lk (hold l w)"
proof -
  have "hart w < length (cpus w)" and "0 \<le> noff (this_cpu w)" using assms by (simp_all add: calm_def)
  then show ?thesis using assms(2) by (simp add: hold_def sie_def fun_upd_twist)
qed

text \<open>
  C15. Interrupt nesting is exact: on a hart whose bookkeeping is in order (interrupts are off when the
  nesting depth is positive; at depth zero \<open>intena\<close> is the current state of interrupts, as it is after
  any \<open>push_off\<close> and \<open>pop_off\<close>), acquiring a free lock and releasing it again leaves the whole state as
  it was, interrupts included; while the lock is held interrupts are off, however deep the nesting.
\<close>

theorem acquire_release_restores:
  assumes "calm w" and "free_lock lk w"
  shows "\<exists>w'. acquire lk w = Ok () w' \<and> held lk w' \<and> \<not> sie w' \<and> release lk w' = Ok () w"
  using assms by (intro exI [of _ "hold lk w"]) (simp add: run_simps)

lemma calm_bss: "calm bss"
  by (simp add: calm_def bss_def zero_cpu_def sie_def layout)

lemma free_lock_bss: "free_lock lk bss"
  by (simp add: free_lock_def bss_def)

theorem acquire_release_restores_witness:
  "\<exists>w'. acquire Kmem_lock bss = Ok () w' \<and> held Kmem_lock w' \<and> \<not> sie w'
     \<and> release Kmem_lock w' = Ok () bss"
  using acquire_release_restores [OF calm_bss free_lock_bss] .

end
