(* ===== verification/Contend.thy ===== *)
theory Contend
  imports Spinlock
begin

text \<open>
  Harts that compete for one spinlock, at the granularity of single accesses. \<open>hart_step\<close> is one
  access of one hart to the lock words, to its interrupt-enable bit or to its own \<open>struct cpu\<close>, in
  the order \<open>acquire\<close>, \<open>release\<close>, \<open>holding\<close>, \<open>push_off\<close> and \<open>pop_off\<close> of \<open>kernel/spinlock.c\<close> make
  them; steps of different harts interleave freely (the fences of the code keep the order within a
  hart). While its interrupts are on, a hart can be interrupted between any two accesses; the
  handler runs with interrupts off and may take the lock itself.

  Code outside the five routines is not restricted: at \<open>Run\<close> it may call any of \<open>acquire\<close>, \<open>release\<close>,
  \<open>push_off\<close> and \<open>pop_off\<close> (the latter two stand for other locks). A call that breaks the rules
  (acquiring twice, releasing what is not held, an unmatched \<open>pop_off\<close>) is recorded in \<open>sh_misused\<close>.
\<close>

section \<open>The accesses of one hart\<close>

datatype spin_pc =
    Run
  | Off_read bool       \<comment> \<open>\<open>push_off\<close>, before \<open>old = intr_get()\<close>; the argument: called by \<open>acquire\<close>\<close>
  | Off_clear bool bool \<comment> \<open>before \<open>intr_off()\<close>; the second argument is \<open>old\<close>\<close>
  | Off_save bool bool  \<comment> \<open>before \<open>if(noff == 0) intena = old\<close>\<close>
  | Off_count bool      \<comment> \<open>before \<open>noff += 1\<close>\<close>
  | Acq_locked          \<comment> \<open>\<open>holding\<close> in \<open>acquire\<close>, before the load of \<open>lk->locked\<close>\<close>
  | Acq_cpu             \<comment> \<open>before the load of \<open>lk->cpu\<close>\<close>
  | Swap                \<comment> \<open>in the loop of atomic swaps\<close>
  | Set_cpu             \<comment> \<open>before \<open>lk->cpu = mycpu()\<close>\<close>
  | Rel_locked          \<comment> \<open>\<open>holding\<close> in \<open>release\<close>, before the load of \<open>lk->locked\<close>\<close>
  | Rel_cpu             \<comment> \<open>before the load of \<open>lk->cpu\<close>\<close>
  | Clear_cpu           \<comment> \<open>before \<open>lk->cpu = 0\<close>\<close>
  | Unlock              \<comment> \<open>before the swap that frees the lock\<close>
  | Pop_intr            \<comment> \<open>\<open>pop_off\<close>, before \<open>intr_get()\<close>\<close>
  | Pop_test            \<comment> \<open>before \<open>if(c->noff < 1)\<close>\<close>
  | Pop_count           \<comment> \<open>before \<open>c->noff -= 1\<close>\<close>
  | Pop_on              \<comment> \<open>before \<open>if(c->noff == 0 && c->intena) intr_on()\<close>\<close>
  | Panicked

record spin_hart =
  sh_pc :: spin_pc
  sh_stack :: "spin_pc list"  \<comment> \<open>where the interrupted code will go on\<close>
  sh_ie :: bool               \<comment> \<open>SIE of sstatus\<close>
  sh_noff :: int
  sh_intena :: bool
  sh_has :: bool              \<comment> \<open>from the swap that took the lock to the one that frees it\<close>
  sh_depth :: nat             \<comment> \<open>calls of \<open>push_off\<close> by other code, less those of \<open>pop_off\<close>\<close>
  sh_misused :: bool

inductive hart_step :: "nat \<Rightarrow> spinlock \<Rightarrow> spin_hart \<Rightarrow> spinlock \<Rightarrow> spin_hart \<Rightarrow> bool"
  for h :: nat and l :: spinlock and x :: spin_hart where
  interrupt: "sh_ie x \<Longrightarrow> sh_pc x \<noteq> Panicked \<Longrightarrow>
    hart_step h l x l (x\<lparr>sh_pc := Run, sh_stack := sh_pc x # sh_stack x, sh_ie := False\<rparr>)"
| interrupt_return: "sh_pc x = Run \<Longrightarrow> sh_noff x = 0 \<Longrightarrow> sh_stack x = pc # pcs \<Longrightarrow>
    hart_step h l x l (x\<lparr>sh_pc := pc, sh_stack := pcs, sh_ie := True\<rparr>)"
| call_push_off: "sh_pc x = Run \<Longrightarrow> hart_step h l x l (x\<lparr>sh_pc := Off_read False\<rparr>)"
| call_pop_off: "sh_pc x = Run \<Longrightarrow>
    hart_step h l x l (x\<lparr>sh_pc := Pop_intr, sh_depth := sh_depth x - 1, sh_misused := (sh_misused x \<or> sh_depth x = 0)\<rparr>)"
| call_acquire: "sh_pc x = Run \<Longrightarrow>
    hart_step h l x l (x\<lparr>sh_pc := Off_read True, sh_misused := (sh_misused x \<or> sh_has x)\<rparr>)"
| call_release: "sh_pc x = Run \<Longrightarrow>
    hart_step h l x l (x\<lparr>sh_pc := Rel_locked, sh_misused := (sh_misused x \<or> \<not> sh_has x)\<rparr>)"
| off_read: "sh_pc x = Off_read a \<Longrightarrow> hart_step h l x l (x\<lparr>sh_pc := Off_clear a (sh_ie x)\<rparr>)"
| off_clear: "sh_pc x = Off_clear a old \<Longrightarrow> hart_step h l x l (x\<lparr>sh_pc := Off_save a old, sh_ie := False\<rparr>)"
| off_save: "sh_pc x = Off_save a old \<Longrightarrow>
    hart_step h l x l (x\<lparr>sh_pc := Off_count a, sh_intena := (if sh_noff x = 0 then old else sh_intena x)\<rparr>)"
| off_count_acquire: "sh_pc x = Off_count True \<Longrightarrow>
    hart_step h l x l (x\<lparr>sh_pc := Acq_locked, sh_noff := sh_noff x + 1\<rparr>)"
| off_count: "sh_pc x = Off_count False \<Longrightarrow>
    hart_step h l x l (x\<lparr>sh_pc := Run, sh_noff := sh_noff x + 1, sh_depth := sh_depth x + 1\<rparr>)"
| acq_locked: "sh_pc x = Acq_locked \<Longrightarrow>
    hart_step h l x l (x\<lparr>sh_pc := (if locked l then Acq_cpu else Swap)\<rparr>)"
| acq_cpu: "sh_pc x = Acq_cpu \<Longrightarrow>
    hart_step h l x l (x\<lparr>sh_pc := (if lk_cpu l = Some h then Panicked else Swap)\<rparr>)"
| swap_busy: "sh_pc x = Swap \<Longrightarrow> locked l \<Longrightarrow> hart_step h l x (l\<lparr>locked := True\<rparr>) x"
| swap_free: "sh_pc x = Swap \<Longrightarrow> \<not> locked l \<Longrightarrow>
    hart_step h l x (l\<lparr>locked := True\<rparr>) (x\<lparr>sh_pc := Set_cpu, sh_has := True\<rparr>)"
| set_cpu: "sh_pc x = Set_cpu \<Longrightarrow> hart_step h l x (l\<lparr>lk_cpu := Some h\<rparr>) (x\<lparr>sh_pc := Run\<rparr>)"
| rel_locked: "sh_pc x = Rel_locked \<Longrightarrow>
    hart_step h l x l (x\<lparr>sh_pc := (if locked l then Rel_cpu else Panicked)\<rparr>)"
| rel_cpu: "sh_pc x = Rel_cpu \<Longrightarrow>
    hart_step h l x l (x\<lparr>sh_pc := (if lk_cpu l = Some h then Clear_cpu else Panicked)\<rparr>)"
| clear_cpu: "sh_pc x = Clear_cpu \<Longrightarrow> hart_step h l x (l\<lparr>lk_cpu := None\<rparr>) (x\<lparr>sh_pc := Unlock\<rparr>)"
| unlock: "sh_pc x = Unlock \<Longrightarrow> hart_step h l x (l\<lparr>locked := False\<rparr>) (x\<lparr>sh_pc := Pop_intr, sh_has := False\<rparr>)"
| pop_intr: "sh_pc x = Pop_intr \<Longrightarrow> hart_step h l x l (x\<lparr>sh_pc := (if sh_ie x then Panicked else Pop_test)\<rparr>)"
| pop_test: "sh_pc x = Pop_test \<Longrightarrow> hart_step h l x l (x\<lparr>sh_pc := (if sh_noff x < 1 then Panicked else Pop_count)\<rparr>)"
| pop_count: "sh_pc x = Pop_count \<Longrightarrow> hart_step h l x l (x\<lparr>sh_pc := Pop_on, sh_noff := sh_noff x - 1\<rparr>)"
| pop_on: "sh_pc x = Pop_on \<Longrightarrow>
    hart_step h l x l (x\<lparr>sh_pc := Run, sh_ie := (sh_ie x \<or> sh_noff x = 0 \<and> sh_intena x)\<rparr>)"

record spin_state =
  sp_lock :: spinlock
  sp_hart :: "nat \<Rightarrow> spin_hart"

inductive spin_step :: "spin_state \<Rightarrow> spin_state \<Rightarrow> bool" where
  some_hart: "hart_step h (sp_lock s) (sp_hart s h) l x \<Longrightarrow>
    spin_step s (s\<lparr>sp_lock := l, sp_hart := (sp_hart s)(h := x)\<rparr>)"

definition fresh_hart :: "bool \<Rightarrow> spin_hart" where
  "fresh_hart ie = \<lparr>sh_pc = Run, sh_stack = [], sh_ie = ie, sh_noff = 0, sh_intena = False, sh_has = False,
     sh_depth = 0, sh_misused = False\<rparr>"

definition spin_init :: "spin_state \<Rightarrow> bool" where
  \<comment> \<open>after \<open>initlock\<close>; each hart's interrupts may be on or off\<close>
  "spin_init s \<longleftrightarrow> \<not> locked (sp_lock s) \<and> lk_cpu (sp_lock s) = None \<and> (\<forall>h. \<exists>ie. sp_hart s h = fresh_hart ie)"

section \<open>The invariant\<close>

fun resumable :: "spin_pc \<Rightarrow> bool" where
  \<comment> \<open>where a hart can be while its interrupts are on\<close>
  "resumable Run = True" | "resumable (Off_read a) = True" | "resumable (Off_clear a old) = old" | "resumable _ = False"

fun with_lock :: "spin_pc \<Rightarrow> bool" where
  "with_lock Set_cpu = True" | "with_lock Rel_locked = True" | "with_lock Rel_cpu = True" | "with_lock Clear_cpu = True"
| "with_lock Unlock = True" | "with_lock _ = False"

fun without_lock :: "spin_pc \<Rightarrow> bool" where
  "without_lock (Off_read a) = a" | "without_lock (Off_clear a old) = a" | "without_lock (Off_save a old) = a"
| "without_lock (Off_count a) = a" | "without_lock Acq_locked = True" | "without_lock Acq_cpu = True"
| "without_lock Swap = True" | "without_lock _ = False"

fun counted :: "spin_pc \<Rightarrow> bool" where
  \<comment> \<open>\<open>noff\<close> has been incremented, or not yet decremented, by the call in progress\<close>
  "counted Acq_locked = True" | "counted Acq_cpu = True" | "counted Swap = True" | "counted Pop_intr = True"
| "counted Pop_test = True" | "counted Pop_count = True" | "counted _ = False"

fun published :: "spin_pc \<Rightarrow> bool" where
  \<comment> \<open>a hart that has the lock is recorded in \<open>lk->cpu\<close>, but not just after taking and just before freeing it\<close>
  "published Set_cpu = False" | "published Unlock = False" | "published _ = True"

definition orderly :: "spin_hart \<Rightarrow> bool" where
  \<comment> \<open>a hart's own bookkeeping\<close>
  "orderly x \<longleftrightarrow> sh_pc x \<noteq> Panicked
     \<and> sh_noff x = int (sh_depth x) + of_bool (sh_has x) + of_bool (counted (sh_pc x))
     \<and> (sh_ie x \<longrightarrow> sh_noff x = 0 \<and> resumable (sh_pc x))
     \<and> (\<forall>a old. sh_pc x = Off_clear a old \<longrightarrow> old = sh_ie x)
     \<and> (\<forall>pc \<in> set (sh_stack x). resumable pc)
     \<and> (with_lock (sh_pc x) \<longrightarrow> sh_has x) \<and> (without_lock (sh_pc x) \<longrightarrow> \<not> sh_has x)"

definition agrees :: "nat \<Rightarrow> spinlock \<Rightarrow> spin_hart \<Rightarrow> bool" where
  \<comment> \<open>the words of the lock and the hart\<close>
  "agrees h l x \<longleftrightarrow> (sh_has x \<longrightarrow> locked l) \<and> (lk_cpu l = Some h \<longleftrightarrow> sh_has x \<and> published (sh_pc x))"

definition hart_ok :: "nat \<Rightarrow> spinlock \<Rightarrow> spin_hart \<Rightarrow> bool" where
  "hart_ok h l x \<longleftrightarrow> orderly x \<and> agrees h l x"

lemmas hart_defs = hart_ok_def orderly_def agrees_def

definition misused :: "spin_state \<Rightarrow> bool" where
  "misused s \<longleftrightarrow> (\<exists>h. sh_misused (sp_hart s h))"

definition spin_ok :: "spin_state \<Rightarrow> bool" where
  "spin_ok s \<longleftrightarrow> (\<forall>h. hart_ok h (sp_lock s) (sp_hart s h))
     \<and> (\<forall>h k. sh_has (sp_hart s h) \<longrightarrow> sh_has (sp_hart s k) \<longrightarrow> h = k)
     \<and> (locked (sp_lock s) \<longrightarrow> (\<exists>h. sh_has (sp_hart s h)))"

lemma resumed:
  assumes "hart_ok h l x" "sh_noff x = 0" "sh_stack x = pc # pcs"
  shows "hart_ok h l (x\<lparr>sh_pc := pc, sh_stack := pcs, sh_ie := True\<rparr>)"
proof -
  have "resumable pc" using assms(1,3) by (simp add: hart_defs)
  moreover have "int (sh_depth x) + of_bool (sh_has x) + of_bool (counted (sh_pc x)) = 0" using assms(1,2) by (simp add: hart_defs)
  then have "\<not> sh_has x" "sh_depth x = 0" by (cases "sh_has x"; cases "counted (sh_pc x)"; simp)+
  ultimately show ?thesis using assms by (cases pc) (simp_all add: hart_defs)
qed

lemma has_off:
  assumes "hart_ok h l x" "sh_has x"
  shows "\<not> sh_ie x" "sh_pc x \<noteq> Swap"
proof -
  have "0 < sh_noff x" using assms by (cases "counted (sh_pc x)") (simp_all add: hart_defs)
  then show "\<not> sh_ie x" using assms(1) by (auto simp: hart_defs)
  show "sh_pc x \<noteq> Swap" using assms by (auto simp: hart_defs)
qed

lemma own_step:
  assumes "hart_ok h l x" "hart_step h l x l' x'" "\<not> sh_misused x'"
  shows "hart_ok h l' x'"
  using assms(2,1,3)
proof cases
  case interrupt
  then show ?thesis using assms(1) by (cases "sh_pc x") (auto simp: hart_defs)
next
  case (interrupt_return pc pcs)
  then show ?thesis using resumed [OF assms(1)] by simp
qed (simp_all add: hart_defs, auto)

lemma other_step:
  assumes "hart_ok k l y" "hart_ok h l x" "hart_step h l x l' x'" "k \<noteq> h" "sh_has x \<Longrightarrow> \<not> sh_has y"
  shows "hart_ok k l' y"
proof -
  have o: "orderly x" and a: "orderly y" "agrees k l y" "agrees h l x" using assms(1,2) by (simp_all add: hart_ok_def)
  have w: "with_lock (sh_pc x) \<Longrightarrow> sh_has x" using o by (simp add: orderly_def)
  have "agrees k l' y" using assms(3) by cases (use a(2,3) w assms(4,5) in \<open>auto simp: agrees_def\<close>)
  then show ?thesis using a(1) by (simp add: hart_ok_def)
qed

lemma lock_step:
  assumes "hart_step h l x l' x'" "hart_ok h l x"
  shows "sh_has x' = sh_has x \<and> locked l' = locked l \<or> \<not> locked l \<and> locked l' \<and> sh_has x'
     \<or> sh_has x \<and> \<not> sh_has x' \<and> \<not> locked l'"
  using assms by cases (auto simp: hart_defs)

lemma misused_step: "hart_step h l x l' x' \<Longrightarrow> sh_misused x \<Longrightarrow> sh_misused x'"
  by (cases rule: hart_step.cases) auto

lemma spin_ok_step:
  assumes ok: "spin_ok s" and st: "hart_step h (sp_lock s) (sp_hart s h) l x" and m: "\<not> sh_misused x"
  shows "spin_ok (s\<lparr>sp_lock := l, sp_hart := (sp_hart s)(h := x)\<rparr>)"
proof -
  have ho: "hart_ok k (sp_lock s) (sp_hart s k)" for k using ok by (simp add: spin_ok_def)
  have one: "sh_has (sp_hart s a) \<Longrightarrow> sh_has (sp_hart s b) \<Longrightarrow> a = b" for a b using ok by (simp add: spin_ok_def)
  have lk: "sh_has (sp_hart s k) \<Longrightarrow> locked (sp_lock s)" for k using ho [of k] by (simp add: hart_ok_def agrees_def)
  have 1: "hart_ok k l (if k = h then x else sp_hart s k)" for k
    using own_step [OF ho st m] other_step [OF ho [of k] ho [of h] st] one [of h k] by (cases "k = h") (simp, fastforce)
  have 2: "a = b" if "sh_has (if a = h then x else sp_hart s a)" "sh_has (if b = h then x else sp_hart s b)" for a b
    using that lock_step [OF st ho] one [of a b] one [of a h] one [of h b] lk [of a] lk [of b] by (cases "a = h"; cases "b = h") auto
  have 3: "\<exists>k. sh_has (if k = h then x else sp_hart s k)" if "locked l"
  proof (cases "locked (sp_lock s) \<and> \<not> sh_has x")
    case True
    then obtain k where "sh_has (sp_hart s k)" using ok by (auto simp: spin_ok_def)
    then show ?thesis using True that lock_step [OF st ho] by (intro exI [of _ k]) auto
  next
    case False
    then have "sh_has x" using that lock_step [OF st ho] by auto
    then show ?thesis by (intro exI [of _ h]) simp
  qed
  let ?t = "s\<lparr>sp_lock := l, sp_hart := (sp_hart s)(h := x)\<rparr>"
  have t: "sp_lock ?t = l" "sp_hart ?t k = (if k = h then x else sp_hart s k)" for k by simp_all
  show ?thesis unfolding spin_ok_def t using 1 2 3 by blast
qed

interpretation spin: inductive_invariant spin_init spin_step "\<lambda>s. misused s \<or> spin_ok s"
proof
  show "misused s \<or> spin_ok s" if "spin_init s" for s
  proof -
    have "hart_ok h (sp_lock s) (sp_hart s h)" "\<not> sh_has (sp_hart s h)" for h
    proof -
      obtain ie where "sp_hart s h = fresh_hart ie" using \<open>spin_init s\<close> by (auto simp: spin_init_def)
      then show "hart_ok h (sp_lock s) (sp_hart s h)" "\<not> sh_has (sp_hart s h)"
        using \<open>spin_init s\<close> by (simp_all add: spin_init_def hart_defs fresh_hart_def)
    qed
    then show ?thesis using that by (simp add: spin_ok_def spin_init_def)
  qed
  show "misused t \<or> spin_ok t" if i: "misused s \<or> spin_ok s" and "spin_step s t" for s t
    using that(2)
  proof cases
    case (some_hart h l x)
    show ?thesis
    proof (cases "misused s \<or> sh_misused x")
      case True
      then obtain k where "sh_misused (sp_hart s k) \<or> sh_misused x" by (auto simp: misused_def)
      then have "sh_misused (sp_hart t k) \<or> sh_misused (sp_hart t h)" using misused_step [OF some_hart(2)] by (auto simp: some_hart(1))
      then show ?thesis unfolding misused_def by blast
    next
      case False
      then show ?thesis using spin_ok_step [OF _ some_hart(2)] i some_hart(1) by simp
    qed
  qed
qed

text \<open>
  C3. Mutual exclusion, under any interleaving of the accesses of any number of harts and of
  interrupts on each of them. As long as no code has acquired the lock twice, released it without
  having it or called an unmatched \<open>pop_off\<close>: at most one hart has the lock; the word \<open>locked\<close> says
  exactly whether one has; interrupts are off on the hart that has it; no hart spins for a lock it
  has itself; no panic of \<open>acquire\<close>, \<open>release\<close> or \<open>pop_off\<close> has been reached; and whenever a hart is at
  one of the loads of \<open>holding\<close>, or outside the routines, what \<open>holding\<close> tests is whether this hart
  has the lock, although the two words are read one after the other and without synchronisation.
\<close>

theorem spinlock_mutual_exclusion:
  assumes "reachable spin_init spin_step s" "\<not> misused s"
  shows "(sh_has (sp_hart s h) \<and> sh_has (sp_hart s k) \<longrightarrow> h = k)
    \<and> (locked (sp_lock s) \<longleftrightarrow> (\<exists>h. sh_has (sp_hart s h)))
    \<and> (sh_has (sp_hart s h) \<longrightarrow> \<not> sh_ie (sp_hart s h) \<and> sh_pc (sp_hart s h) \<noteq> Swap)
    \<and> sh_pc (sp_hart s h) \<noteq> Panicked
    \<and> (sh_pc (sp_hart s h) \<in> {Run, Acq_locked, Acq_cpu, Rel_locked, Rel_cpu} \<longrightarrow>
         (locked (sp_lock s) \<and> lk_cpu (sp_lock s) = Some h \<longleftrightarrow> sh_has (sp_hart s h)))"
proof -
  have ok: "spin_ok s" using spin.inv_reachable [OF assms(1)] assms(2) by simp
  then have h: "\<And>h. hart_ok h (sp_lock s) (sp_hart s h)" by (simp add: spin_ok_def)
  then have l: "\<And>k. sh_has (sp_hart s k) \<Longrightarrow> locked (sp_lock s)" by (simp add: hart_defs)
  have "sh_has (sp_hart s h) \<Longrightarrow> \<not> sh_ie (sp_hart s h) \<and> sh_pc (sp_hart s h) \<noteq> Swap" using has_off [OF h] by blast
  moreover have "sh_pc (sp_hart s h) \<in> {Run, Acq_locked, Acq_cpu, Rel_locked, Rel_cpu} \<Longrightarrow>
       locked (sp_lock s) \<and> lk_cpu (sp_lock s) = Some h \<longleftrightarrow> sh_has (sp_hart s h)"
    using h [of h] by (auto simp: hart_defs)
  moreover have "sh_pc (sp_hart s h) \<noteq> Panicked" using h [of h] by (simp add: hart_defs)
  ultimately show ?thesis using ok l unfolding spin_ok_def by blast
qed

text \<open>A run in which hart 0 takes the lock and hart 1, after an interrupt in its \<open>push_off\<close>, spins for it.\<close>

definition spin_demo :: "spinlock \<Rightarrow> spin_hart \<Rightarrow> spin_hart \<Rightarrow> spin_state" where
  "spin_demo l x y = \<lparr>sp_lock = l, sp_hart = (\<lambda>_. fresh_hart True)(0 := x, 1 := y)\<rparr>"

abbreviation demo_reached :: "spinlock \<Rightarrow> spin_hart \<Rightarrow> spin_hart \<Rightarrow> bool" where
  "demo_reached l x y \<equiv> reachable spin_init spin_step (spin_demo l x y)"

lemma demo_step0: "demo_reached l x y \<Longrightarrow> hart_step 0 l x l' x' \<Longrightarrow> demo_reached l' x' y"
  using reach_step [of spin_init spin_step "spin_demo l x y", OF _ some_hart [of 0 "spin_demo l x y" l' x']] by (simp add: spin_demo_def fun_upd_twist)

lemma demo_step1: "demo_reached l x y \<Longrightarrow> hart_step 1 l y l' y' \<Longrightarrow> demo_reached l' x y'"
  using reach_step [of spin_init spin_step "spin_demo l x y", OF _ some_hart [of 1 "spin_demo l x y" l' y']] by (simp add: spin_demo_def)

lemma reach_taken:
  "demo_reached \<lparr>locked = True, lk_name = ''lock'', lk_cpu = Some 0\<rparr>
     ((fresh_hart True)\<lparr>sh_ie := False, sh_noff := 1, sh_intena := True, sh_has := True\<rparr>) (fresh_hart True)"
proof -
  have "demo_reached \<lparr>locked = False, lk_name = ''lock'', lk_cpu = None\<rparr> (fresh_hart True) (fresh_hart True)"
    by (rule reach_init) (auto simp: spin_init_def spin_demo_def)
  note demo_step0 [OF this call_acquire, simplified fresh_hart_def, simplified]
  note demo_step0 [OF this off_read, simplified]
  note demo_step0 [OF this off_clear, simplified]
  note demo_step0 [OF this off_save, simplified]
  note demo_step0 [OF this off_count_acquire, simplified]
  note demo_step0 [OF this acq_locked, simplified]
  note demo_step0 [OF this swap_free, simplified]
  note demo_step0 [OF this set_cpu, simplified]
  then show ?thesis by (simp add: fresh_hart_def)
qed

lemma reach_contended:
  "demo_reached \<lparr>locked = True, lk_name = ''lock'', lk_cpu = Some 0\<rparr>
     ((fresh_hart True)\<lparr>sh_ie := False, sh_noff := 1, sh_intena := True, sh_has := True\<rparr>)
     ((fresh_hart True)\<lparr>sh_pc := Swap, sh_ie := False, sh_noff := 1, sh_intena := True\<rparr>)"
proof -
  note demo_step1 [OF reach_taken call_acquire, simplified fresh_hart_def, simplified]
  note demo_step1 [OF this interrupt, simplified]
  note demo_step1 [OF this interrupt_return, simplified]
  note demo_step1 [OF this off_read, simplified]
  note demo_step1 [OF this off_clear, simplified]
  note demo_step1 [OF this off_save, simplified]
  note demo_step1 [OF this off_count_acquire, simplified]
  note demo_step1 [OF this acq_locked, simplified]
  note demo_step1 [OF this acq_cpu, simplified]
  then show ?thesis by (simp add: fresh_hart_def)
qed

theorem spinlock_mutual_exclusion_witness:
  "\<exists>s. reachable spin_init spin_step s \<and> \<not> misused s \<and> sh_has (sp_hart s 0) \<and> \<not> sh_ie (sp_hart s 0)
     \<and> sh_pc (sp_hart s 1) = Swap \<and> \<not> sh_has (sp_hart s 1)"
proof -
  let ?s = "spin_demo \<lparr>locked = True, lk_name = ''lock'', lk_cpu = Some 0\<rparr>
     ((fresh_hart True)\<lparr>sh_ie := False, sh_noff := 1, sh_intena := True, sh_has := True\<rparr>)
     ((fresh_hart True)\<lparr>sh_pc := Swap, sh_ie := False, sh_noff := 1, sh_intena := True\<rparr>)"
  have m: "\<not> misused ?s" "sh_has (sp_hart ?s 0)" "sh_pc (sp_hart ?s 1) = Swap"
    by (simp_all add: misused_def spin_demo_def fresh_hart_def)
  note e = spinlock_mutual_exclusion [OF reach_contended m(1), of 0 1]
  have "\<not> sh_ie (sp_hart ?s 0)" using e [THEN conjunct2, THEN conjunct2, THEN conjunct1] m(2) by blast
  moreover have "\<not> sh_has (sp_hart ?s 1)" using e [THEN conjunct1] m(2) by (metis zero_neq_one)
  ultimately show ?thesis using reach_contended m by (intro exI [of _ ?s]) (simp only: simp_thms)
qed

end
