(* ===== verification/Sched.thy ===== *)
theory Sched
  imports Spinlock
begin

text \<open>
  The scheduling half of \<open>kernel/proc.c\<close>: the current process, \<open>sched\<close>, \<open>yield\<close>, \<open>sleep\<close>,
  \<open>wakeup\<close>, \<open>kill\<close> and one round of \<open>scheduler\<close>. The assembly routine \<open>swtch\<close> is where a thread
  stops running: what happens until it runs again is the next entry of \<open>others\<close>.
\<close>

section \<open>The current process\<close>

definition myproc :: "nat option kernel" where
  "myproc =
     andthen push_off
     (bind mycpu (\<lambda>c.
      andthen pop_off (ret (c_proc c))))"

definition curproc :: "nat kernel" where
  \<comment> \<open>\<open>myproc()\<close> where the code goes on to dereference it\<close>
  "curproc = bind myproc deref"

definition allocpid :: "int kernel" where
  "allocpid =
     andthen (acquire Pid_lock)
     (bind (gets nextpid) (\<lambda>pid.
      andthen (modify (\<lambda>w. w\<lparr>nextpid := nextpid w + 1\<rparr>))
      (andthen (release Pid_lock)
      (ret pid))))"

definition procinit :: "unit kernel" where
  "procinit =
     andthen (initlock Pid_lock ''nextpid'')
     (andthen (initlock Wait_lock ''wait_lock'')
     (for_each [0..<NPROC] (\<lambda>p.
        andthen (initlock (Proc_lock p) ''proc'')
        (andthen (modify (upd_proc p (\<lambda>q. q\<lparr>p_state := UNUSED\<rparr>)))
        (modify (upd_proc p (\<lambda>q. q\<lparr>p_kstack := KSTACK p\<rparr>)))))))"

section \<open>Giving up the CPU\<close>

definition swtch :: "unit kernel" where
  "swtch = bind (gets others) (\<lambda>fs.
     case fs of [] \<Rightarrow> stop Switched | f # rest \<Rightarrow> modify (\<lambda>w. resume f (w\<lparr>others := rest\<rparr>)))"

definition sched :: "unit kernel" where
  "sched =
     bind curproc (\<lambda>p.
     bind (holding (Proc_lock p)) (\<lambda>h.
     if \<not> h then panic ''sched p->lock'' else
     bind mycpu (\<lambda>c.
     if noff c \<noteq> 1 then panic ''sched locks'' else
     bind (gets (\<lambda>w. p_state (procs w ! p))) (\<lambda>st.
     if st = RUNNING then panic ''sched running'' else
     bind intr_get (\<lambda>on.
     if on then panic ''sched interruptible'' else
     bind mycpu (\<lambda>c.
     andthen swtch
     (modify (upd_cpu (\<lambda>d. d\<lparr>intena := intena c\<rparr>)))))))))"

definition yield :: "unit kernel" where
  "yield =
     bind curproc (\<lambda>p.
     andthen (acquire (Proc_lock p))
     (andthen (modify (upd_proc p (\<lambda>q. q\<lparr>p_state := RUNNABLE\<rparr>)))
     (andthen sched
     (release (Proc_lock p)))))"

definition sleep :: "chan \<Rightarrow> lockid \<Rightarrow> unit kernel" where
  "sleep ch lk =
     bind curproc (\<lambda>p.
     andthen (acquire (Proc_lock p))
     (andthen (release lk)
     (andthen (modify (upd_proc p (\<lambda>q. q\<lparr>p_chan := Some ch\<rparr>)))
     (andthen (modify (upd_proc p (\<lambda>q. q\<lparr>p_state := SLEEPING\<rparr>)))
     (andthen sched
     (andthen (modify (upd_proc p (\<lambda>q. q\<lparr>p_chan := None\<rparr>)))
     (andthen (release (Proc_lock p))
     (acquire lk))))))))"

definition wakeup :: "chan \<Rightarrow> unit kernel" where
  "wakeup ch =
     for_each [0..<NPROC] (\<lambda>p.
       bind myproc (\<lambda>me.
       if me = Some p then skip else
       andthen (acquire (Proc_lock p))
       (bind (gets (\<lambda>w. procs w ! p)) (\<lambda>q.
       andthen (if p_state q = SLEEPING \<and> p_chan q = Some ch
                then modify (upd_proc p (\<lambda>q. q\<lparr>p_state := RUNNABLE\<rparr>)) else skip)
       (release (Proc_lock p))))))"

definition kill :: "int \<Rightarrow> int kernel" where
  "kill pid =
     bind (for_find [0..<NPROC] (\<lambda>p.
       andthen (acquire (Proc_lock p))
       (bind (gets (\<lambda>w. procs w ! p)) (\<lambda>q.
       if p_pid q = pid then
         andthen (modify (upd_proc p (\<lambda>q. q\<lparr>p_killed := 1\<rparr>)))
         (bind (gets (\<lambda>w. procs w ! p)) (\<lambda>q.
         andthen (if p_state q = SLEEPING
                  then modify (upd_proc p (\<lambda>q. q\<lparr>p_state := RUNNABLE\<rparr>)) else skip)
         (andthen (release (Proc_lock p))
         (ret (Some 0)))))
       else andthen (release (Proc_lock p)) (ret None)))))
     (\<lambda>r. case r of Some v \<Rightarrow> ret v | None \<Rightarrow> ret (- 1))"

definition setkilled :: "nat \<Rightarrow> unit kernel" where
  "setkilled p =
     andthen (acquire (Proc_lock p))
     (andthen (modify (upd_proc p (\<lambda>q. q\<lparr>p_killed := 1\<rparr>)))
     (release (Proc_lock p)))"

definition killed :: "nat \<Rightarrow> bool kernel" where
  "killed p =
     andthen (acquire (Proc_lock p))
     (bind (gets (\<lambda>w. p_killed (procs w ! p))) (\<lambda>k.
     andthen (release (Proc_lock p))
     (ret (k \<noteq> 0))))"

text \<open>
  One turn of the scheduler's endless loop on this hart: \<open>swtch\<close> runs the chosen process until it
  calls \<open>sched\<close>. The loop over the table returns \<open>found\<close>; with nothing to run the hart enables
  interrupts and waits for one (\<open>wfi\<close>, which changes nothing).
\<close>

primrec scheduler_scan :: "nat list \<Rightarrow> bool \<Rightarrow> bool kernel" where
  "scheduler_scan [] found = ret found"
| "scheduler_scan (p # ps) found =
     andthen (acquire (Proc_lock p))
     (bind (gets (\<lambda>w. p_state (procs w ! p))) (\<lambda>st.
      bind (if st = RUNNABLE
        then andthen (modify (upd_proc p (\<lambda>q. q\<lparr>p_state := RUNNING\<rparr>)))
             (andthen (modify (upd_cpu (\<lambda>c. c\<lparr>c_proc := Some p\<rparr>)))
             (andthen swtch
             (andthen (modify (upd_cpu (\<lambda>c. c\<lparr>c_proc := None\<rparr>)))
             (ret True))))
        else ret found) (\<lambda>found.
      andthen (release (Proc_lock p))
      (scheduler_scan ps found))))"

definition scheduler_round :: "unit kernel" where
  "scheduler_round =
     andthen intr_on
     (bind (scheduler_scan [0..<NPROC] False) (\<lambda>found.
      if found then skip else intr_on))"

primrec scheduler :: "nat \<Rightarrow> unit kernel" where
  \<comment> \<open>the first \<open>n\<close> turns of the loop\<close>
  "scheduler 0 = modify (upd_cpu (\<lambda>c. c\<lparr>c_proc := None\<rparr>))"
| "scheduler (Suc n) = andthen (scheduler n) scheduler_round"

section \<open>What they do from an orderly state\<close>

definition running :: "nat \<Rightarrow> world \<Rightarrow> bool" where
  "running p w \<longleftrightarrow> c_proc (this_cpu w) = Some p"

lemma myproc_run [run_simps]:
  assumes "calm w"
  shows "myproc w = Ok (c_proc (this_cpu w)) w"
  using assms
  by (cases "noff (this_cpu w) = 0")
    (simp_all add: myproc_def run_simps push_off_run calm_def pop_off_def upd_defs sie_def lock_orders
      intr_on_run SIE_cleared SIE_restored SIE_already_clear)

lemma curproc_run [run_simps]:
  "calm w \<Longrightarrow> running p w \<Longrightarrow> curproc w = Ok p w"
  by (simp add: curproc_def run_simps running_def)

lemma running_hold [simp]: "running p (hold lk w) \<longleftrightarrow> running p w"
  by (cases "hart w < length (cpus w)") (simp_all add: running_def hold_def not_less list_update_beyond)

lemma running_upd [simp]:
  "running p (csrs_update g0 w) = running p w"
  "running p (locks_update g1 w) = running p w"
  "running p (slocks_update g2 w) = running p w"
  "running p (kend_update g3 w) = running p w"
  "running p (etext_update g4 w) = running p w"
  "running p (trampoline_update g5 w) = running p w"
  "running p (mem_update g6 w) = running p w"
  "running p (freelist_update g7 w) = running p w"
  "running p (kernel_pagetable_update g8 w) = running p w"
  "running p (procs_update g9 w) = running p w"
  "running p (initproc_update g10 w) = running p w"
  "running p (nextpid_update g11 w) = running p w"
  "running p (trapframes_update g12 w) = running p w"
  "running p (ticks_update g13 w) = running p w"
  "running p (bufs_update g14 w) = running p w"
  "running p (ddisk_update g15 w) = running p w"
  "running p (dwrites_update g16 w) = running p w"
  "running p (klog_update g17 w) = running p w"
  "running p (sb_update g18 w) = running p w"
  "running p (itable_update g19 w) = running p w"
  "running p (ftable_update g20 w) = running p w"
  "running p (pipes_update g21 w) = running p w"
  "running p (cons_update g22 w) = running p w"
  "running p (kout_update g23 w) = running p w"
  "running p (uart_update g24 w) = running p w"
  "running p (devsw_update g25 w) = running p w"
  "running p (dev_in_update g26 w) = running p w"
  "running p (dev_out_update g27 w) = running p w"
  "running p (panicked_update g28 w) = running p w"
  "running p (pr_locking_update g29 w) = running p w"
  "running p (first_update g30 w) = running p w"
  "running p (started_update g31 w) = running p w"
  "running p (syms_update g32 w) = running p w"
  "running p (vdisk_update g33 w) = running p w"
  "running p (others_update g34 w) = running p w"
  by (simp_all add: running_def)

lemma c_proc_hold [simp]: "c_proc (cpus (hold lk w) ! i) = c_proc (cpus w ! i)"
  by (cases "hart w < length (cpus w)"; cases "i = hart w")
    (simp_all add: hold_def not_less list_update_beyond)

text \<open>The process table after \<open>wakeup(ch)\<close> called by process \<open>me\<close>.\<close>

definition wake :: "chan \<Rightarrow> nat option \<Rightarrow> proc list \<Rightarrow> proc list" where
  "wake ch me ps = map (\<lambda>i.
     if me \<noteq> Some i \<and> p_state (ps ! i) = SLEEPING \<and> p_chan (ps ! i) = Some ch
     then (ps ! i)\<lparr>p_state := RUNNABLE\<rparr> else ps ! i) [0..<length ps]"

definition procs_free :: "world \<Rightarrow> bool" where
  \<comment> \<open>a full process table, all of whose locks are free\<close>
  "procs_free w \<longleftrightarrow> length (procs w) = NPROC \<and> (\<forall>p<NPROC. free_lock (Proc_lock p) w)"

lemma procs_free_upd [simp]:
  "procs_free (hart_update g0 w) = procs_free w"
  "procs_free (csrs_update g1 w) = procs_free w"
  "procs_free (cpus_update g2 w) = procs_free w"
  "procs_free (slocks_update g3 w) = procs_free w"
  "procs_free (kend_update g4 w) = procs_free w"
  "procs_free (etext_update g5 w) = procs_free w"
  "procs_free (trampoline_update g6 w) = procs_free w"
  "procs_free (mem_update g7 w) = procs_free w"
  "procs_free (freelist_update g8 w) = procs_free w"
  "procs_free (kernel_pagetable_update g9 w) = procs_free w"
  "procs_free (initproc_update g10 w) = procs_free w"
  "procs_free (nextpid_update g11 w) = procs_free w"
  "procs_free (trapframes_update g12 w) = procs_free w"
  "procs_free (ticks_update g13 w) = procs_free w"
  "procs_free (bufs_update g14 w) = procs_free w"
  "procs_free (ddisk_update g15 w) = procs_free w"
  "procs_free (dwrites_update g16 w) = procs_free w"
  "procs_free (klog_update g17 w) = procs_free w"
  "procs_free (sb_update g18 w) = procs_free w"
  "procs_free (itable_update g19 w) = procs_free w"
  "procs_free (ftable_update g20 w) = procs_free w"
  "procs_free (pipes_update g21 w) = procs_free w"
  "procs_free (cons_update g22 w) = procs_free w"
  "procs_free (kout_update g23 w) = procs_free w"
  "procs_free (uart_update g24 w) = procs_free w"
  "procs_free (devsw_update g25 w) = procs_free w"
  "procs_free (dev_in_update g26 w) = procs_free w"
  "procs_free (dev_out_update g27 w) = procs_free w"
  "procs_free (panicked_update g28 w) = procs_free w"
  "procs_free (pr_locking_update g29 w) = procs_free w"
  "procs_free (first_update g30 w) = procs_free w"
  "procs_free (started_update g31 w) = procs_free w"
  "procs_free (syms_update g32 w) = procs_free w"
  "procs_free (vdisk_update g33 w) = procs_free w"
  "procs_free (others_update g34 w) = procs_free w"
  by (simp_all add: procs_free_def free_lock_def)

lemma fold_procs:
  "fold (\<lambda>i w. procs_update (\<lambda>_. (procs w)[i := h i (procs w ! i)]) w) is (w :: world) =
   w\<lparr>procs := fold (\<lambda>i xs. xs[i := h i (xs ! i)]) is (procs w)\<rparr>"
  by (induction "is" arbitrary: w) simp_all

lemma wakeup_run [run_simps]:
  assumes "calm w" and "length (procs w) = NPROC"
    and free: "\<And>p. p < NPROC \<Longrightarrow> c_proc (this_cpu w) \<noteq> Some p \<Longrightarrow> free_lock (Proc_lock p) w"
  shows "wakeup ch w = Ok () (w\<lparr>procs := wake ch (c_proc (this_cpu w)) (procs w)\<rparr>)"
proof -
  define me where "me = c_proc (this_cpu w)"
  define h where "h i q = (if me \<noteq> Some i \<and> p_state q = SLEEPING \<and> p_chan q = Some ch
     then q\<lparr>p_state := RUNNABLE\<rparr> else q)" for i and q :: proc
  let ?I = "\<lambda>s. calm s \<and> c_proc (this_cpu s) = me \<and> length (procs s) = NPROC
     \<and> (\<forall>p<NPROC. me \<noteq> Some p \<longrightarrow> free_lock (Proc_lock p) s)"
  have "wakeup ch w =
     Ok () (fold (\<lambda>i w. procs_update (\<lambda>_. (procs w)[i := h i (procs w ! i)]) w) [0..<NPROC] w)"
    unfolding wakeup_def
    by (rule for_each_fold [where I = ?I])
      (use assms in \<open>auto simp: run_simps me_def [symmetric] h_def upd_defs\<close>)
  also have "fold (\<lambda>i xs. xs[i := h i (xs ! i)]) [0..<NPROC] (procs w) = wake ch me (procs w)"
    using assms(2) fold_update_upt_map [of h "procs w"] by (simp add: wake_def h_def)
  ultimately show ?thesis by (simp add: fold_procs me_def)
qed

lemma wake_nth:
  "i < length ps \<Longrightarrow> wake ch me ps ! i =
     (if me \<noteq> Some i \<and> p_state (ps ! i) = SLEEPING \<and> p_chan (ps ! i) = Some ch
      then (ps ! i)\<lparr>p_state := RUNNABLE\<rparr> else ps ! i)"
  by (simp add: wake_def)

lemma length_wake [simp]: "length (wake ch me ps) = length ps"
  by (simp add: wake_def)

definition kill_proc :: "proc \<Rightarrow> proc" where
  "kill_proc q = q\<lparr>p_killed := 1, p_state := if p_state q = SLEEPING then RUNNABLE else p_state q\<rparr>"

lemma kill_run:
  assumes "calm w" and "procs_free w"
  shows "kill pid w = (case List.find (\<lambda>p. p_pid (procs w ! p) = pid) [0..<NPROC] of
     None \<Rightarrow> Ok (- 1) w | Some p \<Rightarrow> Ok 0 (upd_proc p kill_proc w))"
proof -
  have "\<And>p. p < NPROC \<Longrightarrow> p < length (procs w) \<and> free_lock (Proc_lock p) w"
    using assms(2) by (simp add: procs_free_def)
  then show ?thesis
    unfolding kill_def using assms(1)
    by (subst bind_def, subst for_find_scan [where v = "\<lambda>_. 0"
          and P = "\<lambda>p. p_pid (procs w ! p) = pid" and g = "\<lambda>p. upd_proc p kill_proc w"])
      (auto simp: run_simps upd_defs kill_proc_def split: option.splits)
qed

section \<open>Switching away and coming back\<close>

text \<open>
  \<open>intena\<close> belongs to the thread, not to the hart: \<open>sched\<close> saves it across \<open>swtch\<close>.
  \<open>set_intr b w\<close> is \<open>w\<close> with its hart's interrupts on or off and \<open>intena\<close> saying so.
\<close>

definition set_intr :: "bool \<Rightarrow> world \<Rightarrow> world" where
  "set_intr b w = w\<lparr>
     csrs := (csrs w)(Sstatus := if b then csrs w Sstatus OR SSTATUS_SIE
                                 else csrs w Sstatus AND NOT SSTATUS_SIE),
     cpus := (cpus w)[hart w := (this_cpu w)\<lparr>intena := b\<rparr>]\<rparr>"

definition handed_back :: "nat \<Rightarrow> world \<Rightarrow> world \<Rightarrow> bool" where
  \<comment> \<open>the scheduler of some hart switched to \<open>p\<close> holding only \<open>p->lock\<close>; \<open>w\<close> is the rest\<close>
  "handed_back p w1 w \<longleftrightarrow> w1 = hold (Proc_lock p) w \<and> calm w \<and> noff (this_cpu w) = 0
     \<and> free_lock (Proc_lock p) w \<and> running p w \<and> p < length (procs w)"

lemma SIE_or_and: "((x :: 64 word) OR SSTATUS_SIE) AND NOT SSTATUS_SIE = x AND NOT SSTATUS_SIE"
  by (rule bit_word_eqI) (auto simp: bit_simps)

lemma SIE_nonzero: "SSTATUS_SIE \<noteq> 0"
  by (simp add: layout)

lemma set_intr_hold:
  assumes "calm w" and "noff (this_cpu w) = 0"
  shows "upd_cpu (\<lambda>c. c\<lparr>intena := b\<rparr>) (hold lk w) = hold lk (set_intr b w)"
  using assms
  by (auto simp: calm_def hold_def set_intr_def upd_defs sie_def SIE_or_and SIE_nonzero SIE_cleared
      lock_orders)

lemma sie_set_intr [simp]: "sie (set_intr b w) = b"
  by (simp add: sie_def set_intr_def SIE_nonzero SIE_cleared)

lemma set_intr_simps [simp]:
  "hart (set_intr b w) = hart w"
  "locks (set_intr b w) = locks w"
  "slocks (set_intr b w) = slocks w"
  "kend (set_intr b w) = kend w"
  "etext (set_intr b w) = etext w"
  "trampoline (set_intr b w) = trampoline w"
  "mem (set_intr b w) = mem w"
  "freelist (set_intr b w) = freelist w"
  "kernel_pagetable (set_intr b w) = kernel_pagetable w"
  "procs (set_intr b w) = procs w"
  "initproc (set_intr b w) = initproc w"
  "nextpid (set_intr b w) = nextpid w"
  "trapframes (set_intr b w) = trapframes w"
  "ticks (set_intr b w) = ticks w"
  "bufs (set_intr b w) = bufs w"
  "ddisk (set_intr b w) = ddisk w"
  "dwrites (set_intr b w) = dwrites w"
  "klog (set_intr b w) = klog w"
  "sb (set_intr b w) = sb w"
  "itable (set_intr b w) = itable w"
  "ftable (set_intr b w) = ftable w"
  "pipes (set_intr b w) = pipes w"
  "cons (set_intr b w) = cons w"
  "kout (set_intr b w) = kout w"
  "uart (set_intr b w) = uart w"
  "devsw (set_intr b w) = devsw w"
  "dev_in (set_intr b w) = dev_in w"
  "dev_out (set_intr b w) = dev_out w"
  "panicked (set_intr b w) = panicked w"
  "pr_locking (set_intr b w) = pr_locking w"
  "first (set_intr b w) = first w"
  "started (set_intr b w) = started w"
  "syms (set_intr b w) = syms w"
  "vdisk (set_intr b w) = vdisk w"
  "others (set_intr b w) = others w"
  "free_lock lk (set_intr b w) = free_lock lk w"
  by (simp_all add: set_intr_def)

lemma calm_set_intr [simp]:
  "calm w \<Longrightarrow> noff (this_cpu w) = 0 \<Longrightarrow> calm (set_intr b w)"
  "hart w < length (cpus w) \<Longrightarrow> running p (set_intr b w) = running p w"
  using sie_set_intr [of b w] by (auto simp: calm_def set_intr_def running_def)

lemma sched_run:
  assumes "calm w" "noff (this_cpu w) = 0" "running p w" "free_lock (Proc_lock p) w"
    and "p_state (procs w ! p) \<noteq> RUNNING"
  shows "sched (hold (Proc_lock p) w) = (case others w of [] \<Rightarrow> Stop Switched (hold (Proc_lock p) w)
     | f # fs \<Rightarrow> Ok () (upd_cpu (\<lambda>c. c\<lparr>intena := sie w\<rparr>)
                   (resume f (hold (Proc_lock p) (w\<lparr>others := fs\<rparr>)))))"
proof -
  have "noff (cpus (hold (Proc_lock p) w) ! hart w) = 1"
    and "intena (cpus (hold (Proc_lock p) w) ! hart w) = sie w"
    using assms(1,2) by (simp_all add: hold_def calm_def)
  with assms show ?thesis
    by (simp add: sched_def swtch_def run_simps split: list.split)
qed

lemma yield_run:
  assumes "calm w" "noff (this_cpu w) = 0" "running p w" "free_lock (Proc_lock p) w"
    and "p < length (procs w)"
  shows "yield w = (let w1 = upd_proc p (\<lambda>q. q\<lparr>p_state := RUNNABLE\<rparr>) w in
     case others w of [] \<Rightarrow> Stop Switched (hold (Proc_lock p) w1)
     | f # fs \<Rightarrow> release (Proc_lock p) (upd_cpu (\<lambda>c. c\<lparr>intena := sie w\<rparr>)
                   (resume f (hold (Proc_lock p) (w1\<lparr>others := fs\<rparr>)))))"
proof -
  let ?w1 = "upd_proc p (\<lambda>q. q\<lparr>p_state := RUNNABLE\<rparr>) w"
  have "sie ?w1 = sie w" by (simp add: upd_defs sie_def)
  moreover have "sched (hold (Proc_lock p) ?w1) =
     (case others w of [] \<Rightarrow> Stop Switched (hold (Proc_lock p) ?w1)
     | f # fs \<Rightarrow> Ok () (upd_cpu (\<lambda>c. c\<lparr>intena := sie ?w1\<rparr>)
                   (resume f (hold (Proc_lock p) (?w1\<lparr>others := fs\<rparr>)))))"
    using assms by (subst sched_run) (simp_all add: upd_defs)
  moreover have "upd_proc p (\<lambda>q. q\<lparr>p_state := RUNNABLE\<rparr>) (hold (Proc_lock p) w) = hold (Proc_lock p) ?w1"
    by (simp add: upd_defs)
  ultimately show ?thesis using assms
    by (simp add: yield_def run_simps Let_def split: list.split)
qed

lemma sleep_run:
  assumes "calm w" "noff (this_cpu w) = 0" "running p w" "free_lock (Proc_lock p) w" "free_lock lk w"
    and "p < length (procs w)" "lk \<noteq> Proc_lock p"
  shows "sleep ch lk (hold lk w) =
    (let w1 = upd_proc p (\<lambda>q. q\<lparr>p_chan := Some ch, p_state := SLEEPING\<rparr>) w in
     case others w of [] \<Rightarrow> Stop Switched (hold (Proc_lock p) w1)
     | f # fs \<Rightarrow> andthen (modify (upd_proc p (\<lambda>q. q\<lparr>p_chan := None\<rparr>)))
         (andthen (release (Proc_lock p)) (acquire lk))
         (upd_cpu (\<lambda>c. c\<lparr>intena := sie w\<rparr>) (resume f (hold (Proc_lock p) (w1\<lparr>others := fs\<rparr>)))))"
proof -
  let ?w1 = "upd_proc p (\<lambda>q. q\<lparr>p_chan := Some ch, p_state := SLEEPING\<rparr>) w"
  have "sie ?w1 = sie w" by (simp add: upd_defs sie_def)
  moreover have "sched (hold (Proc_lock p) ?w1) =
     (case others w of [] \<Rightarrow> Stop Switched (hold (Proc_lock p) ?w1)
     | f # fs \<Rightarrow> Ok () (upd_cpu (\<lambda>c. c\<lparr>intena := sie ?w1\<rparr>)
                   (resume f (hold (Proc_lock p) (?w1\<lparr>others := fs\<rparr>)))))"
    using assms by (subst sched_run) (simp_all add: upd_defs)
  moreover have "upd_proc p (\<lambda>q. q\<lparr>p_state := SLEEPING\<rparr>)
      (upd_proc p (\<lambda>q. q\<lparr>p_chan := Some ch\<rparr>) (hold (Proc_lock p) w)) = hold (Proc_lock p) ?w1"
    using assms(6) by (simp add: upd_defs)
  moreover have "release lk (hold (Proc_lock p) (hold lk w)) = Ok () (hold (Proc_lock p) w)"
    using assms by (simp add: hold_commute [of w "Proc_lock p" lk] run_simps)
  ultimately show ?thesis using assms
    by (simp add: sleep_def run_simps Let_def split: list.split)
qed

text \<open>
  C14. Sleeping: \<open>sleep(ch, lk)\<close> entered holding only \<open>lk\<close> gives up \<open>lk\<close> and leaves the process
  SLEEPING on \<open>ch\<close>, with its own lock still held for the scheduler to release. When a scheduler
  hands the process back, \<open>sleep\<close> returns holding \<open>lk\<close> again (as long as that is free), with the
  channel cleared and the interrupt setting the thread had when it went to sleep, on whatever hart
  it now runs.
\<close>

theorem sleep_gives_up_and_regains_lock:
  assumes "calm w" "noff (this_cpu w) = 0" "running p w" "free_lock (Proc_lock p) w" "free_lock lk w"
    and "p < length (procs w)" "lk \<noteq> Proc_lock p"
    and "asleep = hold (Proc_lock p)
       (upd_proc p (\<lambda>q. q\<lparr>p_chan := Some ch, p_state := SLEEPING\<rparr>) (w\<lparr>others := tl (others w)\<rparr>))"
    and "others w \<noteq> [] \<Longrightarrow> handed_back p (resume (hd (others w)) asleep) v \<and> free_lock lk v"
  shows "sleep ch lk (hold lk w) =
     (if others w = [] then Stop Switched asleep
      else Ok () (hold lk (upd_proc p (\<lambda>q. q\<lparr>p_chan := None\<rparr>) (set_intr (sie w) v))))"
proof (cases "others w")
  case Nil
  then have "w\<lparr>others := tl (others w)\<rparr> = w" by (cases w) simp
  then have "asleep = hold (Proc_lock p) (upd_proc p (\<lambda>q. q\<lparr>p_chan := Some ch, p_state := SLEEPING\<rparr>) w)"
    unfolding assms(8) by (simp only:)
  with Nil show ?thesis using sleep_run [OF assms(1-7), of ch] by (simp add: Let_def)
next
  case (Cons f fs)
  let ?w1 = "upd_proc p (\<lambda>q. q\<lparr>p_chan := Some ch, p_state := SLEEPING\<rparr>) w"
  have "asleep = hold (Proc_lock p) (?w1\<lparr>others := fs\<rparr>)"
    using Cons by (simp add: assms(8) upd_defs)
  then have "handed_back p (resume f (hold (Proc_lock p) (?w1\<lparr>others := fs\<rparr>))) v" "free_lock lk v"
    using assms(9) Cons by auto
  then have "upd_cpu (\<lambda>c. c\<lparr>intena := sie w\<rparr>) (resume f (hold (Proc_lock p) (?w1\<lparr>others := fs\<rparr>)))
      = hold (Proc_lock p) (set_intr (sie w) v)" and "calm v" "noff (this_cpu v) = 0"
    "free_lock (Proc_lock p) v" "free_lock lk v"
    by (simp_all add: handed_back_def set_intr_hold)
  then show ?thesis
    using sleep_run [OF assms(1-7), of ch] Cons assms(7)
    by (simp add: Let_def run_simps upd_proc_def)
qed

lemma resume_procs: "resume (\<lambda>k. k\<lparr>procs := F (procs k)\<rparr>) w = w\<lparr>procs := F (procs w)\<rparr>"
  by (cases w) (simp add: resume_def kstate.defs world.defs)

definition one_running :: "(kstate \<Rightarrow> kstate) list \<Rightarrow> world" where
  \<comment> \<open>process 0 running on hart 0, its pid 1\<close>
  "one_running fs = bss\<lparr>cpus := (cpus bss)[0 := zero_cpu\<lparr>c_proc := Some 0\<rparr>],
     procs := (procs bss)[0 := zero_proc\<lparr>p_state := RUNNING, p_pid := 1\<rparr>], nextpid := 2, others := fs\<rparr>"

lemma one_running_simps [simp]:
  "calm (one_running fs)" "running 0 (one_running fs)" "free_lock lk (one_running fs)"
  "noff (cpus (one_running fs) ! 0) = 0" "hart (one_running fs) = 0" "length (procs (one_running fs)) = NPROC"
  "others (one_running fs) = fs" "\<not> sie (one_running fs)"
  by (simp_all add: one_running_def calm_def running_def free_lock_def bss_def zero_cpu_def sie_def layout)

lemma procs_one_running:
  "i < NPROC \<Longrightarrow> procs (one_running fs) ! i =
     (if i = 0 then zero_proc\<lparr>p_state := RUNNING, p_pid := 1\<rparr> else zero_proc)"
  by (simp add: one_running_def bss_def layout)

theorem sleep_gives_up_and_regains_lock_witness:
  "\<exists>v. sleep Chan_ticks Tickslock (hold Tickslock
       (one_running [\<lambda>k. k\<lparr>procs := (procs k)[0 := (procs k ! 0)\<lparr>p_state := RUNNING\<rparr>]\<rparr>])) =
     Ok () (hold Tickslock v) \<and> p_state (procs v ! 0) = RUNNING \<and> p_chan (procs v ! 0) = None"
proof -
  let ?f = "\<lambda>k. k\<lparr>procs := (procs k)[0 := (procs k ! 0)\<lparr>p_state := RUNNING\<rparr>]\<rparr>" and ?w = "one_running []"
  let ?v = "?w\<lparr>procs := (procs ?w)[0 := (procs ?w ! 0)\<lparr>p_chan := Some Chan_ticks, p_state := RUNNING\<rparr>]\<rparr>"
  let ?asleep = "hold (Proc_lock 0)
     (upd_proc 0 (\<lambda>q. q\<lparr>p_chan := Some Chan_ticks, p_state := SLEEPING\<rparr>) ?w)"
  have o: "(one_running [?f])\<lparr>others := []\<rparr> = ?w" by (simp add: one_running_def)
  have "resume ?f ?asleep = hold (Proc_lock 0) ?v"
    using resume_procs [of "\<lambda>ps. ps[0 := (ps ! 0)\<lparr>p_state := RUNNING\<rparr>]" ?asleep]
    by (simp add: upd_defs layout)
  then have "handed_back 0 (resume ?f ?asleep) ?v" by (simp add: handed_back_def layout)
  then show ?thesis
    using sleep_gives_up_and_regains_lock [of "one_running [?f]" 0 Tickslock ?asleep Chan_ticks ?v]
    by (intro exI [of _ "upd_proc 0 (\<lambda>q. q\<lparr>p_chan := None\<rparr>) (set_intr False ?v)"])
      (simp add: o upd_defs layout)
qed

end
