(* ===== verification/Wakeup.thy ===== *)
theory Wakeup
  imports Sched
begin

text \<open>
  \<open>sleep\<close>, \<open>wakeup\<close> and \<open>kill\<close> of \<open>kernel/proc.c\<close> at the granularity of their accesses to shared data,
  with every process and the schedulers interleaved freely. Processes share one condition, protected
  by the lock passed to \<open>sleep\<close>. A process waits for it (\<open>while(!cond) sleep(chan, lk)\<close>, and may give up
  the loop, as the waiting loops of the kernel do when the process is killed); or it makes it true
  and calls \<open>wakeup(chan)\<close> without letting go of that lock. Most callers set the condition first;
  \<open>exit\<close> calls \<open>wakeup(p->parent)\<close> before it becomes a ZOMBIE, and both orders are steps here.
\<close>

datatype sw_pc =
    Outside
  | Test            \<comment> \<open>holds \<open>lk\<close>, looks at the condition\<close>
  | Leave           \<comment> \<open>about to release \<open>lk\<close>\<close>
  | Want_plock      \<comment> \<open>in \<open>sleep\<close>, before \<open>acquire(&p->lock)\<close>\<close>
  | Drop_lk         \<comment> \<open>before \<open>release(lk)\<close>\<close>
  | Set_chan        \<comment> \<open>before \<open>p->chan = chan\<close>\<close>
  | Set_sleeping    \<comment> \<open>before \<open>p->state = SLEEPING\<close>\<close>
  | Switch          \<comment> \<open>in \<open>sched\<close>, before \<open>swtch\<close>\<close>
  | Away            \<comment> \<open>switched out\<close>
  | Clear_chan      \<comment> \<open>back from \<open>sched\<close>, before \<open>p->chan = 0\<close>\<close>
  | Drop_plock      \<comment> \<open>before \<open>release(&p->lock)\<close>\<close>
  | Want_lk         \<comment> \<open>before the final \<open>acquire(lk)\<close>\<close>
  | Scan bool nat   \<comment> \<open>in \<open>wakeup\<close>, loop index; the first argument: the condition is set afterwards\<close>
  | Look bool nat   \<comment> \<open>holds that process's lock, before its state is tested\<close>
  | Unlook bool nat \<comment> \<open>before its lock is released\<close>
  | Set_late        \<comment> \<open>after \<open>wakeup\<close>, before the condition is set\<close>
  | Kill_look nat   \<comment> \<open>in \<open>kill\<close>, holds that process's lock\<close>
  | Kill_unlook nat \<comment> \<open>before its lock is released\<close>

datatype owner = Thread nat | Scheduler

record sw_state =
  sw_cond :: bool
  sw_lk :: "nat option"
  sw_plock :: "nat \<Rightarrow> owner option"
  sw_pstate :: "nat \<Rightarrow> procstate"
  sw_chan :: "nat \<Rightarrow> bool"
  sw_pc :: "nat \<Rightarrow> sw_pc"

abbreviation goto :: "nat \<Rightarrow> sw_pc \<Rightarrow> sw_state \<Rightarrow> sw_state" where
  "goto p l s \<equiv> s\<lparr>sw_pc := (sw_pc s)(p := l)\<rparr>"

abbreviation set_plock :: "nat \<Rightarrow> owner option \<Rightarrow> sw_state \<Rightarrow> sw_state" where
  "set_plock p x s \<equiv> s\<lparr>sw_plock := (sw_plock s)(p := x)\<rparr>"

abbreviation set_pstate :: "nat \<Rightarrow> procstate \<Rightarrow> sw_state \<Rightarrow> sw_state" where
  "set_pstate p x s \<equiv> s\<lparr>sw_pstate := (sw_pstate s)(p := x)\<rparr>"

inductive sw_step :: "sw_state \<Rightarrow> sw_state \<Rightarrow> bool" where
  enter: "p < NPROC \<Longrightarrow> sw_pc s p = Outside \<Longrightarrow> sw_lk s = None \<Longrightarrow>
    sw_step s (goto p Test (s\<lparr>sw_lk := Some p\<rparr>))"
| produce: "sw_pc s p = Test \<Longrightarrow> sw_step s (goto p (Scan False 0) (s\<lparr>sw_cond := True\<rparr>))"
| announce: "sw_pc s p = Test \<Longrightarrow> sw_step s (goto p (Scan True 0) s)"
| set_late: "sw_pc s p = Set_late \<Longrightarrow> sw_step s (goto p Leave (s\<lparr>sw_cond := True\<rparr>))"
| consume: "sw_pc s p = Test \<Longrightarrow> sw_cond s \<Longrightarrow> sw_step s (goto p Leave (s\<lparr>sw_cond := False\<rparr>))"
| give_up: "sw_pc s p = Test \<Longrightarrow> sw_step s (goto p Leave s)"
| wait: "sw_pc s p = Test \<Longrightarrow> \<not> sw_cond s \<Longrightarrow> sw_step s (goto p Want_plock s)"
| leave: "sw_pc s p = Leave \<Longrightarrow> sw_step s (goto p Outside (s\<lparr>sw_lk := None\<rparr>))"
| sleep_lock: "sw_pc s p = Want_plock \<Longrightarrow> sw_plock s p = None \<Longrightarrow>
    sw_step s (goto p Drop_lk (set_plock p (Some (Thread p)) s))"
| sleep_drop: "sw_pc s p = Drop_lk \<Longrightarrow> sw_step s (goto p Set_chan (s\<lparr>sw_lk := None\<rparr>))"
| sleep_chan: "sw_pc s p = Set_chan \<Longrightarrow>
    sw_step s (goto p Set_sleeping (s\<lparr>sw_chan := (sw_chan s)(p := True)\<rparr>))"
| sleep_state: "sw_pc s p = Set_sleeping \<Longrightarrow> sw_step s (goto p Switch (set_pstate p SLEEPING s))"
| sleep_switch: "sw_pc s p = Switch \<Longrightarrow> sw_step s (goto p Away (set_plock p (Some Scheduler) s))"
| sched_release: "sw_pc s p = Away \<Longrightarrow> sw_plock s p = Some Scheduler \<Longrightarrow> sw_step s (set_plock p None s)"
| sched_acquire: "sw_pc s p = Away \<Longrightarrow> sw_plock s p = None \<Longrightarrow> sw_step s (set_plock p (Some Scheduler) s)"
| sched_run: "sw_pc s p = Away \<Longrightarrow> sw_plock s p = Some Scheduler \<Longrightarrow> sw_pstate s p = RUNNABLE \<Longrightarrow>
    sw_step s (goto p Clear_chan (set_plock p (Some (Thread p)) (set_pstate p RUNNING s)))"
| sleep_clear: "sw_pc s p = Clear_chan \<Longrightarrow>
    sw_step s (goto p Drop_plock (s\<lparr>sw_chan := (sw_chan s)(p := False)\<rparr>))"
| sleep_unlock: "sw_pc s p = Drop_plock \<Longrightarrow> sw_step s (goto p Want_lk (set_plock p None s))"
| sleep_relock: "sw_pc s p = Want_lk \<Longrightarrow> sw_lk s = None \<Longrightarrow>
    sw_step s (goto p Test (s\<lparr>sw_lk := Some p\<rparr>))"
| scan_end: "sw_pc s p = Scan late NPROC \<Longrightarrow> sw_step s (goto p (if late then Set_late else Leave) s)"
| scan_self: "sw_pc s p = Scan late p \<Longrightarrow> sw_step s (goto p (Scan late (Suc p)) s)"
| scan_lock: "sw_pc s p = Scan late i \<Longrightarrow> i < NPROC \<Longrightarrow> i \<noteq> p \<Longrightarrow> sw_plock s i = None \<Longrightarrow>
    sw_step s (goto p (Look late i) (set_plock i (Some (Thread p)) s))"
| scan_wake: "sw_pc s p = Look late i \<Longrightarrow> sw_pstate s i = SLEEPING \<Longrightarrow> sw_chan s i \<Longrightarrow>
    sw_step s (goto p (Unlook late i) (set_pstate i RUNNABLE s))"
| scan_pass: "sw_pc s p = Look late i \<Longrightarrow> \<not> (sw_pstate s i = SLEEPING \<and> sw_chan s i) \<Longrightarrow>
    sw_step s (goto p (Unlook late i) s)"
| scan_unlock: "sw_pc s p = Unlook late i \<Longrightarrow> sw_step s (goto p (Scan late (Suc i)) (set_plock i None s))"
| kill_lock: "p < NPROC \<Longrightarrow> sw_pc s p = Outside \<Longrightarrow> i < NPROC \<Longrightarrow> sw_plock s i = None \<Longrightarrow>
    sw_step s (goto p (Kill_look i) (set_plock i (Some (Thread p)) s))"
| kill_wake: "sw_pc s p = Kill_look i \<Longrightarrow> sw_pstate s i = SLEEPING \<Longrightarrow>
    sw_step s (goto p (Kill_unlook i) (set_pstate i RUNNABLE s))"
| kill_pass: "sw_pc s p = Kill_look i \<Longrightarrow> sw_step s (goto p (Kill_unlook i) s)"
| kill_unlock: "sw_pc s p = Kill_unlook i \<Longrightarrow> sw_step s (goto p Outside (set_plock i None s))"

definition sw_init :: "sw_state \<Rightarrow> bool" where
  "sw_init s \<longleftrightarrow> \<not> sw_cond s \<and> sw_lk s = None \<and> sw_plock s = (\<lambda>_. None)
     \<and> sw_pstate s = (\<lambda>_. RUNNING) \<and> sw_chan s = (\<lambda>_. False) \<and> sw_pc s = (\<lambda>_. Outside)"

section \<open>The invariant\<close>

fun has_lk :: "sw_pc \<Rightarrow> bool" where
  "has_lk Test = True" | "has_lk Leave = True" | "has_lk Want_plock = True" | "has_lk Drop_lk = True"
| "has_lk (Scan late i) = True" | "has_lk (Look late i) = True" | "has_lk (Unlook late i) = True" | "has_lk Set_late = True"
| "has_lk _ = False"

fun has_own :: "sw_pc \<Rightarrow> bool" where
  \<comment> \<open>holds its own \<open>p->lock\<close> in \<open>sleep\<close>\<close>
  "has_own Drop_lk = True" | "has_own Set_chan = True" | "has_own Set_sleeping = True" | "has_own Switch = True"
| "has_own Clear_chan = True" | "has_own Drop_plock = True" | "has_own _ = False"

fun looks_at :: "sw_pc \<Rightarrow> nat \<Rightarrow> bool" where
  \<comment> \<open>holds the lock of process \<open>i\<close> in \<open>wakeup\<close> or \<open>kill\<close>\<close>
  "looks_at (Look late j) i = (j = i)" | "looks_at (Unlook late j) i = (j = i)"
| "looks_at (Kill_look j) i = (j = i)" | "looks_at (Kill_unlook j) i = (j = i)" | "looks_at _ i = False"

definition holds_plock :: "sw_pc \<Rightarrow> nat \<Rightarrow> nat \<Rightarrow> bool" where
  "holds_plock l q i \<longleftrightarrow> q = i \<and> has_own l \<or> looks_at l i"

definition committed :: "sw_state \<Rightarrow> nat \<Rightarrow> bool" where
  \<comment> \<open>asleep, or past the point where the condition was tested\<close>
  "committed s p \<longleftrightarrow> sw_pc s p \<in> {Set_chan, Set_sleeping, Switch}
     \<or> sw_pc s p = Away \<and> sw_pstate s p = SLEEPING"

fun will_wake :: "sw_pc \<Rightarrow> nat \<Rightarrow> bool" where
  "will_wake (Scan late i) p \<longleftrightarrow> i \<le> p"
| "will_wake (Look late i) p \<longleftrightarrow> i \<le> p"
| "will_wake (Unlook late i) p \<longleftrightarrow> i < p"
| "will_wake _ p \<longleftrightarrow> False"

fun announcing :: "sw_pc \<Rightarrow> bool" where
  \<comment> \<open>has started a \<open>wakeup\<close> for a condition it will set\<close>
  "announcing (Scan late i) = late" | "announcing (Look late i) = late" | "announcing (Unlook late i) = late"
| "announcing Set_late = True" | "announcing _ = False"

definition lk_inv :: "sw_state \<Rightarrow> bool" where
  "lk_inv s \<longleftrightarrow> (\<forall>p. has_lk (sw_pc s p) = (sw_lk s = Some p))"

definition plock_inv :: "sw_state \<Rightarrow> bool" where
  "plock_inv s \<longleftrightarrow>
     (\<forall>q i. holds_plock (sw_pc s q) q i = (sw_plock s i = Some (Thread q)))
   \<and> (\<forall>i. sw_plock s i = Some Scheduler \<longrightarrow> sw_pc s i = Away)
   \<and> (\<forall>p\<ge>NPROC. sw_pc s p = Outside)"

definition chan_inv :: "sw_state \<Rightarrow> bool" where
  "chan_inv s \<longleftrightarrow> (\<forall>p. (sw_pc s p \<in> {Set_sleeping, Switch, Away} \<longrightarrow> sw_chan s p)
     \<and> (sw_pc s p \<in> {Switch, Away} \<longrightarrow> sw_pstate s p \<in> {SLEEPING, RUNNABLE}))"

definition tested_inv :: "sw_state \<Rightarrow> bool" where
  "tested_inv s \<longleftrightarrow> (\<forall>p. sw_lk s = Some p \<longrightarrow> sw_pc s p \<in> {Want_plock, Drop_lk} \<longrightarrow> \<not> sw_cond s)"

definition due :: "sw_state \<Rightarrow> bool" where
  "due s \<longleftrightarrow> sw_cond s \<or> (\<exists>q. sw_lk s = Some q \<and> announcing (sw_pc s q))"

definition wake_inv :: "sw_state \<Rightarrow> bool" where
  \<comment> \<open>while the condition holds or is about to, whoever holds \<open>lk\<close> has yet to reach every committed sleeper\<close>
  "wake_inv s \<longleftrightarrow> (\<forall>p. due s \<longrightarrow> committed s p \<longrightarrow>
     (case sw_lk s of None \<Rightarrow> False | Some q \<Rightarrow> will_wake (sw_pc s q) p))"

lemma lk_invD: "lk_inv s \<Longrightarrow> sw_pc s p = l \<Longrightarrow> (sw_lk s = Some p) = has_lk l"
  by (auto simp: lk_inv_def)

lemma plock_invD: "plock_inv s \<Longrightarrow> sw_pc s p = l \<Longrightarrow>
   (\<forall>i. (sw_plock s i = Some (Thread p)) = holds_plock l p i) \<and> (NPROC \<le> p \<longrightarrow> l = Outside)
   \<and> (has_own l \<longrightarrow> sw_plock s p = Some (Thread p)) \<and> (\<forall>i. looks_at l i \<longrightarrow> sw_plock s i = Some (Thread p))"
  by (auto simp: plock_inv_def holds_plock_def)

lemma lk_step: "lk_inv s \<Longrightarrow> sw_step s t \<Longrightarrow> lk_inv t"
  by (erule sw_step.cases; hypsubst; frule (1) lk_invD; auto simp: lk_inv_def)

lemma plock_step: "plock_inv s \<Longrightarrow> sw_step s t \<Longrightarrow> plock_inv t"
  by (erule sw_step.cases; hypsubst; frule (1) plock_invD; auto simp: plock_inv_def holds_plock_def)

lemma plock_iff: "plock_inv s \<Longrightarrow> (sw_plock s i = Some (Thread q)) = holds_plock (sw_pc s q) q i"
  by (simp add: plock_inv_def)

lemma looked_at:
  "plock_inv s \<Longrightarrow> looks_at (sw_pc s q) i \<Longrightarrow> committed s i \<Longrightarrow> sw_pc s i = Away \<and> sw_pstate s i = SLEEPING"
  using plock_iff [of s i i] plock_iff [of s i q] by (auto simp: committed_def holds_plock_def)

lemma chan_step: "chan_inv s \<Longrightarrow> sw_step s t \<Longrightarrow> chan_inv t"
  by (erule sw_step.cases; auto simp: chan_inv_def)

lemma tested_step: "lk_inv s \<Longrightarrow> tested_inv s \<Longrightarrow> sw_step s t \<Longrightarrow> tested_inv t"
  by (erule sw_step.cases; hypsubst; frule (1) lk_invD; auto simp: lk_inv_def tested_inv_def)

lemma wake_mono:
  assumes "wake_inv s" and "due t \<Longrightarrow> due s" and "\<And>p. committed t p \<Longrightarrow> committed s p"
    and "\<And>q p. sw_lk s = Some q \<Longrightarrow> will_wake (sw_pc s q) p \<Longrightarrow> sw_lk t = Some q \<and> will_wake (sw_pc t q) p"
  shows "wake_inv t"
  unfolding wake_inv_def
proof (intro allI impI)
  fix p assume "due t" "committed t p"
  then obtain q where "sw_lk s = Some q" "will_wake (sw_pc s q) p"
    using assms(1-3) by (auto simp: wake_inv_def split: option.splits)
  then show "case sw_lk t of None \<Rightarrow> False | Some q \<Rightarrow> will_wake (sw_pc t q) p" using assms(4) by auto
qed

lemma committed_range: "plock_inv s \<Longrightarrow> committed s p \<Longrightarrow> p < NPROC"
  by (rule ccontr) (simp add: plock_inv_def committed_def)

lemma wake_inv_holder:
  "wake_inv s \<Longrightarrow> sw_lk s = Some q \<Longrightarrow> due s \<Longrightarrow> committed s p \<Longrightarrow> will_wake (sw_pc s q) p"
  by (auto simp: wake_inv_def)

lemma wake_invI:
  "sw_lk t = Some q \<Longrightarrow> (\<And>p. due t \<Longrightarrow> committed t p \<Longrightarrow> will_wake (sw_pc t q) p) \<Longrightarrow> wake_inv t"
  by (auto simp: wake_inv_def)

lemma committed_goto: "has_lk l \<Longrightarrow> committed (goto p l s) q \<Longrightarrow> committed s q"
  by (auto simp: committed_def split: if_splits)

lemma due_goto: "sw_lk s = Some p \<Longrightarrow> due (goto p l s) \<longleftrightarrow> sw_cond s \<or> announcing l"
  by (auto simp: due_def)

lemma due_late: "sw_lk s = Some p \<Longrightarrow> announcing (sw_pc s p) \<Longrightarrow> due s"
  by (auto simp: due_def)

lemma wake_step_look:
  assumes "plock_inv s" "chan_inv s" "wake_inv s" "sw_lk s = Some p" "sw_pc s p = Look late i"
  shows "sw_pstate s i = SLEEPING \<Longrightarrow> wake_inv (goto p (Unlook late i) (set_pstate i RUNNABLE s))"
    and "\<not> (sw_pstate s i = SLEEPING \<and> sw_chan s i) \<Longrightarrow> wake_inv (goto p (Unlook late i) s)"
proof -
  have d: "due s" if "sw_cond s \<or> late" using that assms(4,5) by (auto simp: due_def)
  have le: "sw_cond s \<or> late \<Longrightarrow> committed s q \<Longrightarrow> i \<le> q" for q
    using wake_inv_holder [OF assms(3,4) d, of q] assms(5) by simp
  have away: "committed s i \<Longrightarrow> sw_pc s i = Away \<and> sw_pstate s i = SLEEPING \<and> sw_chan s i"
    using looked_at [OF assms(1), of p i] assms(2,5) by (auto simp: chan_inv_def)
  show "wake_inv (goto p (Unlook late i) s)" if "\<not> (sw_pstate s i = SLEEPING \<and> sw_chan s i)"
  proof (rule wake_invI [of _ p])
    fix q assume "due (goto p (Unlook late i) s)" "committed (goto p (Unlook late i) s) q"
    then have "sw_cond s \<or> late" "committed s q"
      using committed_goto [where l = "Unlook late i" and p = p and s = s and q = q] due_goto [OF assms(4)] by auto
    with le away that show "will_wake (sw_pc (goto p (Unlook late i) s) p) q" by (cases "q = i") (auto simp: order_less_le)
  qed (use assms(4) in simp)
  let ?t = "goto p (Unlook late i) (set_pstate i RUNNABLE s)"
  show "wake_inv ?t" if "sw_pstate s i = SLEEPING"
  proof (rule wake_invI [of _ p])
    fix q assume q: "due ?t" "committed ?t q"
    then have c: "sw_cond s \<or> late" using assms(4) by (auto simp: due_def)
    have "committed s q" using q(2) by (auto simp: committed_def split: if_splits)
    moreover have "q \<noteq> i"
    proof
      assume "q = i"
      with away \<open>committed s q\<close> have "sw_pc s i = Away" by simp
      with q(2) \<open>q = i\<close> show False by (auto simp: committed_def split: if_splits)
    qed
    ultimately show "will_wake (sw_pc ?t p) q" using le c by (auto simp: order_less_le)
  qed (use assms(4) in simp)
qed

lemma wake_step_scan:
  \<comment> \<open>the scan moves on past processes that are not committed\<close>
  assumes "wake_inv s" "sw_lk s = Some p" "has_lk l" "sw_cond s \<or> announcing l \<Longrightarrow> due s"
    and "\<And>q. committed s q \<Longrightarrow> will_wake (sw_pc s p) q \<Longrightarrow> will_wake l q"
  shows "wake_inv (goto p l s)"
proof (rule wake_invI [of _ p])
  fix q assume "due (goto p l s)" "committed (goto p l s) q"
  then have "due s" "committed s q" using assms(4) due_goto [OF assms(2)] committed_goto [OF assms(3)] by auto
  then show "will_wake (sw_pc (goto p l s) p) q" using wake_inv_holder [OF assms(1,2)] assms(5) by simp
qed (use assms(2) in simp)

lemma wake_inv_plock: "wake_inv (set_plock i x s) = wake_inv s"
  by (simp add: wake_inv_def due_def committed_def cong: option.case_cong)

lemma wake_step:
  assumes "lk_inv s" "plock_inv s" "chan_inv s" "tested_inv s" "wake_inv s" "sw_step s t"
  shows "wake_inv t"
  using assms(6)
proof cases
  case (produce p)
  then show ?thesis using lk_invD [OF assms(1), of p] by (simp add: wake_inv_def)
next
  case (announce p)
  then show ?thesis using lk_invD [OF assms(1), of p] by (simp add: wake_inv_def)
next
  case (set_late p)
  then have "sw_lk s = Some p" "due s" using lk_invD [OF assms(1), of p] by (auto simp: due_def)
  then have "\<not> committed s q" for q using wake_inv_holder [OF assms(5), of p q] set_late by auto
  then show ?thesis using set_late by (auto simp: wake_inv_def committed_def split: if_splits)
next
  case (sleep_drop p)
  then show ?thesis using lk_invD [OF assms(1), of p] assms(4) by (simp add: wake_inv_def tested_inv_def due_def)
next
  case (scan_end p late)
  then have l: "sw_lk s = Some p" using lk_invD [OF assms(1), of p] by simp
  show ?thesis unfolding scan_end(1)
    by (rule wake_step_scan [OF assms(5) l])
      (use scan_end(2) l committed_range [OF assms(2)] in \<open>auto simp: due_def split: if_splits dest!: leD\<close>)
next
  case (scan_self p late)
  then have l: "sw_lk s = Some p" using lk_invD [OF assms(1), of p] by simp
  show ?thesis unfolding scan_self(1)
    by (rule wake_step_scan [OF assms(5) l])
      (use scan_self(2) l in \<open>auto simp: due_def committed_def Suc_le_eq order_less_le\<close>)
next
  case (scan_wake p late i)
  then show ?thesis using wake_step_look(1) [OF assms(2,3,5), of p late i] lk_invD [OF assms(1), of p] by simp
next
  case (scan_pass p late i)
  then show ?thesis using wake_step_look(2) [OF assms(2,3,5), of p late i] lk_invD [OF assms(1), of p] by simp
next
  case (scan_unlock p late i)
  then have l: "sw_lk s = Some p" using lk_invD [OF assms(1), of p] by simp
  have "wake_inv (goto p (Scan late (Suc i)) s)"
    by (rule wake_step_scan [OF assms(5) l]) (use scan_unlock(2) l in \<open>auto simp: due_def\<close>)
  moreover have "t = set_plock i None (goto p (Scan late (Suc i)) s)" using scan_unlock(1) by simp
  ultimately show ?thesis by (simp only: wake_inv_plock)
qed (hypsubst, frule lk_invD [OF assms(1)], rule wake_mono [OF assms(5)], (auto simp: committed_def due_def split: if_splits)[3])+

definition sw_inv :: "sw_state \<Rightarrow> bool" where
  "sw_inv s \<longleftrightarrow> lk_inv s \<and> plock_inv s \<and> chan_inv s \<and> tested_inv s \<and> wake_inv s"

interpretation sw: inductive_invariant sw_init sw_step sw_inv
proof
  show "sw_init s \<Longrightarrow> sw_inv s" for s
    by (simp add: sw_init_def sw_inv_def lk_inv_def plock_inv_def chan_inv_def tested_inv_def
        wake_inv_def committed_def holds_plock_def)
  show "sw_inv s \<Longrightarrow> sw_step s t \<Longrightarrow> sw_inv t" for s t
    using lk_step [of s t] plock_step [of s t] chan_step [of s t] tested_step [of s t] wake_step [of s t]
    by (simp add: sw_inv_def)
qed

text \<open>
  C4. No wakeup is lost, in any interleaving. Whenever the condition holds while a process is asleep
  on the channel, or has seen the condition false and is on its way to sleep, a wakeup for it is
  pending: some process holds the lock that protects the condition, is inside \<open>wakeup\<close>, and its scan
  of the process table has not passed the sleeper. So once that lock is free no process sleeps or is
  about to, and every process switched out inside \<open>sleep\<close> is RUNNABLE.
\<close>

theorem no_lost_wakeup:
  assumes "reachable sw_init sw_step s" and "sw_cond s"
  shows "(sw_pc s p \<in> {Set_chan, Set_sleeping, Switch} \<or> sw_pc s p = Away \<and> sw_pstate s p = SLEEPING \<longrightarrow>
      (\<exists>q late i. sw_lk s = Some q \<and> (sw_pc s q = Scan late i \<and> i \<le> p \<or> sw_pc s q = Look late i \<and> i \<le> p
         \<or> sw_pc s q = Unlook late i \<and> i < p)))
    \<and> (sw_lk s = None \<longrightarrow> sw_pc s p \<notin> {Want_plock, Drop_lk, Set_chan, Set_sleeping, Switch}
         \<and> (sw_pc s p = Away \<longrightarrow> sw_pstate s p = RUNNABLE))"
proof -
  have inv: "lk_inv s" "chan_inv s" "wake_inv s" using sw.inv_reachable [OF assms(1)] by (simp_all add: sw_inv_def)
  have "\<exists>q. sw_lk s = Some q \<and> will_wake (sw_pc s q) p" if "committed s p"
    using inv(3) assms(2) that by (auto simp: wake_inv_def due_def split: option.splits)
  moreover have "\<exists>late i. l = Scan late i \<and> i \<le> p \<or> l = Look late i \<and> i \<le> p \<or> l = Unlook late i \<and> i < p" if "will_wake l p" for l
    using that by (cases l) auto
  moreover have "\<not> has_lk (sw_pc s p)" if "sw_lk s = None" using inv(1) that by (simp add: lk_inv_def)
  moreover have "sw_pstate s p \<in> {SLEEPING, RUNNABLE}" if "sw_pc s p = Away" using inv(2) that by (simp add: chan_inv_def)
  ultimately show ?thesis unfolding committed_def by (cases "sw_lk s") fastforce+
qed

text \<open>A run in which process 1 goes to sleep and process 0 sets the condition and wakes it.\<close>

definition sw_start :: sw_state where
  "sw_start = \<lparr>sw_cond = False, sw_lk = None, sw_plock = (\<lambda>_. None), sw_pstate = (\<lambda>_. RUNNING),
     sw_chan = (\<lambda>_. False), sw_pc = (\<lambda>_. Outside)\<rparr>"

definition sw_mid :: "bool \<Rightarrow> nat option \<Rightarrow> (nat \<Rightarrow> owner option) \<Rightarrow> procstate \<Rightarrow> sw_pc \<Rightarrow> sw_state" where
  \<comment> \<open>process 1 switched out in \<open>sleep\<close> in state \<open>st\<close>, process 0 at \<open>pc\<close>\<close>
  "sw_mid c l pl st pc = \<lparr>sw_cond = c, sw_lk = l, sw_plock = pl, sw_pstate = (\<lambda>_. RUNNING)(1 := st),
     sw_chan = (\<lambda>_. False)(1 := True), sw_pc = (\<lambda>_. Outside)(1 := Away, 0 := pc)\<rparr>"

lemma reach_asleep: "reachable sw_init sw_step (sw_mid False None (\<lambda>_. None) SLEEPING Outside)"
proof -
  have "reachable sw_init sw_step sw_start" by (rule reach_init) (simp add: sw_init_def sw_start_def)
  note reach_step [OF this enter [where p = 1], simplified sw_start_def layout, simplified]
  note reach_step [OF this wait [where p = 1], simplified]
  note reach_step [OF this sleep_lock [where p = 1], simplified]
  note reach_step [OF this sleep_drop [where p = 1], simplified]
  note reach_step [OF this sleep_chan [where p = 1], simplified]
  note reach_step [OF this sleep_state [where p = 1], simplified]
  note reach_step [OF this sleep_switch [where p = 1], simplified]
  note reach_step [OF this sched_release [where p = 1], simplified]
  moreover have "(\<lambda>_. Outside)(Suc 0 := Away) = (\<lambda>_. Outside)(Suc 0 := Away, 0 := Outside)"
    by (simp add: fun_eq_iff)
  ultimately show ?thesis by (simp add: sw_mid_def)
qed

lemma reach_scanning: "reachable sw_init sw_step (sw_mid True (Some 0) (\<lambda>_. None) SLEEPING (Scan False 1))"
proof -
  let ?m = "\<lambda>c l. sw_mid c l (\<lambda>_. None) SLEEPING"
  have "sw_step (?m False None Outside) (?m False (Some 0) Test)"
    using enter [of 0 "?m False None Outside"] by (simp add: sw_mid_def layout)
  moreover have "sw_step (?m False (Some 0) Test) (?m True (Some 0) (Scan False 0))"
    using produce [of "?m False (Some 0) Test" 0] by (simp add: sw_mid_def)
  moreover have "sw_step (?m True (Some 0) (Scan False 0)) (?m True (Some 0) (Scan False 1))"
    using scan_self [of "?m True (Some 0) (Scan False 0)" 0 False] by (simp add: sw_mid_def)
  ultimately show ?thesis using reach_asleep by (blast intro: reach_step)
qed

theorem no_lost_wakeup_witness:
  "\<exists>s q late i. reachable sw_init sw_step s \<and> sw_cond s \<and> sw_pc s 1 = Away \<and> sw_pstate s 1 = SLEEPING \<and> sw_lk s = Some q
     \<and> (sw_pc s q = Scan late i \<and> i \<le> 1 \<or> sw_pc s q = Look late i \<and> i \<le> 1 \<or> sw_pc s q = Unlook late i \<and> i < 1)"
proof -
  let ?s = "sw_mid True (Some 0) (\<lambda>_. None) SLEEPING (Scan False 1)"
  have "sw_cond ?s" "sw_pc ?s 1 = Away" "sw_pstate ?s 1 = SLEEPING" by (simp_all add: sw_mid_def)
  then show ?thesis using no_lost_wakeup [OF reach_scanning, of 1] reach_scanning by blast
qed

end
