(* ===== verification/Kalloc.thy ===== *)
theory Kalloc
  imports Spinlock
begin

text \<open>
  The physical page allocator, \<open>kernel/kalloc.c\<close>. The free pages form a list threaded through the
  pages themselves: the first eight bytes of a free page are the address of the next one.
  The lemmas relate that list in memory to a HOL list of pages (\<open>kmem_inv\<close>), on which \<open>kfree\<close>
  pushes and \<open>kalloc\<close> pops.
\<close>

section \<open>kalloc.c\<close>

definition kfree :: "addr \<Rightarrow> unit kernel" where
  "kfree pa =
     bind (gets kend) (\<lambda>e.
     if pa mod PGSIZE \<noteq> 0 \<or> pa < e \<or> PHYSTOP \<le> pa then panic ''kfree'' else
     andthen (modify (\<lambda>w. w\<lparr>mem := memset (mem w) pa 1 4096\<rparr>))
     (andthen (acquire Kmem_lock)
     (andthen (modify (\<lambda>w. w\<lparr>mem := store64 (mem w) pa (freelist w)\<rparr>))
     (andthen (modify (\<lambda>w. w\<lparr>freelist := pa\<rparr>))
     (release Kmem_lock)))))"

text \<open>
  The loop of \<open>freerange\<close>. The pointer could only wrap around past a page that \<open>kfree\<close> refuses,
  so the last branch is never taken (\<open>freerange_returns\<close>).
\<close>

function freerange_loop :: "addr \<Rightarrow> addr \<Rightarrow> unit kernel" where
  "freerange_loop p pa_end =
     (if p + PGSIZE \<le> pa_end
      then andthen (kfree p) (if p < p + PGSIZE then freerange_loop (p + PGSIZE) pa_end else stop Diverged)
      else skip)"
  by auto
termination
  by (relation "measure (\<lambda>(p, e). 2 ^ 64 - unat p)") (auto intro: page_up_measure)

declare freerange_loop.simps [simp del]

definition freerange :: "addr \<Rightarrow> addr \<Rightarrow> unit kernel" where
  "freerange pa_start pa_end = freerange_loop (PGROUNDUP pa_start) pa_end"

definition kinit :: "unit kernel" where
  "kinit =
     andthen (initlock Kmem_lock ''kmem'')
     (bind (gets kend) (\<lambda>e. freerange e PHYSTOP))"

definition kalloc :: "addr kernel" where
  "kalloc =
     andthen (acquire Kmem_lock)
     (bind (gets freelist) (\<lambda>r.
     andthen (if r \<noteq> 0 then modify (\<lambda>w. w\<lparr>freelist := load64 (mem w) r\<rparr>) else skip)
     (andthen (release Kmem_lock)
     (andthen (if r \<noteq> 0 then modify (\<lambda>w. w\<lparr>mem := memset (mem w) r 5 4096\<rparr>) else skip)
     (ret r)))))"

section \<open>Pages\<close>

definition page_aligned :: "addr \<Rightarrow> bool" where
  "page_aligned p \<longleftrightarrow> unat p mod 4096 = 0"

definition in_page :: "addr \<Rightarrow> addr \<Rightarrow> bool" where
  "in_page p x \<longleftrightarrow> unat (x - p) < 4096"

lemma in_page_iff: "page_aligned p \<Longrightarrow> in_page p x \<longleftrightarrow> PGROUNDDOWN x = p"
proof
  assume p: "page_aligned p" and "in_page p x"
  then have off: "unat (x - p) < 4096" by (simp add: in_page_def)
  obtain k where k: "unat p = 4096 * k" using p by (metis page_aligned_def mod_0_imp_dvd dvdE)
  have "unat p + unat (x - p) < 2 ^ 64"
  proof -
    have "4096 * k < 4096 * 2 ^ 52" using k unat_bound [of p] by simp
    then have "k + 1 \<le> 2 ^ 52" by linarith
    then have "4096 * (k + 1) \<le> 4096 * 2 ^ 52" by (rule mult_le_mono2)
    with off k show ?thesis by simp
  qed
  then have "unat x = 4096 * k + unat (x - p)"
    using unat_add_no_wrap [of p "x - p"] k by simp
  with off k show "PGROUNDDOWN x = p" by (simp add: word_unat_eq_iff unat_PGROUNDDOWN)
next
  assume "PGROUNDDOWN x = p"
  then show "in_page p x" using PGROUNDDOWN_offset [of x] by (auto simp: in_page_def)
qed

lemma in_page_self [simp]: "in_page p p"
  by (simp add: in_page_def)

lemma pages_disjoint: "page_aligned p \<Longrightarrow> page_aligned q \<Longrightarrow> in_page p x \<Longrightarrow> in_page q x \<Longrightarrow> p = q"
  by (auto simp: in_page_iff)

lemma in_page_offset: "i < 4096 \<Longrightarrow> in_page p (p + of_nat i)"
  by (simp add: in_page_def of_nat_less_word)

lemma memset_page: "memset m p c 4096 x = (if in_page p x then word_of_int c else m x)"
  by (simp add: memset_apply in_page_def)

lemma load64_page_cong:
  assumes "\<And>x. in_page p x \<Longrightarrow> m x = m' x"
  shows "load64 m p = load64 m' p"
  unfolding load64_def using assms in_page_offset
  by (intro arg_cong [of _ _ word_of] load_bytes_cong) auto

section \<open>The free list\<close>

primrec flist :: "memory \<Rightarrow> addr \<Rightarrow> addr list \<Rightarrow> bool" where
  "flist m a [] \<longleftrightarrow> a = 0"
| "flist m a (p # ps) \<longleftrightarrow> a = p \<and> p \<noteq> 0 \<and> flist m (load64 m p) ps"

definition kpage :: "world \<Rightarrow> addr \<Rightarrow> bool" where
  \<comment> \<open>a page \<open>kfree\<close> accepts\<close>
  "kpage w p \<longleftrightarrow> page_aligned p \<and> kend w \<le> p \<and> p < PHYSTOP"

definition kmem_inv :: "world \<Rightarrow> addr list \<Rightarrow> bool" where
  "kmem_inv w ps \<longleftrightarrow> kend w \<noteq> 0 \<and> flist (mem w) (freelist w) ps \<and> distinct ps
     \<and> (\<forall>p \<in> set ps. kpage w p)"

lemma flist_cong:
  "(\<And>p. p \<in> set ps \<Longrightarrow> load64 m p = load64 m' p) \<Longrightarrow> flist m a ps = flist m' a ps"
  by (induction ps arbitrary: a) auto

lemma kmem_inv_cong:
  assumes "kmem_inv w ps" and "kend w' = kend w" and "freelist w' = freelist w"
    and "\<And>p x. p \<in> set ps \<Longrightarrow> in_page p x \<Longrightarrow> mem w' x = mem w x"
  shows "kmem_inv w' ps"
proof -
  have "flist (mem w') (freelist w) ps = flist (mem w) (freelist w) ps"
    by (rule flist_cong, rule load64_page_cong) (rule assms(4))
  with assms show ?thesis by (simp add: kmem_inv_def kpage_def)
qed

lemma kpage_nonzero: "kend w \<noteq> 0 \<Longrightarrow> kpage w p \<Longrightarrow> p \<noteq> 0"
  by (auto simp: kpage_def word_le_nat_alt word_unat_eq_iff)

lemma kmem_inv_upd [simp]:
  "kmem_inv (hold lk w) ps = kmem_inv w ps"
  "kmem_inv (procs_update g w) ps = kmem_inv w ps"
  by (simp_all add: kmem_inv_def kpage_def)

definition freed :: "addr \<Rightarrow> world \<Rightarrow> world" where
  \<comment> \<open>the state after \<open>kfree(pa)\<close>\<close>
  "freed pa w = w\<lparr>mem := store64 (memset (mem w) pa 1 4096) pa (freelist w), freelist := pa\<rparr>"

lemma kfree_run [run_simps]:
  assumes "calm w" "free_lock Kmem_lock w" "kpage w pa"
  shows "kfree pa w = Ok () (freed pa w)"
  using assms by (simp add: kfree_def freed_def run_simps kpage_def page_aligned_def word_mod_PGSIZE not_less not_le)

lemma freed_outside: "\<not> in_page pa x \<Longrightarrow> mem (freed pa w) x = mem w x"
  by (simp add: freed_def memset_page in_page_def store64_apply)

lemma freed_inv:
  assumes "kmem_inv w ps" "kpage w pa" "pa \<notin> set ps"
  shows "kmem_inv (freed pa w) (pa # ps)"
proof -
  have "load64 (mem (freed pa w)) p = load64 (mem w) p" if "p \<in> set ps" for p
  proof (rule load64_page_cong)
    fix x assume "in_page p x"
    with assms that have "\<not> in_page pa x"
      using pages_disjoint [of p pa x] by (auto simp: kmem_inv_def kpage_def)
    then show "mem (freed pa w) x = mem w x" by (rule freed_outside)
  qed
  then have "flist (mem (freed pa w)) (freelist w) ps = flist (mem w) (freelist w) ps" by (rule flist_cong)
  moreover have "load64 (mem (freed pa w)) pa = freelist w" by (simp add: freed_def load64_store64)
  ultimately show ?thesis
    using assms kpage_nonzero [of w pa] by (auto simp: kmem_inv_def freed_def kpage_def)
qed

definition popped :: "addr list \<Rightarrow> world \<Rightarrow> world" where
  \<comment> \<open>the state after \<open>kalloc()\<close> with this free list\<close>
  "popped ps w = (case ps of [] \<Rightarrow> w | p # _ \<Rightarrow>
     w\<lparr>mem := memset (mem w) p 5 4096, freelist := load64 (mem w) p\<rparr>)"

lemma kalloc_run:
  assumes "calm w" "free_lock Kmem_lock w" "kmem_inv w ps"
  shows "kalloc w = Ok (case ps of [] \<Rightarrow> 0 | p # _ \<Rightarrow> p) (popped ps w)"
  using assms by (cases ps) (auto simp: kalloc_def popped_def run_simps kmem_inv_def)

lemma popped_inv:
  assumes "kmem_inv w (p # ps)"
  shows "kmem_inv (popped (p # ps) w) ps"
proof -
  let ?w = "w\<lparr>freelist := load64 (mem w) p\<rparr>"
  have "kmem_inv ?w ps" using assms by (auto simp: kmem_inv_def kpage_def)
  then show ?thesis
  proof (rule kmem_inv_cong)
    fix q x assume "q \<in> set ps" "in_page q x"
    with assms have "\<not> in_page p x"
      using pages_disjoint [of p q x] by (auto simp: kmem_inv_def kpage_def)
    then show "mem (popped (p # ps) w) x = mem ?w x" by (simp add: popped_def memset_page)
  qed (simp_all add: popped_def)
qed

section \<open>Initialisation\<close>

definition only_mem :: "world \<Rightarrow> world \<Rightarrow> bool" where
  \<comment> \<open>\<open>w'\<close> differs from \<open>w\<close> in memory and the free list at most\<close>
  "only_mem w w' \<longleftrightarrow> (\<exists>m f. w' = w\<lparr>mem := m, freelist := f\<rparr>)"

lemma only_memI [intro]: "only_mem w (w\<lparr>mem := m, freelist := f\<rparr>)"
  unfolding only_mem_def by blast

lemma only_mem_refl [simp]: "only_mem w w"
  unfolding only_mem_def by (intro exI [of _ "mem w"] exI [of _ "freelist w"]) simp

lemma only_mem_trans: "only_mem u v \<Longrightarrow> only_mem v w \<Longrightarrow> only_mem u w"
  unfolding only_mem_def by (elim exE) (simp, blast)

lemma only_mem_freed: "only_mem (freed pa w) w' \<Longrightarrow> only_mem w w'"
  unfolding freed_def by (rule only_mem_trans [OF only_memI])

lemma only_memD:
  assumes "only_mem w w'"
  shows "kend w' = kend w" "calm w' = calm w" "free_lock lk w' = free_lock lk w" "procs w' = procs w"
  using assms by (auto simp: only_mem_def)

lemma page_next:
  assumes "page_aligned p" "unat p + 4096 < 2 ^ 64"
  shows "page_aligned (p + PGSIZE)" "unat (p + PGSIZE) = unat p + 4096" "p < p + PGSIZE"
proof -
  show *: "unat (p + PGSIZE) = unat p + 4096" using assms(2) by (simp add: unat_add_no_wrap)
  show "page_aligned (p + PGSIZE)" using assms(1) unfolding page_aligned_def * by simp
  show "p < p + PGSIZE" unfolding word_less_nat_alt * by simp
qed

lemma page_le_next: "page_aligned p \<Longrightarrow> page_aligned q \<Longrightarrow> unat p \<le> unat q \<longleftrightarrow> p = q \<or> unat p + 4096 \<le> unat q"
proof -
  assume "page_aligned p" "page_aligned q"
  then have "4096 dvd unat p" "4096 dvd unat q" by (simp_all add: page_aligned_def dvd_eq_mod_eq_0)
  then obtain j k where jk: "unat p = 4096 * j" "unat q = 4096 * k" by (elim dvdE)
  have "4096 * j + 4096 \<le> 4096 * k \<longleftrightarrow> j < k"
    using mult_le_cancel1 [of 4096 "Suc j" k] by (simp add: Suc_le_eq add.commute del: mult_le_cancel1)
  moreover have "p = q \<longleftrightarrow> j = k" unfolding word_unat_eq_iff jk by simp
  ultimately show ?thesis unfolding jk by (simp add: le_less disj_commute)
qed

lemma freerange_loop_run:
  assumes "page_aligned p" "kend w \<le> p" "pa_end \<le> PHYSTOP" "p \<le> PHYSTOP" "kmem_inv w ps" "\<forall>q\<in>set ps. q < p"
    and "calm w" "free_lock Kmem_lock w"
  shows "\<exists>w' ps'. freerange_loop p pa_end w = Ok () w' \<and> only_mem w w' \<and> kmem_inv w' ps'
     \<and> set ps' = set ps \<union> {q. page_aligned q \<and> p \<le> q \<and> unat q + 4096 \<le> unat pa_end}"
  using assms
proof (induction p pa_end arbitrary: w ps rule: freerange_loop.induct)
  case (1 p pa_end)
  have bounds: "unat p \<le> 0x88000000" "unat pa_end \<le> 0x88000000"
    using 1 by (simp_all add: word_le_nat_alt layout)
  note nxt = page_next [OF 1(2)]
  have u: "unat (p + PGSIZE) = unat p + 4096" and lt: "p < p + PGSIZE" using bounds nxt by simp_all
  show ?case
  proof (cases "p + PGSIZE \<le> pa_end")
    case False
    then have "{q. page_aligned q \<and> p \<le> q \<and> unat q + 4096 \<le> unat pa_end} = {}"
      unfolding word_le_nat_alt u by auto
    with 1 False show ?thesis by (simp add: freerange_loop.simps [of p]) blast
  next
    case True
    then have "unat p + 4096 \<le> unat pa_end" unfolding word_le_nat_alt u .
    then have kp: "kpage w p" using 1 bounds by (auto simp: kpage_def word_less_nat_alt layout)
    have "p \<notin> set ps" using 1 by blast
    then have inv: "kmem_inv (freed p w) (p # ps)" using freed_inv 1 kp by blast
    have "\<exists>w' ps'. freerange_loop (p + PGSIZE) pa_end (freed p w) = Ok () w' \<and> only_mem (freed p w) w'
       \<and> kmem_inv w' ps' \<and> set ps' = set (p # ps) \<union>
          {q. page_aligned q \<and> p + PGSIZE \<le> q \<and> unat q + 4096 \<le> unat pa_end}"
    proof (rule 1(1) [OF True lt])
      show "p + PGSIZE \<le> PHYSTOP" using True 1(4) by (rule order_trans)
      show "\<forall>q\<in>set (p # ps). q < p + PGSIZE" using 1 lt by auto
      show "kend (freed p w) \<le> p + PGSIZE" using 1(3) lt by (simp add: freed_def)
    qed (use 1 inv nxt bounds in \<open>simp_all add: freed_def\<close>)
    moreover have "{q. page_aligned q \<and> p \<le> q \<and> unat q + 4096 \<le> unat pa_end} =
       insert p {q. page_aligned q \<and> p + PGSIZE \<le> q \<and> unat q + 4096 \<le> unat pa_end}"
      using page_le_next [OF 1(2)] \<open>unat p + 4096 \<le> unat pa_end\<close> 1(2)
      unfolding word_le_nat_alt u by auto
    moreover have "freerange_loop p pa_end w = freerange_loop (p + PGSIZE) pa_end (freed p w)"
      using True lt kp 1 by (simp add: freerange_loop.simps [of p] run_simps)
    ultimately show ?thesis using only_mem_freed [of p w] by auto
  qed
qed

lemma initlock_free:
  assumes "calm w"
  shows "calm (upd_lock lk (\<lambda>_. \<lparr>locked = False, lk_name = n, lk_cpu = None\<rparr>) w)"
    "free_lock lk (upd_lock lk (\<lambda>_. \<lparr>locked = False, lk_name = n, lk_cpu = None\<rparr>) w)"
  using assms by (auto simp: upd_defs calm_def free_lock_def sie_def split: if_splits)

text \<open>
  C16. \<open>kinit\<close> returns, and the free list it builds holds every page between the end of the kernel
  and PHYSTOP exactly once: every page that \<open>kfree\<close> would accept. No page below is touched.
\<close>

theorem kinit_frees_every_page:
  assumes "calm w" and "freelist w = 0" and "kend w \<noteq> 0" and "kend w \<le> PHYSTOP"
  shows "\<exists>w' ps. kinit w = Ok () w' \<and> kmem_inv w' ps \<and> distinct ps \<and> set ps = {p. kpage w p}"
proof -
  let ?w = "upd_lock Kmem_lock (\<lambda>_. \<lparr>locked = False, lk_name = ''kmem'', lk_cpu = None\<rparr>) w"
  let ?p = "PGROUNDUP (kend w)"
  have e: "unat (kend w) \<le> 0x88000000" using assms(4) by (simp add: word_le_nat_alt layout)
  then have u: "unat ?p = (unat (kend w) + 4095) div 4096 * 4096" by (intro unat_PGROUNDUP) simp
  have "?p \<le> PHYSTOP" using e unfolding word_le_nat_alt u by (simp add: layout)
  moreover have le: "kend w \<le> ?p" using e unfolding word_le_nat_alt u by simp
  ultimately obtain w' ps where r: "freerange_loop ?p PHYSTOP ?w = Ok () w'" "kmem_inv w' ps"
     "set ps = {q. page_aligned q \<and> ?p \<le> q \<and> unat q + 4096 \<le> unat PHYSTOP}"
    using freerange_loop_run [of ?p ?w PHYSTOP "[]"] assms initlock_free [OF assms(1)]
    by (auto simp: page_aligned_def kmem_inv_def upd_defs)
  have "page_aligned q \<Longrightarrow> (?p \<le> q \<and> unat q + 4096 \<le> unat PHYSTOP) = (kend w \<le> q \<and> q < PHYSTOP)" for q
  proof -
    assume "page_aligned q"
    then have "4096 dvd unat q" by (simp add: page_aligned_def dvd_eq_mod_eq_0)
    then obtain k where k: "unat q = 4096 * k" by (elim dvdE)
    have "(unat (kend w) + 4095) div 4096 \<le> k \<longleftrightarrow> unat (kend w) \<le> 4096 * k" by linarith
    then show ?thesis unfolding word_le_nat_alt word_less_nat_alt u k by (auto simp: layout)
  qed
  with r(3) have "set ps = {p. kpage w p}" by (auto simp: kpage_def)
  with r show ?thesis
    by (intro exI [of _ w'] exI [of _ ps])
      (auto simp: kinit_def freerange_def initlock_def run_simps upd_defs kmem_inv_def)
qed

lemma kmem_inv_bss: "kmem_inv bss []"
  by (simp add: kmem_inv_def bss_def)

theorem kinit_frees_every_page_witness:
  "\<exists>w' ps. kinit bss = Ok () w' \<and> kmem_inv w' ps \<and> distinct ps \<and> set ps = {p. kpage bss p}"
  by (rule kinit_frees_every_page) (simp_all add: calm_bss, simp_all add: bss_def layout)

text \<open>
  C5. \<open>kalloc\<close> and \<open>kfree\<close> on the list of free pages: \<open>kalloc\<close> returns null, changing nothing,
  exactly when the list is empty; otherwise it takes the first page off the list, fills it with 5s
  and touches no other memory, so in particular none of the pages still free and none in use.
  Freeing the page again puts it back at the front, and the list is as it was.
\<close>

theorem kalloc_takes_a_free_page:
  assumes "calm w" and "free_lock Kmem_lock w" and "kmem_inv w ps"
  shows "case ps of
      [] \<Rightarrow> kalloc w = Ok 0 w
    | p # qs \<Rightarrow> \<exists>w'. kalloc w = Ok p w' \<and> kpage w p \<and> kmem_inv w' qs \<and> p \<notin> set qs
        \<and> (\<forall>x. mem w' x = (if in_page p x then 5 else mem w x))
        \<and> (\<exists>w''. kfree p w' = Ok () w'' \<and> kmem_inv w'' ps)"
proof (cases ps)
  case Nil
  then show ?thesis using kalloc_run [OF assms] by (simp add: popped_def)
next
  case (Cons p qs)
  let ?w = "popped (p # qs) w"
  have "kpage w p" "p \<notin> set qs" using assms(3) Cons by (auto simp: kmem_inv_def)
  moreover have inv: "kmem_inv ?w qs" using popped_inv assms(3) Cons by simp
  moreover have "kpage ?w p" "calm ?w" "free_lock Kmem_lock ?w"
    using \<open>kpage w p\<close> assms by (simp_all add: popped_def kpage_def)
  moreover have "mem ?w x = (if in_page p x then 5 else mem w x)" for x
    by (simp add: popped_def memset_page)
  ultimately show ?thesis
    using kalloc_run [OF assms] Cons freed_inv [OF inv] by (auto simp: kfree_run)
qed

theorem kalloc_takes_a_free_page_witness:
  "\<exists>w'. kalloc (freed 0x80023000 bss) = Ok 0x80023000 w' \<and> kmem_inv w' []"
proof -
  have p: "kpage bss 0x80023000" by (simp add: kpage_def page_aligned_def bss_def layout)
  have inv: "kmem_inv (freed 0x80023000 bss) [0x80023000]"
    using freed_inv [OF kmem_inv_bss p] by simp
  show ?thesis
    using kalloc_takes_a_free_page [OF _ _ inv] calm_bss free_lock_bss [of Kmem_lock]
    by (auto simp: freed_def)
qed

end
