(* ===== verification/Vm.thy ===== *)
theory Vm
  imports Kalloc
begin

unbundle bit_operations_syntax

text \<open>
  Page tables and user memory, \<open>kernel/vm.c\<close> (and \<open>proc_mapstacks\<close> of \<open>kernel/proc.c\<close>, which
  \<open>kvmmake\<close> calls). Page tables are bytes in memory, read and written with 64-bit accesses; a
  \<open>pte_t *\<close> is the address of the entry and 0 is null. \<open>copyout\<close>, \<open>copyin\<close> and \<open>copyinstr\<close> have
  one end in a kernel object: its bytes are a list, given to \<open>copyout\<close> and returned by the other
  two together with the result (as far as they were copied, on an error).
\<close>

section \<open>Walking\<close>

definition pte_at :: "addr \<Rightarrow> nat \<Rightarrow> addr \<Rightarrow> addr" where
  \<comment> \<open>\<open>&pagetable[PX(level, va)]\<close>\<close>
  "pte_at pagetable level va = pagetable + 8 * PX level va"

definition rd64 :: "addr \<Rightarrow> 64 word kernel" where
  "rd64 a = gets (\<lambda>w. load64 (mem w) a)"

definition wr64 :: "addr \<Rightarrow> 64 word \<Rightarrow> unit kernel" where
  "wr64 a v = modify (\<lambda>w. w\<lparr>mem := store64 (mem w) a v\<rparr>)"

definition fill_page :: "addr \<Rightarrow> int \<Rightarrow> unit kernel" where
  \<comment> \<open>\<open>memset(p, c, PGSIZE)\<close>\<close>
  "fill_page p c = modify (\<lambda>w. w\<lparr>mem := memset (mem w) p c 4096\<rparr>)"

fun walk_levels :: "nat list \<Rightarrow> addr \<Rightarrow> addr \<Rightarrow> bool \<Rightarrow> addr option kernel" where
  \<comment> \<open>the loop over the levels; \<open>None\<close> is its early \<open>return 0\<close>\<close>
  "walk_levels [] pagetable va alloc = ret (Some pagetable)"
| "walk_levels (level # ls) pagetable va alloc =
     bind (rd64 (pte_at pagetable level va)) (\<lambda>pte.
     if pte AND PTE_V \<noteq> 0 then walk_levels ls (PTE2PA pte) va alloc
     else if \<not> alloc then ret None
     else bind kalloc (\<lambda>p.
       if p = 0 then ret None else
       andthen (fill_page p 0)
       (andthen (wr64 (pte_at pagetable level va) (PA2PTE p OR PTE_V))
       (walk_levels ls p va alloc))))"

definition walk :: "addr \<Rightarrow> addr \<Rightarrow> bool \<Rightarrow> addr kernel" where
  "walk pagetable va alloc =
     (if MAXVA \<le> va then panic ''walk'' else
      bind (walk_levels [2, 1] pagetable va alloc) (\<lambda>r.
      case r of None \<Rightarrow> ret 0 | Some p \<Rightarrow> ret (pte_at p 0 va)))"

definition walkaddr :: "addr \<Rightarrow> addr \<Rightarrow> addr kernel" where
  "walkaddr pagetable va =
     (if MAXVA \<le> va then ret 0 else
      bind (walk pagetable va False) (\<lambda>pte.
      if pte = 0 then ret 0 else
      bind (rd64 pte) (\<lambda>e.
      if e AND PTE_V = 0 then ret 0
      else if e AND PTE_U = 0 then ret 0
      else ret (PTE2PA e))))"

section \<open>Mapping and unmapping\<close>

text \<open>
  The loops over addresses stop at MAXVA at the latest, where \<open>walk\<close> panics, so the address cannot
  wrap around; the branch for that is never taken.
\<close>

function mappages_loop :: "addr \<Rightarrow> addr \<Rightarrow> addr \<Rightarrow> addr \<Rightarrow> 64 word \<Rightarrow> int kernel" where
  "mappages_loop pagetable a lst pa perm =
     bind (walk pagetable a True) (\<lambda>pte.
     if pte = 0 then ret (- 1) else
     bind (rd64 pte) (\<lambda>e.
     if e AND PTE_V \<noteq> 0 then panic ''mappages: remap'' else
     andthen (wr64 pte (PA2PTE pa OR perm OR PTE_V))
     (if a = lst then ret 0
      else if a < a + PGSIZE then mappages_loop pagetable (a + PGSIZE) lst (pa + PGSIZE) perm
      else stop Diverged)))"
  by auto
termination
  by (relation "measure (\<lambda>(pt, a, l, pa, perm). 2 ^ 64 - unat a)") (auto intro: page_up_measure)

declare mappages_loop.simps [simp del]

definition mappages :: "addr \<Rightarrow> addr \<Rightarrow> 64 word \<Rightarrow> addr \<Rightarrow> 64 word \<Rightarrow> int kernel" where
  "mappages pagetable va sz pa perm =
     (if va mod PGSIZE \<noteq> 0 then panic ''mappages: va not aligned''
      else if sz mod PGSIZE \<noteq> 0 then panic ''mappages: size not aligned''
      else if sz = 0 then panic ''mappages: size''
      else mappages_loop pagetable va (va + sz - PGSIZE) pa perm)"

function uvmunmap_loop :: "addr \<Rightarrow> addr \<Rightarrow> addr \<Rightarrow> bool \<Rightarrow> unit kernel" where
  "uvmunmap_loop pagetable a e do_free =
     (if \<not> a < e then skip else
      bind (walk pagetable a False) (\<lambda>pte.
      if pte = 0 then panic ''uvmunmap: walk'' else
      bind (rd64 pte) (\<lambda>v.
      if v AND PTE_V = 0 then panic ''uvmunmap: not mapped''
      else if PTE_FLAGS v = PTE_V then panic ''uvmunmap: not a leaf''
      else andthen (if do_free then kfree (PTE2PA v) else skip)
        (andthen (wr64 pte 0)
        (if a < a + PGSIZE then uvmunmap_loop pagetable (a + PGSIZE) e do_free else stop Diverged)))))"
  by auto
termination
  by (relation "measure (\<lambda>(pt, a, e, f). 2 ^ 64 - unat a)") (auto intro: page_up_measure)

declare uvmunmap_loop.simps [simp del]

definition uvmunmap :: "addr \<Rightarrow> addr \<Rightarrow> 64 word \<Rightarrow> bool \<Rightarrow> unit kernel" where
  "uvmunmap pagetable va npages do_free =
     (if va mod PGSIZE \<noteq> 0 then panic ''uvmunmap: not aligned''
      else uvmunmap_loop pagetable va (va + npages * PGSIZE) do_free)"

definition uvmcreate :: "addr kernel" where
  "uvmcreate =
     bind kalloc (\<lambda>pagetable.
     if pagetable = 0 then ret 0 else
     andthen (fill_page pagetable 0) (ret pagetable))"

definition uvmfirst :: "addr \<Rightarrow> byte list \<Rightarrow> 32 word \<Rightarrow> unit kernel" where
  "uvmfirst pagetable src sz =
     (if 4096 \<le> sz then panic ''uvmfirst: more than a page'' else
      bind kalloc (\<lambda>p.
      andthen (nonnull p)
      (andthen (fill_page p 0)
      (andthen (mappages pagetable 0 PGSIZE p (PTE_W OR PTE_R OR PTE_X OR PTE_U))
      (modify (\<lambda>w. w\<lparr>mem := store_bytes (mem w) p (take (unat sz) src)\<rparr>))))))"

definition uvmdealloc :: "addr \<Rightarrow> 64 word \<Rightarrow> 64 word \<Rightarrow> 64 word kernel" where
  "uvmdealloc pagetable oldsz newsz =
     (if oldsz \<le> newsz then ret oldsz else
      andthen (if PGROUNDUP newsz < PGROUNDUP oldsz
               then uvmunmap pagetable (PGROUNDUP newsz)
                 (scast (ucast ((PGROUNDUP oldsz - PGROUNDUP newsz) div PGSIZE) :: 32 word)) True
               else skip)
      (ret newsz))"

function uvmalloc_loop :: "addr \<Rightarrow> 64 word \<Rightarrow> 64 word \<Rightarrow> 64 word \<Rightarrow> 64 word \<Rightarrow> 64 word kernel" where
  "uvmalloc_loop pagetable oldsz a newsz xperm =
     (if \<not> a < newsz then ret newsz else
      bind kalloc (\<lambda>p.
      if p = 0 then andthen (uvmdealloc pagetable a oldsz) (ret 0) else
      andthen (fill_page p 0)
      (bind (mappages pagetable a PGSIZE p (PTE_R OR PTE_U OR xperm)) (\<lambda>r.
      if r \<noteq> 0 then andthen (kfree p) (andthen (uvmdealloc pagetable a oldsz) (ret 0))
      else if a < a + PGSIZE then uvmalloc_loop pagetable oldsz (a + PGSIZE) newsz xperm
      else stop Diverged))))"
  by auto
termination
  by (relation "measure (\<lambda>(pt, s, a, n, x). 2 ^ 64 - unat a)") (auto intro: page_up_measure)

declare uvmalloc_loop.simps [simp del]

definition uvmalloc :: "addr \<Rightarrow> 64 word \<Rightarrow> 64 word \<Rightarrow> 64 word \<Rightarrow> 64 word kernel" where
  "uvmalloc pagetable oldsz newsz xperm =
     (if newsz < oldsz then ret oldsz
      else uvmalloc_loop pagetable (PGROUNDUP oldsz) (PGROUNDUP oldsz) newsz xperm)"

text \<open>
  \<open>freewalk\<close> recurses through the tables. The first argument bounds the depth of the recursion: the
  kernel stack is one page, and a RISC-V stack frame takes at least 16 bytes of it.
\<close>

primrec freewalk_depth :: "nat \<Rightarrow> addr \<Rightarrow> unit kernel" where
  "freewalk_depth 0 pagetable = stop Diverged"
| "freewalk_depth (Suc d) pagetable =
     andthen (for_each [0..<512] (\<lambda>i.
       bind (rd64 (pagetable + 8 * of_nat i)) (\<lambda>pte.
       if pte AND PTE_V \<noteq> 0 \<and> pte AND (PTE_R OR PTE_W OR PTE_X) = 0
       then andthen (freewalk_depth d (PTE2PA pte)) (wr64 (pagetable + 8 * of_nat i) 0)
       else if pte AND PTE_V \<noteq> 0 then panic ''freewalk: leaf''
       else skip)))
     (kfree pagetable)"

definition freewalk :: "addr \<Rightarrow> unit kernel" where
  "freewalk = freewalk_depth 256"

definition uvmfree :: "addr \<Rightarrow> 64 word \<Rightarrow> unit kernel" where
  "uvmfree pagetable sz =
     andthen (if 0 < sz then uvmunmap pagetable 0 (PGROUNDUP sz div PGSIZE) True else skip)
     (freewalk pagetable)"

function uvmcopy_loop :: "addr \<Rightarrow> addr \<Rightarrow> 64 word \<Rightarrow> 64 word \<Rightarrow> int kernel" where
  "uvmcopy_loop old new i sz =
     (if \<not> i < sz then ret 0 else
      bind (walk old i False) (\<lambda>pte.
      if pte = 0 then panic ''uvmcopy: pte should exist'' else
      bind (rd64 pte) (\<lambda>e.
      if e AND PTE_V = 0 then panic ''uvmcopy: page not present'' else
      bind kalloc (\<lambda>p.
      if p = 0 then andthen (uvmunmap new 0 (i div PGSIZE) True) (ret (- 1)) else
      andthen (modify (\<lambda>w. w\<lparr>mem := memmove (mem w) p (PTE2PA e) 4096\<rparr>))
      (bind (mappages new i PGSIZE p (PTE_FLAGS e)) (\<lambda>r.
      if r \<noteq> 0 then andthen (kfree p) (andthen (uvmunmap new 0 (i div PGSIZE) True) (ret (- 1)))
      else if i < i + PGSIZE then uvmcopy_loop old new (i + PGSIZE) sz
      else stop Diverged))))))"
  by auto
termination
  by (relation "measure (\<lambda>(old, n, i, sz). 2 ^ 64 - unat i)") (auto intro: page_up_measure)

declare uvmcopy_loop.simps [simp del]

definition uvmcopy :: "addr \<Rightarrow> addr \<Rightarrow> 64 word \<Rightarrow> int kernel" where
  "uvmcopy old new sz = uvmcopy_loop old new 0 sz"

definition uvmclear :: "addr \<Rightarrow> addr \<Rightarrow> unit kernel" where
  "uvmclear pagetable va =
     bind (walk pagetable va False) (\<lambda>pte.
     if pte = 0 then panic ''uvmclear'' else
     bind (rd64 pte) (\<lambda>e. wr64 pte (e AND NOT PTE_U)))"

section \<open>Copying between user and kernel\<close>

definition chunk :: "addr \<Rightarrow> nat \<Rightarrow> nat" where
  \<comment> \<open>how many of the next \<open>len\<close> bytes lie on the page of \<open>va\<close>\<close>
  "chunk va len = min (unat (PGSIZE - (va - PGROUNDDOWN va))) len"

lemma chunk_pos: "0 < len \<Longrightarrow> 0 < chunk va len"
proof -
  assume "0 < len"
  moreover have "unat (va - PGROUNDDOWN va) < 4096" by (simp add: PGROUNDDOWN_offset)
  then have "va - PGROUNDDOWN va < PGSIZE" by (simp add: word_less_nat_alt)
  then have "PGSIZE - (va - PGROUNDDOWN va) \<noteq> 0" by auto
  then have "0 < unat (PGSIZE - (va - PGROUNDDOWN va))" by (simp add: unat_gt_0)
  ultimately show ?thesis by (simp add: chunk_def)
qed

function copyout :: "addr \<Rightarrow> addr \<Rightarrow> byte list \<Rightarrow> int kernel" where
  "copyout pagetable dstva src =
     (if src = [] then ret 0 else
      let va0 = PGROUNDDOWN dstva; n = chunk dstva (length src) in
      if MAXVA \<le> va0 then ret (- 1) else
      bind (walk pagetable va0 False) (\<lambda>pte.
      if pte = 0 then ret (- 1) else
      bind (rd64 pte) (\<lambda>e.
      if e AND PTE_V = 0 \<or> e AND PTE_U = 0 \<or> e AND PTE_W = 0 then ret (- 1) else
      andthen (modify (\<lambda>w. w\<lparr>mem := store_bytes (mem w) (PTE2PA e + (dstva - va0)) (take n src)\<rparr>))
      (copyout pagetable (va0 + PGSIZE) (drop n src)))))"
  by auto
termination
  by (relation "measure (\<lambda>(pt, va, src). length src)") (auto simp: chunk_pos)

declare copyout.simps [simp del]

function copyin :: "addr \<Rightarrow> addr \<Rightarrow> nat \<Rightarrow> (int \<times> byte list) kernel" where
  "copyin pagetable srcva len =
     (if len = 0 then ret (0, []) else
      let va0 = PGROUNDDOWN srcva; n = chunk srcva len in
      bind (walkaddr pagetable va0) (\<lambda>pa0.
      if pa0 = 0 then ret (- 1, []) else
      bind (gets (\<lambda>w. load_bytes (mem w) (pa0 + (srcva - va0)) n)) (\<lambda>bs.
      bind (copyin pagetable (va0 + PGSIZE) (len - n)) (\<lambda>(r, rest).
      ret (r, bs @ rest)))))"
  by auto
termination
  by (relation "measure (\<lambda>(pt, va, len). len)") (auto simp: chunk_pos)

declare copyin.simps [simp del]

text \<open>
  The inner loop of \<open>copyinstr\<close> over the bytes of one page: the bytes stored, and whether the
  terminating zero was among them.
\<close>

primrec str_chunk :: "byte list \<Rightarrow> byte list \<times> bool" where
  "str_chunk [] = ([], False)"
| "str_chunk (b # bs) = (if b = 0 then ([0], True) else let (cs, z) = str_chunk bs in (b # cs, z))"

function copyinstr :: "addr \<Rightarrow> addr \<Rightarrow> nat \<Rightarrow> (int \<times> byte list) kernel" where
  "copyinstr pagetable srcva max_len =
     (if max_len = 0 then ret (- 1, []) else
      let va0 = PGROUNDDOWN srcva; n = chunk srcva max_len in
      bind (walkaddr pagetable va0) (\<lambda>pa0.
      if pa0 = 0 then ret (- 1, []) else
      bind (gets (\<lambda>w. str_chunk (load_bytes (mem w) (pa0 + (srcva - va0)) n))) (\<lambda>(bs, got_null).
      if got_null then ret (0, bs) else
      bind (copyinstr pagetable (va0 + PGSIZE) (max_len - n)) (\<lambda>(r, rest).
      ret (r, bs @ rest)))))"
  by auto
termination
  by (relation "measure (\<lambda>(pt, va, max_len). max_len)") (auto simp: chunk_pos)

declare copyinstr.simps [simp del]

section \<open>The kernel's page table\<close>

definition kvmmap :: "addr \<Rightarrow> addr \<Rightarrow> addr \<Rightarrow> 64 word \<Rightarrow> 64 word \<Rightarrow> unit kernel" where
  "kvmmap kpgtbl va pa sz perm =
     bind (mappages kpgtbl va sz pa perm) (\<lambda>r.
     if r \<noteq> 0 then panic ''kvmmap'' else skip)"

definition proc_mapstacks :: "addr \<Rightarrow> unit kernel" where
  "proc_mapstacks kpgtbl =
     for_each [0..<NPROC] (\<lambda>p.
       bind kalloc (\<lambda>pa.
       if pa = 0 then panic ''kalloc'' else
       kvmmap kpgtbl (KSTACK p) pa PGSIZE (PTE_R OR PTE_W)))"

definition kvmmake :: "addr kernel" where
  "kvmmake =
     bind kalloc (\<lambda>kpgtbl.
     andthen (nonnull kpgtbl)
     (andthen (fill_page kpgtbl 0)
     (andthen (kvmmap kpgtbl UART0 UART0 PGSIZE (PTE_R OR PTE_W))
     (andthen (kvmmap kpgtbl VIRTIO0 VIRTIO0 PGSIZE (PTE_R OR PTE_W))
     (andthen (kvmmap kpgtbl PLIC PLIC 0x4000000 (PTE_R OR PTE_W))
     (bind (gets etext) (\<lambda>et.
      andthen (kvmmap kpgtbl KERNBASE KERNBASE (et - KERNBASE) (PTE_R OR PTE_X))
     (andthen (kvmmap kpgtbl et et (PHYSTOP - et) (PTE_R OR PTE_W))
     (bind (gets trampoline) (\<lambda>tr.
      andthen (kvmmap kpgtbl TRAMPOLINE tr PGSIZE (PTE_R OR PTE_X))
     (andthen (proc_mapstacks kpgtbl)
     (ret kpgtbl))))))))))))"

definition kvminit :: "unit kernel" where
  "kvminit = bind kvmmake (\<lambda>p. modify (\<lambda>w. w\<lparr>kernel_pagetable := p\<rparr>))"

definition kvminithart :: "unit kernel" where
  "kvminithart = bind (gets kernel_pagetable) (\<lambda>p. w_csr Satp (MAKE_SATP p))"

end
