(* ===== verification/Pagetable.thy ===== *)
theory Pagetable
  imports Vm "HOL-Library.Sublist"
begin

unbundle bit_operations_syntax

text \<open>
  The meaning of the page tables that \<open>kernel/vm.c\<close> builds. A table page is named by its path, the
  list of indices that leads to it from the root; a page table is well formed when every path
  leads to a page of its own (\<open>ptwf\<close>), and means the partial map \<open>leaf\<close> from virtual pages to
  entries. \<open>walk\<close> is shown to compute that map, and the routines that map and unmap pages to update
  it.
\<close>

section \<open>Entries\<close>

abbreviation px :: "nat \<Rightarrow> addr \<Rightarrow> nat" where
  "px level va \<equiv> unat (PX level va)"

abbreviation valid :: "64 word \<Rightarrow> bool" where
  "valid e \<equiv> e AND PTE_V \<noteq> 0"

definition entry :: "memory \<Rightarrow> addr \<Rightarrow> nat \<Rightarrow> 64 word" where
  "entry m p i = load64 m (p + 8 * of_nat i)"

lemma bit_PX: "bit (PX level va) j \<longleftrightarrow> j < 9 \<and> bit va (12 + 9 * level + j)"
proof -
  have mask: "PXMASK = mask 9" by (simp add: PXMASK_def mask_eq_exp_minus_1)
  show ?thesis unfolding PX_def mask
    by (auto simp: PXSHIFT_def PGSHIFT_def bit_simps add.commute dest: bit_imp_le_length)
qed

lemma px_less [simp]: "px level va < 512"
proof -
  have "PX level va = take_bit 9 (PX level va)"
    by (rule bit_word_eqI) (auto simp: bit_PX bit_simps)
  then have "unat (PX level va) = take_bit 9 (unat (PX level va))"
    by (metis unsigned_take_bit_eq)
  also have "\<dots> < 2 ^ 9" by (rule take_bit_nat_less_exp)
  finally show ?thesis by simp
qed

lemma of_nat_px [simp]: "of_nat (px level va) = PX level va"
  by simp

lemma same_page_iff:
  assumes "va < MAXVA" and "va' < MAXVA"
  shows "PGROUNDDOWN va = PGROUNDDOWN va' \<longleftrightarrow> PX 2 va = PX 2 va' \<and> PX 1 va = PX 1 va' \<and> PX 0 va = PX 0 va'"
proof -
  have "MAXVA = 2 ^ 38" by (simp add: MAXVA_def)
  then have high: "\<not> bit va j" "\<not> bit va' j" if "38 \<le> j" for j
    using not_bit_above [of va 38 j] not_bit_above [of va' 38 j] assms that by simp_all
  have pd: "PGROUNDDOWN a = PGROUNDDOWN b \<longleftrightarrow> (\<forall>j\<ge>12. bit a j = bit b j)" for a b :: addr
  proof -
    have "j < 64" if "bit x j" for x :: addr and j using bit_imp_le_length [OF that] by simp
    then show ?thesis unfolding PGROUNDDOWN_def pgmask bit_eq_iff
      by (auto simp: bit_simps not_less)
  qed
  have px: "PX l va = PX l va' \<longleftrightarrow> (\<forall>j<9. bit va (12 + 9 * l + j) = bit va' (12 + 9 * l + j))" for l
  proof
    assume e: "PX l va = PX l va'"
    show "\<forall>j<9. bit va (12 + 9 * l + j) = bit va' (12 + 9 * l + j)"
      using bit_PX [of l va] bit_PX [of l va'] unfolding e by blast
  next
    assume "\<forall>j<9. bit va (12 + 9 * l + j) = bit va' (12 + 9 * l + j)"
    then show "PX l va = PX l va'" by (intro bit_word_eqI) (auto simp: bit_PX)
  qed
  have "(\<forall>j\<ge>12. bit va j = bit va' j)"
    if e: "PX 2 va = PX 2 va'" "PX 1 va = PX 1 va'" "PX 0 va = PX 0 va'"
  proof (intro allI impI)
    fix j :: nat assume j: "12 \<le> j"
    consider "j < 21" | "21 \<le> j" "j < 30" | "30 \<le> j" "j < 39" | "39 \<le> j" by linarith
    then show "bit va j = bit va' j"
    proof cases
      case 1
      then have "bit va (12 + 9 * 0 + (j - 12)) = bit va' (12 + 9 * 0 + (j - 12))"
        using j by (intro iffD1 [OF px e(3), rule_format]) linarith
      with 1 j show ?thesis by simp
    next
      case 2
      then have "bit va (12 + 9 * 1 + (j - 21)) = bit va' (12 + 9 * 1 + (j - 21))"
        using j by (intro iffD1 [OF px e(2), rule_format]) linarith
      with 2 j show ?thesis by simp
    next
      case 3
      then have "bit va (12 + 9 * 2 + (j - 30)) = bit va' (12 + 9 * 2 + (j - 30))"
        using j by (intro iffD1 [OF px e(1), rule_format]) linarith
      with 3 j show ?thesis by simp
    next
      case 4
      then show ?thesis using high by simp
    qed
  qed
  moreover have "PX l va = PX l va'" if "\<forall>j\<ge>12. bit va j = bit va' j" for l
    unfolding px using that by simp
  ultimately show ?thesis unfolding pd by blast
qed

lemma slot_in_page: "i < 512 \<Longrightarrow> in_page p (p + 8 * of_nat i)"
  using in_page_offset [of "8 * i" p] by simp

lemma slot_eq_iff:
  assumes "page_aligned p" "page_aligned q" "i < 512" "j < 512"
  shows "p + 8 * of_nat i = q + 8 * of_nat j \<longleftrightarrow> p = q \<and> i = j"
proof
  assume e: "p + 8 * of_nat i = q + 8 * of_nat j"
  then have "p = q" using pages_disjoint [OF assms(1,2)] slot_in_page assms(3,4) by metis
  with e have "of_nat (8 * i) = (of_nat (8 * j) :: addr)" by simp
  then have "unat (of_nat (8 * i) :: addr) = unat (of_nat (8 * j) :: addr)" by (rule arg_cong)
  then have "8 * i = 8 * j"
    using of_nat_less_word [of "8 * i", where 'a = 64] of_nat_less_word [of "8 * j", where 'a = 64] assms(3,4)
    by simp
  with \<open>p = q\<close> show "p = q \<and> i = j" by simp
qed simp

lemma slot_aligned:
  assumes "page_aligned p" "i < 512"
  shows "unat (p + 8 * of_nat i) mod 8 = 0"
proof -
  have "4096 dvd unat p" using assms(1) by (simp add: page_aligned_def dvd_eq_mod_eq_0)
  then obtain k where k: "unat p = 4096 * k" by (elim dvdE)
  have i: "unat (8 * of_nat i :: addr) = 8 * i"
    using of_nat_less_word [of "8 * i", where 'a = 64] assms(2) by simp
  have "4096 * k < 4096 * 2 ^ 52" using unat_bound [of p] unfolding k by simp
  then have "k < 2 ^ 52" by simp
  then have "unat p + unat (8 * of_nat i :: addr) < 2 ^ 64" unfolding k i using assms(2) by simp
  then have "unat (p + 8 * of_nat i) = 4096 * k + 8 * i" using unat_add_no_wrap [of p "8 * of_nat i"] k i by simp
  also have "\<dots> = 8 * (512 * k + i)" by simp
  finally show ?thesis by simp
qed

lemma entry_store:
  assumes "page_aligned p" "page_aligned q" "i < 512" "j < 512"
  shows "entry (store64 m (p + 8 * of_nat i) v) q j = (if p = q \<and> i = j then v else entry m q j)"
proof (cases "p = q \<and> i = j")
  case True
  then show ?thesis by (simp add: entry_def load64_store64)
next
  case False
  then have "p + 8 * of_nat i \<noteq> q + 8 * of_nat j" using slot_eq_iff [OF assms] by simp
  then show ?thesis unfolding entry_def
    using load64_store64_other [OF slot_aligned [OF assms(1,3)] slot_aligned [OF assms(2,4)]] False by auto
qed

lemma entry_page_cong:
  assumes "i < 512" and "\<And>x. in_page p x \<Longrightarrow> m x = m' x"
  shows "entry m p i = entry m' p i"
  unfolding entry_def load64_def
proof (intro arg_cong [of _ _ word_of] load_bytes_cong)
  fix k :: nat assume "k < 8"
  then have "in_page p (p + of_nat (8 * i + k))" using assms(1) by (intro in_page_offset) simp
  then show "m (p + 8 * of_nat i + of_nat k) = m' (p + 8 * of_nat i + of_nat k)"
    using assms(2) by (simp add: add.assoc)
qed

lemma store64_slot_outside:
  assumes "page_aligned p" "i < 512" "\<not> in_page p x"
  shows "store64 m (p + 8 * of_nat i) v x = m x"
proof (rule ccontr)
  assume "store64 m (p + 8 * of_nat i) v x \<noteq> m x"
  then have "unat (x - (p + 8 * of_nat i)) < 8" by (auto simp: store64_apply split: if_splits)
  define k where "k = unat (x - (p + 8 * of_nat i))"
  have "x = p + of_nat (8 * i + k)" by (simp add: k_def)
  moreover have "8 * i + k < 4096" using assms(2) \<open>unat _ < 8\<close> by (simp add: k_def)
  ultimately show False using in_page_offset assms(3) by metis
qed

lemma entry_zero_page: "i < 512 \<Longrightarrow> (\<And>x. in_page p x \<Longrightarrow> m x = 0) \<Longrightarrow> entry m p i = 0"
proof -
  assume i: "i < 512" and "\<And>x. in_page p x \<Longrightarrow> m x = 0"
  then have "entry m p i = entry (\<lambda>_. 0) p i" by (intro entry_page_cong) auto
  also have "\<dots> = 0" by (simp add: entry_def load64_def load_bytes_def upt_rec)
  finally show ?thesis .
qed

section \<open>Tables and paths\<close>

fun tbl :: "memory \<Rightarrow> addr \<Rightarrow> nat list \<Rightarrow> addr option" where
  "tbl m p [] = Some p"
| "tbl m p (i # is) = (let e = entry m p i in if valid e then tbl m (PTE2PA e) is else None)"

definition vpath :: "nat list \<Rightarrow> bool" where
  "vpath is \<longleftrightarrow> length is \<le> 2 \<and> (\<forall>i \<in> set is. i < 512)"

definition tables :: "memory \<Rightarrow> addr \<Rightarrow> addr set" where
  "tables m root = {p. \<exists>is. vpath is \<and> tbl m root is = Some p}"

definition ptwf :: "memory \<Rightarrow> addr \<Rightarrow> bool" where
  "ptwf m root \<longleftrightarrow> (\<forall>p \<in> tables m root. page_aligned p)
     \<and> (\<forall>is js p. vpath is \<longrightarrow> vpath js \<longrightarrow> tbl m root is = Some p \<longrightarrow> tbl m root js = Some p \<longrightarrow> is = js)"

definition path :: "addr \<Rightarrow> nat list" where
  "path va = [px 2 va, px 1 va]"

definition leaf :: "memory \<Rightarrow> addr \<Rightarrow> addr \<Rightarrow> 64 word option" where
  \<comment> \<open>the valid entry for the page of \<open>va\<close>\<close>
  "leaf m root va = (case tbl m root (path va) of None \<Rightarrow> None
     | Some p \<Rightarrow> let e = entry m p (px 0 va) in if valid e then Some e else None)"

lemma vpath_path [simp]: "vpath (path va)"
  by (simp add: vpath_def path_def)

lemma length_path [simp]: "length (path va) = 2"
  by (simp add: path_def)

lemma same_page_path:
  "va < MAXVA \<Longrightarrow> va' < MAXVA \<Longrightarrow>
   path va = path va' \<and> px 0 va = px 0 va' \<longleftrightarrow> PGROUNDDOWN va' = PGROUNDDOWN va"
  using same_page_iff [of va va'] by (auto simp: path_def word_unat_eq_iff)

lemma vpath_append: "vpath (is @ js) \<Longrightarrow> vpath is"
  by (auto simp: vpath_def)

lemma tbl_append: "tbl m p (is @ js) = (case tbl m p is of None \<Rightarrow> None | Some q \<Rightarrow> tbl m q js)"
  by (induction "is" arbitrary: p) (auto simp: Let_def)

lemma tablesI: "vpath is \<Longrightarrow> tbl m root is = Some p \<Longrightarrow> p \<in> tables m root"
  by (auto simp: tables_def)

lemma root_in_tables [simp]: "root \<in> tables m root"
  by (rule tablesI [of "[]"]) (simp_all add: vpath_def)

lemma tbl_agree:
  assumes "\<And>p x. p \<in> tables m root \<Longrightarrow> in_page p x \<Longrightarrow> m' x = m x"
  shows "vpath (ks @ js) \<Longrightarrow> tbl m root ks = Some q \<Longrightarrow> tbl m' q js = tbl m q js"
proof (induction js arbitrary: ks q)
  case (Cons j js)
  have j: "j < 512" using Cons.prems(1) by (simp add: vpath_def)
  have "q \<in> tables m root" using Cons.prems vpath_append by (blast intro: tablesI)
  then have e: "entry m' q j = entry m q j" using assms j by (intro entry_page_cong) auto
  show ?case
  proof (cases "valid (entry m q j)")
    case True
    with Cons.prems have "tbl m root (ks @ [j]) = Some (PTE2PA (entry m q j))"
      by (simp add: tbl_append Let_def)
    with Cons.IH [of "ks @ [j]"] Cons.prems show ?thesis using True e by (simp add: Let_def)
  qed (simp add: e Let_def)
qed simp

lemma tbl_agree_root:
  "(\<And>p x. p \<in> tables m root \<Longrightarrow> in_page p x \<Longrightarrow> m' x = m x) \<Longrightarrow> vpath js \<Longrightarrow> tbl m' root js = tbl m root js"
  using tbl_agree [of m root m' "[]" js root] by simp

text \<open>Writing entry \<open>i\<close> of the table at path \<open>is\<close> changes only what lies beyond that entry.\<close>

lemma tbl_store:
  assumes wf: "ptwf m root" and p: "vpath is" "tbl m root is = Some p" "i < 512"
  shows "vpath (ks @ js) \<Longrightarrow> tbl m root ks = Some q \<Longrightarrow> \<not> prefix (is @ [i]) (ks @ js) \<Longrightarrow>
    tbl (store64 m (p + 8 * of_nat i) v) q js = tbl m q js"
proof (induction js arbitrary: ks q)
  case (Cons j js)
  have j: "j < 512" "vpath ks" using Cons.prems(1) by (auto simp: vpath_def)
  have "page_aligned p" "page_aligned q" using wf p j(2) Cons.prems(2) by (auto simp: ptwf_def intro: tablesI)
  moreover have "\<not> (p = q \<and> i = j)"
  proof
    assume "p = q \<and> i = j"
    then have "ks = is" using wf p j(2) Cons.prems(2) by (auto simp: ptwf_def)
    with \<open>p = q \<and> i = j\<close> Cons.prems(3) show False by simp
  qed
  ultimately have e: "entry (store64 m (p + 8 * of_nat i) v) q j = entry m q j"
    using entry_store [OF _ _ p(3) j(1)] by auto
  show ?case
  proof (cases "valid (entry m q j)")
    case True
    with Cons.prems have "tbl m root (ks @ [j]) = Some (PTE2PA (entry m q j))"
      by (simp add: tbl_append Let_def)
    with Cons.IH [of "ks @ [j]"] Cons.prems show ?thesis using True e by (simp add: Let_def)
  qed (simp add: e Let_def)
qed simp

lemma tbl_store_root:
  assumes "ptwf m root" "vpath is" "tbl m root is = Some p" "i < 512" "vpath js" "\<not> prefix (is @ [i]) js"
  shows "tbl (store64 m (p + 8 * of_nat i) v) root js = tbl m root js"
  using tbl_store [OF assms(1-4), of "[]" js root] assms(5,6) by simp

text \<open>Storing into a bottom-level table: paths stay, and one virtual page changes its entry.\<close>

lemma tbl_store_leaf:
  assumes "ptwf m root" "vpath is" "length is = 2" "tbl m root is = Some p" "i < 512" "vpath js"
  shows "tbl (store64 m (p + 8 * of_nat i) v) root js = tbl m root js"
proof (rule tbl_store_root [OF assms(1,2,4,5,6)])
  show "\<not> prefix (is @ [i]) js"
    using assms(3,6) by (auto simp: vpath_def dest!: prefix_length_le)
qed

lemma tables_store_leaf:
  assumes "ptwf m root" "vpath is" "length is = 2" "tbl m root is = Some p" "i < 512"
  shows "tables (store64 m (p + 8 * of_nat i) v) root = tables m root"
  unfolding tables_def using tbl_store_leaf [OF assms] by auto

lemma ptwf_store_leaf:
  assumes "ptwf m root" "vpath is" "length is = 2" "tbl m root is = Some p" "i < 512"
  shows "ptwf (store64 m (p + 8 * of_nat i) v) root"
  using assms(1) unfolding ptwf_def tables_store_leaf [OF assms]
  by (auto simp: tbl_store_leaf [OF assms])

lemma leaf_store_leaf:
  assumes wf: "ptwf m root" and p: "tbl m root (path va) = Some p" and "va < MAXVA" "va' < MAXVA"
  shows "leaf (store64 m (p + 8 * PX 0 va) v) root va' =
    (if PGROUNDDOWN va' = PGROUNDDOWN va then if valid v then Some v else None else leaf m root va')"
proof -
  let ?m = "store64 m (p + 8 * PX 0 va) v"
  have m: "?m = store64 m (p + 8 * of_nat (px 0 va)) v" by simp
  have t: "tbl ?m root (path va') = tbl m root (path va')"
    unfolding m by (rule tbl_store_leaf [OF wf _ _ p]) simp_all
  show ?thesis
  proof (cases "tbl m root (path va')")
    case None
    then have "PGROUNDDOWN va' \<noteq> PGROUNDDOWN va"
      using p same_page_path [OF assms(3,4)] by auto
    then show ?thesis using None by (simp add: leaf_def t)
  next
    case (Some q)
    then have al: "page_aligned p" "page_aligned q"
      using wf p vpath_path unfolding ptwf_def by (meson tablesI)+
    have "p = q \<longleftrightarrow> path va = path va'"
      using wf p Some vpath_path [of va] vpath_path [of va'] unfolding ptwf_def by force
    then have "p = q \<and> px 0 va = px 0 va' \<longleftrightarrow> PGROUNDDOWN va' = PGROUNDDOWN va"
      using same_page_path [OF assms(3,4)] by simp
    then have "entry ?m q (px 0 va') =
        (if PGROUNDDOWN va' = PGROUNDDOWN va then v else entry m q (px 0 va'))"
      using entry_store [OF al px_less [of 0 va] px_less [of 0 va']] by simp
    then show ?thesis by (simp add: leaf_def t Some Let_def)
  qed
qed

section \<open>Hooking a new table into the tree\<close>

lemma PTE2PA_new_table: "page_aligned q \<Longrightarrow> q < PHYSTOP \<Longrightarrow> PTE2PA (PA2PTE q OR PTE_V) = q"
proof (rule PTE2PA_PA2PTE)
  assume "q < PHYSTOP"
  then show "q < 2 ^ 56" by (rule order_less_trans) (simp add: layout)
qed (simp_all add: page_aligned_def layout)

lemma PTE_V_nonzero [simp]: "PTE_V \<noteq> 0"
  by (simp add: PTE_V_def)

lemma valid_pte [simp]: "(x OR (y OR PTE_V)) AND PTE_V = PTE_V"
  by (rule bit_word_eqI) (auto simp: bit_simps)

lemma tbl_new_table:
  assumes wf: "ptwf m root" and p: "vpath is" "length is < 2" "tbl m root is = Some p" "i < 512"
    and free: "\<not> valid (entry m p i)"
    and q: "page_aligned q" "q < PHYSTOP" "q \<notin> tables m root"
    and m1: "\<forall>x. in_page q x \<longrightarrow> m1 x = 0" "\<forall>x. \<not> in_page q x \<longrightarrow> m1 x = m x"
    and m2: "m2 = store64 m1 (p + 8 * of_nat i) (PA2PTE q OR PTE_V)" and js: "vpath js"
  shows "tbl m2 root js = (if js = is @ [i] then Some q else tbl m root js)"
    and "prefix (is @ [i]) js \<Longrightarrow> tbl m root js = None"
proof -
  have al: "page_aligned r" if "r \<in> tables m root" for r using wf that by (simp add: ptwf_def)
  have agree: "m1 x = m x" if "r \<in> tables m root" "in_page r x" for r x
    using that q(1,3) al pages_disjoint [of r q x] m1(2) by metis
  have t1: "tbl m1 root ks = tbl m root ks" if "vpath ks" for ks
    using tbl_agree_root [of m root m1 ks] agree that by blast
  have "tables m1 root = tables m root" unfolding tables_def using t1 by auto
  then have wf1: "ptwf m1 root" using wf t1 unfolding ptwf_def by metis
  have p1: "tbl m1 root is = Some p" using t1 p by simp
  have pt: "p \<in> tables m root" using p by (intro tablesI)
  then have pq: "p \<noteq> q" using q(3) by auto
  have e2: "entry m2 p i = PA2PTE q OR PTE_V"
    unfolding m2 using entry_store [OF al [OF pt] al [OF pt] p(4) p(4)] by simp
  have eq: "entry m2 q j = 0" if "j < 512" for j
    unfolding m2 using entry_store [OF al [OF pt] q(1) p(4) that] pq entry_zero_page [OF that, of q m1] m1(1) by simp
  have is2: "tbl m2 root is = Some p"
    unfolding m2 using tbl_store_root [OF wf1 p(1) p1 p(4) p(1)] p1 by simp
  show none: "tbl m root js = None" if "prefix (is @ [i]) js"
  proof -
    obtain ks where "js = is @ i # ks" using \<open>prefix _ js\<close> by (auto simp: prefix_def)
    then show ?thesis using p(3) free by (simp add: tbl_append Let_def)
  qed
  show "tbl m2 root js = (if js = is @ [i] then Some q else tbl m root js)"
  proof (cases "prefix (is @ [i]) js")
    case False
    then show ?thesis unfolding m2 using tbl_store_root [OF wf1 p(1) p1 p(4) js False] t1 [OF js] by auto
  next
    case True
    then obtain ks where ks: "js = is @ i # ks" by (auto simp: prefix_def)
    then have "tbl m2 root js = tbl m2 q ks"
      using is2 e2 PTE2PA_new_table [OF q(1,2)] by (simp add: tbl_append Let_def)
    moreover have "tbl m2 q ks = (if ks = [] then Some q else None)"
      using eq js ks by (cases ks) (auto simp: vpath_def Let_def)
    ultimately show ?thesis using none True ks by auto
  qed
qed

lemma new_table:
  assumes "ptwf m root" "vpath is" "length is < 2" "tbl m root is = Some p" "i < 512"
    "\<not> valid (entry m p i)" "page_aligned q" "q < PHYSTOP" "q \<notin> tables m root"
    "\<forall>x. in_page q x \<longrightarrow> m1 x = 0" "\<forall>x. \<not> in_page q x \<longrightarrow> m1 x = m x"
    "m2 = store64 m1 (p + 8 * of_nat i) (PA2PTE q OR PTE_V)"
  shows "ptwf m2 root" and "tables m2 root = insert q (tables m root)"
    and "tbl m2 root (is @ [i]) = Some q" and "leaf m2 root va = leaf m root va"
proof -
  note t = tbl_new_table [OF assms]
  have v: "vpath (is @ [i])" using assms(2,3,5) by (simp add: vpath_def)
  show tq: "tbl m2 root (is @ [i]) = Some q" using t(1) [OF v] by simp
  have "tbl m2 root js = Some r" if "vpath js" "tbl m root js = Some r" for js r
    using t [OF that(1)] that(2) by (cases "js = is @ [i]") auto
  then show tb: "tables m2 root = insert q (tables m root)"
    unfolding tables_def using t(1) v tq by (auto split: if_splits)
  show "ptwf m2 root"
    unfolding ptwf_def tb
  proof (intro conjI allI impI ballI)
    fix r assume "r \<in> insert q (tables m root)"
    then show "page_aligned r" using assms(1,7) by (auto simp: ptwf_def)
  next
    fix ks js r assume v: "vpath ks" "vpath js" "tbl m2 root ks = Some r" "tbl m2 root js = Some r"
    moreover have "tbl m root ks \<noteq> Some q" "tbl m root js \<noteq> Some q"
      using v assms(9) by (auto intro: tablesI)
    ultimately show "ks = js" using t(1) [of ks] t(1) [of js] assms(1) by (auto simp: ptwf_def split: if_splits)
  qed
  show "leaf m2 root va = leaf m root va"
  proof (cases "path va = is @ [i]")
    case True
    then have "tbl m2 root (path va) = Some q" "tbl m root (path va) = None"
      using tq t(2) [OF v] by simp_all
    moreover have "entry m2 q (px 0 va) = 0"
    proof -
      have "p \<in> tables m root" using assms(2,4) by (intro tablesI)
      then have "page_aligned p" "p \<noteq> q" using assms(1,9) by (auto simp: ptwf_def)
      then show ?thesis unfolding assms(12)
        using entry_store [OF _ assms(7,5) px_less] entry_zero_page [OF px_less, of q m1] assms(10) by simp
    qed
    ultimately show ?thesis by (simp add: leaf_def)
  next
    case False
    then have t': "tbl m2 root (path va) = tbl m root (path va)" using t(1) [of "path va"] by simp
    show ?thesis
    proof (cases "tbl m root (path va)")
      case (Some r)
      then have r: "r \<in> tables m root" using vpath_path by (blast intro: tablesI)
      have pr: "p \<in> tables m root" using assms(2,4) by (intro tablesI)
      have "p \<noteq> r"
      proof
        assume "p = r"
        then have "is = path va" using assms(1,2,4) Some vpath_path by (auto simp: ptwf_def)
        then show False using assms(3) by simp
      qed
      moreover have "page_aligned p" "page_aligned r" using r pr assms(1) by (auto simp: ptwf_def)
      moreover have "entry m1 r (px 0 va) = entry m r (px 0 va)"
        using assms(7,9,11) \<open>page_aligned r\<close> r pages_disjoint [of r q] by (intro entry_page_cong px_less) metis
      ultimately have "entry m2 r (px 0 va) = entry m r (px 0 va)"
        unfolding assms(12) using entry_store [OF _ _ assms(5) px_less] by simp
      then show ?thesis using Some t' by (simp add: leaf_def)
    qed (simp add: leaf_def t')
  qed
qed

lemma empty_table:
  assumes "page_aligned root" "\<And>x. in_page root x \<Longrightarrow> m x = 0"
  shows "ptwf m root" "tables m root = {root}" "leaf m root va = None"
proof -
  have t: "tbl m root js = (if js = [] then Some root else None)" if "vpath js" for js
    using that assms(2) by (cases js) (auto simp: vpath_def Let_def entry_zero_page)
  have "p = root" if "p \<in> tables m root" for p
    using that t by (auto simp: tables_def split: if_splits)
  then show tb: "tables m root = {root}" by auto
  show "ptwf m root" unfolding ptwf_def tb using assms(1) t by (auto split: if_splits)
  have "path va \<noteq> []" by (simp add: path_def)
  then show "leaf m root va = None" using t [OF vpath_path] by (simp add: leaf_def)
qed

section \<open>walk\<close>

text \<open>
  The state in which page tables are edited: an orderly hart, the free list \<open>ps\<close>, and a well-formed
  table whose pages are not free. \<open>extends\<close> is what \<open>walk\<close> may do to it: take pages off the free
  list and hang them into the tree as empty tables, leaving the map and all other memory as it was.
\<close>

definition vm_ok :: "world \<Rightarrow> addr \<Rightarrow> addr list \<Rightarrow> bool" where
  "vm_ok w root ps \<longleftrightarrow> calm w \<and> free_lock Kmem_lock w \<and> kmem_inv w ps \<and> ptwf (mem w) root
     \<and> (\<forall>p \<in> tables (mem w) root. kpage w p \<and> p \<notin> set ps)"

definition grows :: "addr \<Rightarrow> world \<Rightarrow> addr list \<Rightarrow> world \<Rightarrow> addr list \<Rightarrow> bool" where
  "grows root w ps w' ps' \<longleftrightarrow> vm_ok w' root ps' \<and> only_mem w w' \<and> suffix ps' ps
     \<and> tables (mem w) root \<subseteq> tables (mem w') root
     \<and> tables (mem w') root \<subseteq> tables (mem w) root \<union> set ps
     \<and> (\<forall>x. (\<forall>p \<in> tables (mem w) root \<union> set ps. \<not> in_page p x) \<longrightarrow> mem w' x = mem w x)"

definition extends :: "addr \<Rightarrow> world \<Rightarrow> addr list \<Rightarrow> world \<Rightarrow> addr list \<Rightarrow> bool" where
  "extends root w ps w' ps' \<longleftrightarrow> grows root w ps w' ps' \<and> (\<forall>va. leaf (mem w') root va = leaf (mem w) root va)"

lemma only_memI2: "only_mem w (w\<lparr>freelist := f, mem := m\<rparr>)"
proof -
  have "w\<lparr>freelist := f, mem := m\<rparr> = w\<lparr>mem := m, freelist := f\<rparr>" by simp
  then show ?thesis using only_memI [of w f m] by (simp only:)
qed

lemma grows_refl: "vm_ok w root ps \<Longrightarrow> grows root w ps w ps"
  by (simp add: grows_def)

lemma growsD:
  assumes "grows root w ps w' ps'"
  shows "vm_ok w' root ps'" "only_mem w w'" "suffix ps' ps" "tables (mem w) root \<subseteq> tables (mem w') root"
    "tables (mem w') root \<subseteq> tables (mem w) root \<union> set ps"
    "\<forall>p \<in> tables (mem w) root \<union> set ps. \<not> in_page p x \<Longrightarrow> mem w' x = mem w x"
  using assms unfolding grows_def by blast+

lemma grows_trans:
  assumes "grows root u ps v qs" "grows root v qs w rs"
  shows "grows root u ps w rs"
proof -
  note 1 = growsD [OF assms(1)] and 2 = growsD [OF assms(2)]
  have "set qs \<subseteq> set ps" using 1(3) by (auto simp: suffix_def)
  then have sub: "tables (mem v) root \<union> set qs \<subseteq> tables (mem u) root \<union> set ps"
    using 1(5) by blast
  have "mem w x = mem u x" if "\<forall>p \<in> tables (mem u) root \<union> set ps. \<not> in_page p x" for x
  proof -
    have "\<forall>p \<in> tables (mem v) root \<union> set qs. \<not> in_page p x" using that sub by blast
    then have "mem w x = mem v x" by (rule 2(6))
    also have "\<dots> = mem u x" using that by (rule 1(6))
    finally show ?thesis .
  qed
  with 2(1) only_mem_trans [OF 1(2) 2(2)] suffix_order.trans [OF 2(3) 1(3)] subset_trans [OF 1(4) 2(4)]
    subset_trans [OF 2(5) sub]
  show ?thesis unfolding grows_def by (intro conjI allI impI)
qed

lemma extends_refl: "vm_ok w root ps \<Longrightarrow> extends root w ps w ps"
  by (simp add: extends_def grows_refl)

lemma extends_trans: "extends root u ps v qs \<Longrightarrow> extends root v qs w rs \<Longrightarrow> extends root u ps w rs"
  by (auto simp: extends_def intro: grows_trans)

lemma rd64_run [run_simps]: "rd64 a w = Ok (load64 (mem w) a) w"
  by (simp add: rd64_def)

lemma pte_at_entry: "load64 m (pte_at p level va) = entry m p (px level va)"
  by (simp add: pte_at_def entry_def)

lemma walk_levels_lookup:
  "walk_levels ls p va False w = Ok (tbl (mem w) p (map (\<lambda>l. px l va) ls)) w"
  by (induction ls arbitrary: p) (auto simp: run_simps pte_at_entry Let_def)

lemma walk_lookup:
  "walk root va False w = (if MAXVA \<le> va then Stop (Panic ''walk'') w else
     Ok (case tbl (mem w) root (path va) of None \<Rightarrow> 0 | Some p \<Rightarrow> p + 8 * PX 0 va) w)"
  by (auto simp: walk_def bind_def walk_levels_lookup path_def pte_at_def simp del: walk_levels.simps
      split: option.split)

lemma walk_level_alloc:
  assumes ok: "vm_ok w root ps" and p: "vpath is" "length is < 2" "tbl (mem w) root is = Some p"
    and free: "\<not> valid (entry (mem w) p (px level va))"
  shows "walk_levels (level # ls) p va True w = (case ps of [] \<Rightarrow> Ok None w
    | q # qs \<Rightarrow> walk_levels ls q va True (w\<lparr>freelist := load64 (mem w) q,
        mem := store64 (memset (memset (mem w) q 5 4096) q 0 4096) (pte_at p level va) (PA2PTE q OR PTE_V)\<rparr>))"
proof -
  have "calm w" "free_lock Kmem_lock w" and inv: "kmem_inv w ps" using ok by (simp_all add: vm_ok_def)
  moreover have "q \<noteq> 0" if "ps = q # qs" for q qs
    using inv that by (auto simp: kmem_inv_def)
  ultimately show ?thesis using free
    by (auto simp: run_simps pte_at_entry kalloc_run popped_def fill_page_def wr64_def split: list.split)
qed

lemma extends_new_table:
  assumes ok: "vm_ok w root (q # qs)" and p: "vpath is" "length is < 2" "tbl (mem w) root is = Some p" "i < 512"
    and free: "\<not> valid (entry (mem w) p i)"
    and w': "w' = w\<lparr>freelist := load64 (mem w) q,
        mem := store64 (memset (memset (mem w) q 5 4096) q 0 4096) (p + 8 * of_nat i) (PA2PTE q OR PTE_V)\<rparr>"
  shows "extends root w (q # qs) w' qs" and "tbl (mem w') root (is @ [i]) = Some q"
proof -
  let ?m = "mem w" and ?m1 = "memset (memset (mem w) q 5 4096) q 0 4096"
  have inv: "kmem_inv w (q # qs)" and wf: "ptwf ?m root" and tb: "\<forall>r \<in> tables ?m root. kpage w r \<and> r \<notin> set (q # qs)"
    and calm: "calm w" "free_lock Kmem_lock w"
    using ok by (simp_all add: vm_ok_def)
  have q: "page_aligned q" "q < PHYSTOP" "kpage w q" "q \<notin> tables ?m root"
    using inv tb by (auto simp: kmem_inv_def kpage_def)
  have pt: "p \<in> tables ?m root" using p by (intro tablesI)
  then have pal: "page_aligned p" using wf by (simp add: ptwf_def)
  note new = new_table [OF wf p free q(1,2,4), where ?m1.0 = ?m1 and ?m2.0 = "mem w'"]
  have m1: "\<forall>x. in_page q x \<longrightarrow> ?m1 x = 0" "\<forall>x. \<not> in_page q x \<longrightarrow> ?m1 x = ?m x"
    and m2: "mem w' = store64 ?m1 (p + 8 * of_nat i) (PA2PTE q OR PTE_V)"
    by (simp_all add: memset_page w')
  note new = new [OF m1 m2]
  show "tbl (mem w') root (is @ [i]) = Some q" by (rule new)
  have frame: "mem w' x = mem w x" if "\<not> in_page p x" "\<not> in_page q x" for x
    unfolding m2 using store64_slot_outside [OF pal p(4)] that m1 by simp
  have "kmem_inv (popped (q # qs) w) qs" by (rule popped_inv [OF inv])
  then have inv': "kmem_inv w' qs"
  proof (rule kmem_inv_cong)
    fix r x assume "r \<in> set qs" "in_page r x"
    then have "r \<noteq> q" "page_aligned r" "r \<noteq> p" using inv tb pt by (auto simp: kmem_inv_def kpage_def)
    then have "\<not> in_page q x" "\<not> in_page p x"
      using \<open>in_page r x\<close> pages_disjoint q(1) pal by blast+
    then show "mem w' x = mem (popped (q # qs) w) x" using frame by (simp add: popped_def memset_page)
  qed (simp_all add: w' popped_def)
  have "vm_ok w' root qs"
    unfolding vm_ok_def new(2) using calm inv' new(1) tb q inv by (auto simp: w' kpage_def kmem_inv_def)
  moreover have "only_mem w w'" unfolding w' by (rule only_memI2)
  ultimately show "extends root w (q # qs) w' qs"
    unfolding extends_def grows_def new(2) using new(4) frame pt by (auto simp: suffix_def)
qed

lemma walk_level_extends:
  assumes ok: "vm_ok w root ps" and p: "vpath is" "length is < 2" "tbl (mem w) root is = Some p"
  shows "\<exists>w' ps'. extends root w ps w' ps' \<and>
     (walk_levels (level # ls) p va True w = Ok None w' \<and> ps' = []
      \<or> (\<exists>q. tbl (mem w') root (is @ [px level va]) = Some q \<and>
            walk_levels (level # ls) p va True w = walk_levels ls q va True w'))"
proof (cases "valid (entry (mem w) p (px level va))")
  case True
  then have "tbl (mem w) root (is @ [px level va]) = Some (PTE2PA (entry (mem w) p (px level va)))"
    using p by (simp add: tbl_append Let_def)
  moreover have "walk_levels (level # ls) p va True w =
      walk_levels ls (PTE2PA (entry (mem w) p (px level va))) va True w"
    using True by (simp add: run_simps pte_at_entry)
  ultimately show ?thesis using extends_refl [OF ok] by blast
next
  case False
  note run = walk_level_alloc [OF ok p False, of ls]
  show ?thesis
  proof (cases ps)
    case Nil
    then show ?thesis using run extends_refl [OF ok] by auto
  next
    case (Cons q qs)
    note new = extends_new_table [OF ok [unfolded Cons] p px_less False refl]
    have "extends root w ps (w\<lparr>freelist := load64 (mem w) q,
        mem := store64 (memset (memset (mem w) q 5 4096) q 0 4096) (pte_at p level va) (PA2PTE q OR PTE_V)\<rparr>) qs"
      using new(1) unfolding Cons by (simp add: pte_at_def)
    moreover have "tbl (mem (w\<lparr>freelist := load64 (mem w) q,
        mem := store64 (memset (memset (mem w) q 5 4096) q 0 4096) (pte_at p level va) (PA2PTE q OR PTE_V)\<rparr>)) root (is @ [px level va]) = Some q"
      using new(2) by (simp add: pte_at_def)
    ultimately show ?thesis using run unfolding Cons list.case by blast
  qed
qed

lemma walk_alloc:
  assumes ok: "vm_ok w root ps" and va: "va < MAXVA"
  shows "\<exists>r w' ps'. walk root va True w = Ok r w' \<and> extends root w ps w' ps' \<and>
     (r = 0 \<and> ps' = [] \<or> (\<exists>p. tbl (mem w') root (path va) = Some p \<and> r = p + 8 * PX 0 va))"
proof -
  have walk: "walk root va True w = (case walk_levels [2, 1] root va True w of
      Ok x t \<Rightarrow> Ok (case x of None \<Rightarrow> 0 | Some p \<Rightarrow> p + 8 * PX 0 va) t | Stop e t \<Rightarrow> Stop e t)"
    using va by (auto simp: walk_def bind_def pte_at_def simp del: walk_levels.simps split: res.split option.split)
  obtain w1 ps1 where 1: "extends root w ps w1 ps1"
      "walk_levels [2, 1] root va True w = Ok None w1 \<and> ps1 = []
      \<or> (\<exists>q. tbl (mem w1) root [px 2 va] = Some q \<and> walk_levels [2, 1] root va True w = walk_levels [1] q va True w1)"
    using walk_level_extends [OF ok, where ?is = "[]" and level = 2 and va = va and ls = "[1]"] by (auto simp: vpath_def simp del: walk_levels.simps)
  show ?thesis
  proof (cases "walk_levels [2, 1] root va True w = Ok None w1 \<and> ps1 = []")
    case True
    then show ?thesis using walk 1(1) by auto
  next
    case False
    then obtain q where q: "tbl (mem w1) root [px 2 va] = Some q"
        "walk_levels [2, 1] root va True w = walk_levels [1] q va True w1" using 1(2) by blast
    have ok1: "vm_ok w1 root ps1" using 1(1) by (simp add: extends_def grows_def)
    obtain w2 ps2 where 2: "extends root w1 ps1 w2 ps2"
      "walk_levels [1] q va True w1 = Ok None w2 \<and> ps2 = []
      \<or> (\<exists>p. tbl (mem w2) root [px 2 va, px 1 va] = Some p \<and> walk_levels [1] q va True w1 = walk_levels [] p va True w2)"
      using walk_level_extends [OF ok1, where ?is = "[px 2 va]" and level = 1 and va = va and ls = "[]"] q(1)
      by (auto simp: vpath_def simp del: walk_levels.simps(2))
    note e = extends_trans [OF 1(1) 2(1)]
    from 2(2) consider "walk_levels [1] q va True w1 = Ok None w2" "ps2 = []"
      | p where "tbl (mem w2) root (path va) = Some p" "walk_levels [1] q va True w1 = Ok (Some p) w2"
      unfolding path_def walk_levels.simps(1) by blast
    then show ?thesis
    proof cases
      case 1
      then have "walk root va True w = Ok 0 w2" unfolding walk q(2) by simp
      with e 1 show ?thesis by blast
    next
      case (2 p)
      then have "walk root va True w = Ok (p + 8 * PX 0 va) w2" unfolding walk q(2) by simp
      with e 2 show ?thesis by blast
    qed
  qed
qed

section \<open>Mapping pages\<close>

lemma in_page_range:
  assumes "page_aligned a"
  shows "in_page a va \<longleftrightarrow> unat a \<le> unat va \<and> unat va < unat a + 4096"
proof -
  have "4096 dvd unat a" using assms by (simp add: page_aligned_def dvd_eq_mod_eq_0)
  then obtain k where k: "unat a = k * 4096" by (metis dvdE mult.commute)
  have "in_page a va \<longleftrightarrow> unat va div 4096 = k"
    unfolding in_page_iff [OF assms] word_unat_eq_iff unat_PGROUNDDOWN k by simp
  also have "\<dots> \<longleftrightarrow> k * 4096 \<le> unat va \<and> unat va < k * 4096 + 4096" by linarith
  finally show ?thesis unfolding k .
qed

lemma table_slot_nonzero:
  assumes ok: "vm_ok w root ps" and p: "vpath is" "tbl (mem w) root is = Some p"
  shows "p + 8 * PX l va \<noteq> 0"
proof
  assume z: "p + 8 * PX l va = 0"
  have "p \<in> tables (mem w) root" using p by (rule tablesI)
  then have "kpage w p" "kend w \<noteq> 0" using ok by (auto simp: vm_ok_def kmem_inv_def)
  then have "page_aligned p" "p \<noteq> 0" using kpage_nonzero by (auto simp: kpage_def)
  moreover have "in_page p 0" using slot_in_page [OF px_less, of p l va] z by simp
  moreover have "page_aligned 0" by (simp add: page_aligned_def)
  ultimately show False using pages_disjoint [of p 0 0] by simp
qed

lemma grows_store_leaf:
  assumes ok: "vm_ok w root ps" and p: "tbl (mem w) root (path va) = Some p"
    and w': "w' = w\<lparr>mem := store64 (mem w) (p + 8 * PX 0 va) v\<rparr>"
  shows "grows root w ps w' ps"
proof -
  let ?m = "mem w"
  have wf: "ptwf ?m root" and tb: "\<forall>r \<in> tables ?m root. kpage w r \<and> r \<notin> set ps" and inv: "kmem_inv w ps"
    using ok by (simp_all add: vm_ok_def)
  have m': "mem w' = store64 ?m (p + 8 * of_nat (px 0 va)) v" by (simp add: w')
  note leafs = wf vpath_path length_path p px_less
  have same: "tables (mem w') root = tables ?m root" unfolding m' by (rule tables_store_leaf [OF leafs])
  have wf': "ptwf (mem w') root" unfolding m' by (rule ptwf_store_leaf [OF leafs])
  have pt: "p \<in> tables ?m root" using p vpath_path by (blast intro: tablesI)
  then have pal: "page_aligned p" using wf by (simp add: ptwf_def)
  have frame: "mem w' x = mem w x" if "\<not> in_page p x" for x
    unfolding m' using store64_slot_outside [OF pal px_less that] .
  have "kmem_inv w' ps"
  proof (rule kmem_inv_cong [OF inv])
    fix r x assume "r \<in> set ps" "in_page r x"
    then have "\<not> in_page p x" using inv tb pt pal pages_disjoint by (metis kmem_inv_def kpage_def)
    then show "mem w' x = mem w x" by (rule frame)
  qed (simp_all add: w')
  moreover have "only_mem w w'" unfolding w' using only_memI2 [where w = w and f = "freelist w"] by simp
  ultimately show ?thesis
    unfolding grows_def vm_ok_def same using ok wf' tb frame pt by (auto simp: vm_ok_def w' kpage_def)
qed

definition mapped :: "addr \<Rightarrow> nat \<Rightarrow> addr \<Rightarrow> 64 word \<Rightarrow> (addr \<Rightarrow> 64 word option) \<Rightarrow> addr \<Rightarrow> 64 word option" where
  \<comment> \<open>the map \<open>f\<close> with \<open>n\<close> pages from \<open>va\<close> sent to the pages from \<open>pa\<close>\<close>
  "mapped va n pa perm f a =
     (if unat va \<le> unat a \<and> unat a < unat va + n * 4096
      then Some (PA2PTE (pa + (PGROUNDDOWN a - va)) OR perm OR PTE_V) else f a)"

lemma mapped_0 [simp]: "mapped a 0 pa perm f = f"
  by (auto simp: mapped_def fun_eq_iff)

lemma map_one_page:
  assumes ok: "vm_ok w root ps" and a: "page_aligned a" "a < MAXVA" and free: "leaf (mem w) root a = None"
  shows "\<exists>w' ps'. grows root w ps w' ps' \<and>
     (mappages_loop root a lst pa perm w = Ok (- 1) w' \<and> ps' = [] \<and> (\<forall>va. leaf (mem w') root va = leaf (mem w) root va)
      \<or> mappages_loop root a lst pa perm w =
         (if a = lst then Ok 0 w' else if a < a + PGSIZE then mappages_loop root (a + PGSIZE) lst (pa + PGSIZE) perm w'
          else Stop Diverged w')
       \<and> (\<forall>va<MAXVA. leaf (mem w') root va = mapped a 1 pa perm (leaf (mem w) root) va))"
proof -
  obtain r w1 ps1 where 1: "walk root a True w = Ok r w1" "extends root w ps w1 ps1"
     "r = 0 \<and> ps1 = [] \<or> (\<exists>p. tbl (mem w1) root (path a) = Some p \<and> r = p + 8 * PX 0 a)"
    using walk_alloc [OF ok a(2)] by blast
  have g1: "grows root w ps w1 ps1" and l1: "\<forall>va. leaf (mem w1) root va = leaf (mem w) root va"
    using 1(2) by (simp_all add: extends_def)
  have ok1: "vm_ok w1 root ps1" using g1 by (simp add: grows_def)
  show ?thesis
  proof (cases "r = 0")
    case True
    show ?thesis
    proof (cases "ps1 = []")
      case True
      then show ?thesis using \<open>r = 0\<close> 1(1) g1 l1
        by (intro exI [of _ w1] exI [of _ ps1]) (simp add: mappages_loop.simps [of root a] run_simps)
    next
      case False
      then obtain p where "tbl (mem w1) root (path a) = Some p" "p + 8 * PX 0 a = 0" using 1(3) \<open>r = 0\<close> by auto
      then show ?thesis using table_slot_nonzero [OF ok1 vpath_path] by simp
    qed
  next
    case False
    then obtain p where p: "tbl (mem w1) root (path a) = Some p" "r = p + 8 * PX 0 a" using 1(3) by auto
    have "leaf (mem w1) root a = None" using free l1 by simp
    then have inv: "\<not> valid (load64 (mem w1) r)"
      using p by (auto simp: leaf_def entry_def Let_def split: if_splits)
    define e where "e = PA2PTE pa OR perm OR PTE_V"
    define w2 where "w2 = w1\<lparr>mem := store64 (mem w1) (p + 8 * PX 0 a) e\<rparr>"
    have g2: "grows root w1 ps1 w2 ps1" by (rule grows_store_leaf [OF ok1 p(1) w2_def])
    have "ptwf (mem w1) root" using ok1 by (simp add: vm_ok_def)
    then have "leaf (mem w2) root va = mapped a 1 pa perm (leaf (mem w) root) va" if "va < MAXVA" for va
      using leaf_store_leaf [OF _ p(1) a(2) that, of e] l1 in_page_iff [OF a(1), of va] in_page_range [OF a(1), of va]
        PGROUNDDOWN_id [of a] a(1)
      by (auto simp: w2_def mapped_def e_def page_aligned_def)
    moreover have "mappages_loop root a lst pa perm w =
         (if a = lst then Ok 0 w2 else if a < a + PGSIZE then mappages_loop root (a + PGSIZE) lst (pa + PGSIZE) perm w2
          else Stop Diverged w2)"
      using 1(1) False inv p(2) by (simp add: mappages_loop.simps [of root a] run_simps wr64_def w2_def e_def)
    ultimately show ?thesis using grows_trans [OF g1 g2] by blast
  qed
qed

lemma mapped_step:
  assumes "unat a + 4096 < 2 ^ 64"
  shows "mapped (a + PGSIZE) n (pa + PGSIZE) perm (mapped a 1 pa perm f) va = mapped a (Suc n) pa perm f va"
proof -
  have u: "unat (a + PGSIZE) = unat a + 4096" using assms by (simp add: unat_add_no_wrap)
  show ?thesis unfolding mapped_def u by (auto simp: algebra_simps)
qed

lemma mapped_cong: "f va = g va \<Longrightarrow> mapped a n pa perm f va = mapped a n pa perm g va"
  by (simp add: mapped_def)

lemma mappages_loop_run:
  assumes "vm_ok w root ps" "page_aligned a" "unat a + Suc n * 4096 \<le> 2 ^ 38" "unat lst = unat a + n * 4096"
    and "\<forall>va<MAXVA. unat a \<le> unat va \<and> unat va < unat a + Suc n * 4096 \<longrightarrow> leaf (mem w) root va = None"
  shows "\<exists>r w' ps' k. mappages_loop root a lst pa perm w = Ok r w' \<and> grows root w ps w' ps'
     \<and> (\<forall>va<MAXVA. leaf (mem w') root va = mapped a k pa perm (leaf (mem w) root) va)
     \<and> (r = 0 \<and> k = Suc n \<or> r = - 1 \<and> k \<le> n \<and> ps' = [])"
  using assms
proof (induction n arbitrary: a pa w ps)
  case 0
  have "a < MAXVA" using 0(3) by (simp add: word_less_nat_alt MAXVA_def)
  moreover have "leaf (mem w) root a = None" using 0(5) \<open>a < MAXVA\<close> by simp
  moreover have "a = lst" using 0(4) by (simp add: word_unat_eq_iff)
  ultimately obtain w' ps' where g: "grows root w ps w' ps'" and
     "mappages_loop root a lst pa perm w = Ok (- 1) w' \<and> ps' = [] \<and> (\<forall>va. leaf (mem w') root va = leaf (mem w) root va)
      \<or> mappages_loop root a lst pa perm w = Ok 0 w'
       \<and> (\<forall>va<MAXVA. leaf (mem w') root va = mapped a 1 pa perm (leaf (mem w) root) va)"
    using map_one_page [OF 0(1,2), of lst pa perm] by auto
  then show ?case
  proof (elim disjE conjE)
    assume "mappages_loop root a lst pa perm w = Ok (- 1) w'" "ps' = []" "\<forall>va. leaf (mem w') root va = leaf (mem w) root va"
    with g show ?thesis by (intro exI [of _ "- 1"] exI [of _ w'] exI [of _ ps'] exI [of _ 0]) simp
  next
    assume "mappages_loop root a lst pa perm w = Ok 0 w'"
      "\<forall>va<MAXVA. leaf (mem w') root va = mapped a 1 pa perm (leaf (mem w) root) va"
    with g show ?thesis by (intro exI [of _ 0] exI [of _ w'] exI [of _ ps'] exI [of _ 1]) simp
  qed
next
  case (Suc n)
  have "a < MAXVA" using Suc.prems(3) by (simp add: word_less_nat_alt MAXVA_def)
  moreover have "leaf (mem w) root a = None" using Suc.prems(5) \<open>a < MAXVA\<close> by simp
  moreover have ne: "a \<noteq> lst" using Suc.prems(4) by (auto simp: word_unat_eq_iff)
  ultimately obtain w1 ps1 where g: "grows root w ps w1 ps1" and
     alt: "mappages_loop root a lst pa perm w = Ok (- 1) w1 \<and> ps1 = [] \<and> (\<forall>va. leaf (mem w1) root va = leaf (mem w) root va)
      \<or> mappages_loop root a lst pa perm w = (if a = lst then Ok 0 w1 else if a < a + PGSIZE then mappages_loop root (a + PGSIZE) lst (pa + PGSIZE) perm w1
          else Stop Diverged w1)
       \<and> (\<forall>va<MAXVA. leaf (mem w1) root va = mapped a 1 pa perm (leaf (mem w) root) va)"
    using map_one_page [OF Suc.prems(1,2), of lst pa perm] by blast
  have nw: "unat a + 4096 < 2 ^ 64" using Suc.prems(3) by simp
  note nxt = page_next [OF Suc.prems(2) nw]
  from alt show ?case
  proof (elim disjE conjE)
    assume "mappages_loop root a lst pa perm w = Ok (- 1) w1" "ps1 = []" "\<forall>va. leaf (mem w1) root va = leaf (mem w) root va"
    with g show ?thesis by (intro exI [of _ "- 1"] exI [of _ w1] exI [of _ ps1] exI [of _ 0]) simp
  next
    assume run: "mappages_loop root a lst pa perm w = (if a = lst then Ok 0 w1 else if a < a + PGSIZE then mappages_loop root (a + PGSIZE) lst (pa + PGSIZE) perm w1
          else Stop Diverged w1)"
      and l1: "\<forall>va<MAXVA. leaf (mem w1) root va = mapped a 1 pa perm (leaf (mem w) root) va"
    have "\<exists>r w' ps' k. mappages_loop root (a + PGSIZE) lst (pa + PGSIZE) perm w1 = Ok r w' \<and> grows root w1 ps1 w' ps'
     \<and> (\<forall>va<MAXVA. leaf (mem w') root va = mapped (a + PGSIZE) k (pa + PGSIZE) perm (leaf (mem w1) root) va)
     \<and> (r = 0 \<and> k = Suc n \<or> r = - 1 \<and> k \<le> n \<and> ps' = [])"
    proof (rule Suc.IH)
      show "vm_ok w1 root ps1" using g by (simp add: grows_def)
      show "\<forall>va<MAXVA. unat (a + PGSIZE) \<le> unat va \<and> unat va < unat (a + PGSIZE) + Suc n * 4096 \<longrightarrow> leaf (mem w1) root va = None"
        using Suc.prems(5) l1 unfolding nxt by (auto simp: mapped_def)
    qed (use Suc.prems nxt in simp_all)
    then obtain r w' ps' k where i: "mappages_loop root (a + PGSIZE) lst (pa + PGSIZE) perm w1 = Ok r w'" "grows root w1 ps1 w' ps'"
     "\<forall>va<MAXVA. leaf (mem w') root va = mapped (a + PGSIZE) k (pa + PGSIZE) perm (leaf (mem w1) root) va"
     "r = 0 \<and> k = Suc n \<or> r = - 1 \<and> k \<le> n \<and> ps' = []" by blast
    have "leaf (mem w') root va = mapped a (Suc k) pa perm (leaf (mem w) root) va" if "va < MAXVA" for va
      using i(3) l1 that mapped_step [OF nw, of k pa perm "leaf (mem w) root" va]
        mapped_cong [of "leaf (mem w1) root" va "mapped a 1 pa perm (leaf (mem w) root)"] by simp
    then show ?thesis using run ne nxt(3) i grows_trans [OF g i(2)]
      by (intro exI [of _ r] exI [of _ w'] exI [of _ ps'] exI [of _ "Suc k"]) auto
  qed
qed

text \<open>
  C7. Mapping pages: on a well-formed page table, \<open>mappages\<close> of a range of \<open>n\<close> unmapped pages
  returns either 0, and the table then means what it meant before with exactly those pages added,
  or -1 when the page allocator ran dry, and then only the first few pages of the range were added.
  In both cases the table stays well formed, no other address changes its meaning, and memory is
  changed only in this table's own pages and in pages that were free.
\<close>

theorem mappages_adds_range:
  assumes "vm_ok w root ps" "page_aligned va" "0 < n" "unat va + n * 4096 \<le> 2 ^ 38"
    and "\<forall>a<MAXVA. unat va \<le> unat a \<and> unat a < unat va + n * 4096 \<longrightarrow> leaf (mem w) root a = None"
  shows "\<exists>r w' ps' k. mappages root va (of_nat n * PGSIZE) pa perm w = Ok r w' \<and> grows root w ps w' ps'
     \<and> (\<forall>a<MAXVA. leaf (mem w') root a = mapped va k pa perm (leaf (mem w) root) a)
     \<and> (r = 0 \<and> k = n \<or> r = - 1 \<and> k < n \<and> ps' = [])"
proof -
  obtain j where n: "n = Suc j" using assms(3) by (cases n) auto
  have sz: "unat (of_nat n * PGSIZE :: addr) = n * 4096"
    using of_nat_less_word [of "n * 4096", where 'a = 64] assms(4) by (simp add: PGSIZE_def)
  have "unat va + unat (of_nat n * PGSIZE :: addr) < 2 ^ 64" using assms(4) sz by simp
  then have "unat (va + of_nat n * PGSIZE) = unat va + n * 4096"
    using unat_add_no_wrap [of va "of_nat n * PGSIZE"] sz by simp
  moreover have "unat PGSIZE \<le> unat (va + of_nat n * PGSIZE)" unfolding calculation using n by simp
  ultimately have lst: "unat (va + of_nat n * PGSIZE - PGSIZE) = unat va + j * 4096"
    using unat_diff_le [of PGSIZE "va + of_nat n * PGSIZE"] n by (simp add: word_le_nat_alt)
  have "(of_nat n * PGSIZE :: addr) mod PGSIZE = 0" "va mod PGSIZE = 0"
    unfolding word_mod_PGSIZE sz using assms(2) by (simp_all add: page_aligned_def)
  moreover have "of_nat n * PGSIZE \<noteq> (0 :: addr)" using sz n by (metis unat_0 mult_eq_0_iff nat.simps(3) zero_neq_numeral)
  ultimately have "mappages root va (of_nat n * PGSIZE) pa perm w =
      mappages_loop root va (va + of_nat n * PGSIZE - PGSIZE) pa perm w"
    by (simp add: mappages_def)
  then show ?thesis
    using mappages_loop_run [OF assms(1,2), of j "va + of_nat n * PGSIZE - PGSIZE" pa perm] assms(4,5) lst n
    by (auto simp: less_Suc_eq_le)
qed

lemma vm_ok_empty:
  assumes "calm w" "free_lock Kmem_lock w" "kmem_inv w ps" "kpage w root" "root \<notin> set ps"
    and "\<And>x. in_page root x \<Longrightarrow> mem w x = 0"
  shows "vm_ok w root ps" "leaf (mem w) root va = None"
  using assms empty_table [of root "mem w"] by (auto simp: vm_ok_def kpage_def)

theorem mappages_adds_range_witness:
  "\<exists>r w'. mappages 0x80023000 0 PGSIZE 0x80030000 PTE_R (freed 0x80024000 bss) = Ok r w'
     \<and> (r = 0 \<longrightarrow> leaf (mem w') 0x80023000 0 = Some (PA2PTE 0x80030000 OR PTE_R OR PTE_V))"
proof -
  let ?w = "freed 0x80024000 bss" and ?root = "0x80023000 :: addr"
  have p: "kpage bss 0x80024000" "kpage bss ?root" by (simp_all add: kpage_def page_aligned_def bss_def layout)
  then have inv: "kmem_inv ?w [0x80024000]" using freed_inv [OF kmem_inv_bss] by simp
  have z: "mem ?w x = 0" if "in_page ?root x" for x
    using that pages_disjoint [of ?root "0x80024000" x] p
    by (subst freed_outside) (auto simp: kpage_def, simp add: bss_def)
  have ok: "vm_ok ?w ?root [0x80024000]"
    by (rule vm_ok_empty) (use inv p z calm_bss free_lock_bss [of Kmem_lock] in \<open>simp_all add: freed_def kpage_def\<close>)
  have l: "leaf (mem ?w) ?root a = None" for a
    using p z by (intro empty_table(3)) (simp_all add: kpage_def)
  obtain r w' k where "mappages ?root 0 PGSIZE 0x80030000 PTE_R ?w = Ok r w'"
     "\<forall>a<MAXVA. leaf (mem w') ?root a = mapped 0 k 0x80030000 PTE_R (leaf (mem ?w) ?root) a"
     "r = 0 \<and> k = 1 \<or> r = - 1"
    using mappages_adds_range [OF ok, where va = 0 and n = 1 and pa = "0x80030000" and perm = PTE_R] l
    by (auto simp: page_aligned_def)
  then show ?thesis using PGROUNDDOWN_id [of 0]
    by (intro exI [of _ r] exI [of _ w']) (auto simp: mapped_def MAXVA_def)
qed

lemma walkaddr_run:
  assumes "vm_ok w root ps" "va < MAXVA"
  shows "walkaddr root va w = Ok (case leaf (mem w) root va of None \<Rightarrow> 0
     | Some e \<Rightarrow> if e AND PTE_U = 0 then 0 else PTE2PA e) w"
proof (cases "tbl (mem w) root (path va)")
  case None
  then show ?thesis using assms(2) by (simp add: walkaddr_def run_simps walk_lookup leaf_def not_le [symmetric])
next
  case (Some p)
  then have "p + 8 * PX 0 va \<noteq> 0" using table_slot_nonzero [OF assms(1), of "path va" p 0 va] by simp
  then show ?thesis
    using assms(2) Some by (simp add: walkaddr_def run_simps walk_lookup leaf_def not_le [symmetric] entry_def Let_def)
qed

end
