(* ===== verification/Usermem.thy ===== *)
theory Usermem
  imports Pagetable
begin

unbundle bit_operations_syntax

text \<open>
  User memory as the kernel sees it: the bytes behind the user-accessible pages of a page table
  (\<open>umem\<close>), and \<open>copyout\<close>, \<open>copyin\<close> and \<open>copyinstr\<close> of \<open>kernel/vm.c\<close> as reads and updates of it.
\<close>

section \<open>Chunks of a page\<close>

lemma chunk_eq: "chunk va len = min (4096 - unat va mod 4096) len"
proof -
  have "va - PGROUNDDOWN va \<le> PGSIZE" by (simp add: word_le_nat_alt PGROUNDDOWN_offset)
  then show ?thesis by (simp add: chunk_def unat_diff_le PGROUNDDOWN_offset)
qed

lemma page_end: "PGROUNDDOWN va + PGSIZE = va + of_nat (4096 - unat va mod 4096)"
proof -
  have "of_nat (unat va mod 4096) = va - PGROUNDDOWN va"
    unfolding PGROUNDDOWN_offset [symmetric] by simp
  moreover have "(of_nat (4096 - unat va mod 4096) :: addr) = 4096 - of_nat (unat va mod 4096)"
    by (simp add: of_nat_diff less_imp_le)
  ultimately show ?thesis by (simp add: PGSIZE_def)
qed

lemma same_page_offset:
  assumes "i < 4096 - unat va mod 4096"
  shows "PGROUNDDOWN (va + of_nat i) = PGROUNDDOWN va"
    and "va + of_nat i - PGROUNDDOWN va = (va - PGROUNDDOWN va) + of_nat i"
proof -
  have "unat (va - PGROUNDDOWN va) + i < 4096" using assms by (simp add: PGROUNDDOWN_offset)
  then have "in_page (PGROUNDDOWN va) (PGROUNDDOWN va + of_nat (unat (va - PGROUNDDOWN va) + i))"
    by (rule in_page_offset)
  then have "in_page (PGROUNDDOWN va) (va + of_nat i)" by simp
  then show "PGROUNDDOWN (va + of_nat i) = PGROUNDDOWN va"
    using in_page_iff [of "PGROUNDDOWN va"] by (simp add: page_aligned_def)
qed simp

lemma PTE2PA_aligned [simp]: "page_aligned (PTE2PA e)"
proof -
  have "PTE2PA e = PTE2PA e AND NOT (mask 12)"
    by (rule bit_word_eqI) (auto simp: PTE2PA_def bit_simps)
  then have "unat (PTE2PA e) = unat (PTE2PA e) div 4096 * 4096"
    using unat_and_not_mask [of "PTE2PA e" 12] by simp
  then have "4096 dvd unat (PTE2PA e)" by (metis dvd_triv_right)
  then show ?thesis by (simp add: page_aligned_def dvd_eq_mod_eq_0)
qed

section \<open>The user's view of memory\<close>

definition user_page :: "memory \<Rightarrow> addr \<Rightarrow> addr \<Rightarrow> 64 word option" where
  \<comment> \<open>the entry through which user mode may read at \<open>va\<close>\<close>
  "user_page m root va = (if MAXVA \<le> va then None else
     case leaf m root va of None \<Rightarrow> None | Some e \<Rightarrow> if e AND PTE_U = 0 then None else Some e)"

definition uwritable :: "memory \<Rightarrow> addr \<Rightarrow> addr \<Rightarrow> bool" where
  "uwritable m root va \<longleftrightarrow> (\<exists>e. user_page m root va = Some e \<and> e AND PTE_W \<noteq> 0)"

definition upa :: "64 word \<Rightarrow> addr \<Rightarrow> addr" where
  "upa e va = PTE2PA e + (va - PGROUNDDOWN va)"

definition umem :: "memory \<Rightarrow> addr \<Rightarrow> addr \<Rightarrow> byte option" where
  "umem m root va = map_option (\<lambda>e. m (upa e va)) (user_page m root va)"

text \<open>User pages are not null, not page-table pages, and no page is mapped for the user twice.\<close>

definition uspace :: "memory \<Rightarrow> addr \<Rightarrow> bool" where
  "uspace m root \<longleftrightarrow> (\<forall>va e. user_page m root va = Some e \<longrightarrow> PTE2PA e \<notin> tables m root \<and> PTE2PA e \<noteq> 0
     \<and> (\<forall>va' e'. user_page m root va' = Some e' \<longrightarrow> PTE2PA e' = PTE2PA e \<longrightarrow> PGROUNDDOWN va' = PGROUNDDOWN va))"

lemma uspaceD:
  assumes "uspace m root" "user_page m root va = Some e"
  shows "PTE2PA e \<notin> tables m root"
    "user_page m root va' = Some e' \<Longrightarrow> PTE2PA e' = PTE2PA e \<Longrightarrow> PGROUNDDOWN va' = PGROUNDDOWN va"
    "PTE2PA e \<noteq> 0"
  using assms unfolding uspace_def by blast+

lemma PGROUNDDOWN_MAXVA: "MAXVA \<le> PGROUNDDOWN va \<longleftrightarrow> MAXVA \<le> va"
proof -
  have "(0x4000000000 :: nat) \<le> n div 4096 * 4096 \<longleftrightarrow> 0x4000000000 \<le> n" for n :: nat
    using less_eq_div_iff_mult_less_eq [of 4096 67108864 n] mult_le_cancel2 [of 67108864 4096 "n div 4096"] by simp
  then show ?thesis by (simp add: word_le_nat_alt unat_PGROUNDDOWN MAXVA_def)
qed

lemma leaf_round:
  assumes "va < MAXVA"
  shows "leaf m root (PGROUNDDOWN va) = leaf m root va"
proof -
  have lt: "PGROUNDDOWN va < MAXVA" using assms PGROUNDDOWN_MAXVA [of va] by (simp add: not_le [symmetric])
  have "path (PGROUNDDOWN va) = path va \<and> px 0 (PGROUNDDOWN va) = px 0 va"
    using same_page_path [OF lt assms] PGROUNDDOWN_id [of "PGROUNDDOWN va"] by simp
  then show ?thesis unfolding leaf_def by (elim conjE) (simp only:)
qed

lemma user_page_round: "user_page m root (PGROUNDDOWN va) = user_page m root va"
  by (cases "MAXVA \<le> va") (simp_all add: user_page_def PGROUNDDOWN_MAXVA leaf_round not_le [symmetric])

lemma user_page_same: "PGROUNDDOWN va = PGROUNDDOWN va' \<Longrightarrow> user_page m root va = user_page m root va'"
  by (metis user_page_round)

lemma upa_in_page: "in_page (PTE2PA e) (upa e va)"
  by (simp add: upa_def in_page_def PGROUNDDOWN_offset)

section \<open>Writing through a user page\<close>

lemma tables_agree:
  assumes "\<And>p x. p \<in> tables m root \<Longrightarrow> in_page p x \<Longrightarrow> m' x = m x"
  shows "tables m' root = tables m root" "ptwf m root \<Longrightarrow> ptwf m' root" "leaf m' root va = leaf m root va"
proof -
  have t: "tbl m' root js = tbl m root js" if "vpath js" for js
    using tbl_agree_root [of m root m' js] assms that by blast
  show tb: "tables m' root = tables m root" unfolding tables_def using t by auto
  show "ptwf m' root" if "ptwf m root" using that unfolding ptwf_def tb by (auto simp: t)
  show "leaf m' root va = leaf m root va"
  proof (cases "tbl m root (path va)")
    case (Some p)
    then have "p \<in> tables m root" using vpath_path by (blast intro: tablesI)
    then have "entry m' p (px 0 va) = entry m p (px 0 va)"
      using assms by (intro entry_page_cong px_less) blast
    with Some show ?thesis by (simp add: leaf_def t)
  qed (simp add: leaf_def t)
qed

lemma store_bytes_in_page:
  assumes "unat off + length bs \<le> 4096" "\<not> in_page p x"
  shows "store_bytes m (p + off) bs x = m x"
proof -
  have "\<not> unat (x - (p + off)) < length bs"
  proof
    assume lt: "unat (x - (p + off)) < length bs"
    have "x - p = off + (x - (p + off))" by simp
    moreover have "unat off + unat (x - (p + off)) < 2 ^ 64" using lt assms(1) by simp
    ultimately have "unat (x - p) = unat off + unat (x - (p + off))"
      using unat_add_no_wrap [of off "x - (p + off)"] by simp
    then show False using lt assms by (simp add: in_page_def)
  qed
  then show ?thesis using assms(1) by (simp add: store_bytes_apply)
qed

definition uput :: "addr \<Rightarrow> byte list \<Rightarrow> (addr \<Rightarrow> byte option) \<Rightarrow> addr \<Rightarrow> byte option" where
  \<comment> \<open>the view \<open>f\<close> with the bytes \<open>bs\<close> at \<open>va\<close>\<close>
  "uput va bs f a = (if unat (a - va) < length bs then Some (bs ! unat (a - va)) else f a)"

lemma write_user_page:
  assumes wf: "ptwf m root" and us: "uspace m root" and e: "user_page m root va = Some e"
    and bs: "length bs \<le> 4096 - unat va mod 4096" and m': "m' = store_bytes m (upa e va) bs"
  shows "tables m' root = tables m root" "ptwf m' root" "user_page m' root a = user_page m root a"
    "umem m' root a = uput va bs (umem m root) a" "\<not> in_page (PTE2PA e) x \<Longrightarrow> m' x = m x"
proof -
  have off: "unat (va - PGROUNDDOWN va) + length bs \<le> 4096"
    using bs mod_less_divisor [of 4096 "unat va"] by (simp add: PGROUNDDOWN_offset)
  then show frame: "m' x = m x" if "\<not> in_page (PTE2PA e) x" for x
    unfolding m' upa_def using store_bytes_in_page that by blast
  have agree: "m' x = m x" if "p \<in> tables m root" "in_page p x" for p x
  proof (rule frame)
    have "PTE2PA e \<noteq> p" "page_aligned p" using uspaceD(1) [OF us e] that(1) wf by (auto simp: ptwf_def)
    then show "\<not> in_page (PTE2PA e) x" using that pages_disjoint PTE2PA_aligned by blast
  qed
  note ta = tables_agree [of m root m', OF agree]
  show "tables m' root = tables m root" "ptwf m' root" using ta(1,2) wf by simp_all
  show up: "user_page m' root a = user_page m root a" for a by (simp add: user_page_def ta(3))
  show "umem m' root a = uput va bs (umem m root) a"
  proof (cases "user_page m root a")
    case None
    have "\<not> unat (a - va) < length bs"
    proof
      assume "unat (a - va) < length bs"
      then have "PGROUNDDOWN a = PGROUNDDOWN va"
        using same_page_offset(1) [of "unat (a - va)" va] bs by simp
      then show False using user_page_same [of a va] None e by simp
    qed
    then show ?thesis using None up by (simp add: umem_def uput_def)
  next
    case (Some f)
    show ?thesis
    proof (cases "PGROUNDDOWN a = PGROUNDDOWN va")
      case True
      then have "f = e" using user_page_same [of a va] Some e by simp
      moreover have "upa e a - upa e va = a - va" using True by (simp add: upa_def)
      ultimately show ?thesis using Some up bs
        by (simp add: umem_def uput_def m' store_bytes_apply)
    next
      case False
      then have "PTE2PA f \<noteq> PTE2PA e" using uspaceD(2) [OF us e Some] by blast
      then have "\<not> in_page (PTE2PA e) (upa f a)"
        using upa_in_page pages_disjoint PTE2PA_aligned by blast
      moreover have "\<not> unat (a - va) < length bs"
        using False same_page_offset(1) [of "unat (a - va)" va] bs by auto
      ultimately show ?thesis using Some up frame by (simp add: umem_def uput_def)
    qed
  qed
qed

lemma uput_append:
  assumes "length bs + length cs < 2 ^ 64"
  shows "uput (va + of_nat (length bs)) cs (uput va bs f) a = uput va (bs @ cs) f a"
proof -
  define d where "d = unat (a - va)"
  let ?n = "length bs"
  have n: "unat (of_nat ?n :: addr) = ?n" using assms by (intro of_nat_less_word) simp
  have e: "a - (va + of_nat ?n) = (a - va) - of_nat ?n" by simp
  show ?thesis
  proof (cases "?n \<le> d")
    case True
    then have "unat (a - (va + of_nat ?n)) = d - ?n"
      unfolding e d_def using n unat_diff_le [of "of_nat ?n" "a - va"] by (simp add: word_le_nat_alt)
    then show ?thesis using True by (auto simp: uput_def d_def [symmetric] nth_append)
  next
    case False
    have "length cs \<le> unat (a - (va + of_nat ?n))"
    proof (rule ccontr)
      assume lt: "\<not> length cs \<le> unat (a - (va + of_nat ?n))"
      then have "unat (a - (va + of_nat ?n)) + unat (of_nat ?n :: addr) < 2 ^ 64" using n assms by simp
      then have "unat (a - (va + of_nat ?n) + of_nat ?n) = unat (a - (va + of_nat ?n)) + ?n"
        using unat_add_no_wrap [of "a - (va + of_nat ?n)" "of_nat ?n"] n by simp
      then have "d = unat (a - (va + of_nat ?n)) + ?n" by (simp add: d_def)
      with False show False by simp
    qed
    with False show ?thesis by (auto simp: uput_def d_def [symmetric] nth_append)
  qed
qed

lemma uput_Nil [simp]: "uput va [] f = f"
  by (auto simp: uput_def fun_eq_iff)

lemma uput_cong: "f a = g a \<Longrightarrow> uput va bs f a = uput va bs g a"
  by (simp add: uput_def)

section \<open>copyout\<close>

definition uctx :: "memory \<Rightarrow> addr \<Rightarrow> bool" where
  "uctx m root \<longleftrightarrow> ptwf m root \<and> 0 \<notin> tables m root \<and> uspace m root"

lemma aligned_slot_nonzero:
  assumes "page_aligned p" "p \<noteq> 0"
  shows "p + 8 * PX l va \<noteq> 0"
proof
  assume "p + 8 * PX l va = 0"
  then have "in_page p 0" using slot_in_page [OF px_less, of p l va] by simp
  moreover have "page_aligned 0" by (simp add: page_aligned_def)
  ultimately show False using pages_disjoint [of p 0 0] assms by simp
qed

lemma uctx_slot: "uctx m root \<Longrightarrow> tbl m root (path va) = Some p \<Longrightarrow> p + 8 * PX 0 va \<noteq> 0"
  using aligned_slot_nonzero [of p 0 va] tablesI [OF vpath_path, of m root va p]
  by (auto simp: uctx_def ptwf_def)

lemma walkaddr_user:
  assumes "uctx (mem w) root"
  shows "walkaddr root va w = Ok (case user_page (mem w) root va of None \<Rightarrow> 0 | Some e \<Rightarrow> PTE2PA e) w"
proof (cases "MAXVA \<le> va")
  case False
  then show ?thesis
    using uctx_slot [OF assms, of va]
    by (cases "tbl (mem w) root (path va)")
      (auto simp: walkaddr_def run_simps walk_lookup user_page_def leaf_def entry_def Let_def)
qed (simp add: walkaddr_def user_page_def)

lemma copyout_step:
  assumes "uctx (mem w) root" "src \<noteq> []"
  shows "copyout root va src w = (case user_page (mem w) root va of None \<Rightarrow> Ok (- 1) w
     | Some e \<Rightarrow> if e AND PTE_W = 0 then Ok (- 1) w else
         let n = chunk va (length src) in
         copyout root (PGROUNDDOWN va + PGSIZE) (drop n src)
           (w\<lparr>mem := store_bytes (mem w) (upa e va) (take n src)\<rparr>))"
proof (cases "MAXVA \<le> va")
  case True
  then show ?thesis using assms(2)
    by (simp add: copyout.simps [of root va] PGROUNDDOWN_MAXVA user_page_def Let_def)
next
  case False
  then have u: "user_page (mem w) root va = (case leaf (mem w) root (PGROUNDDOWN va) of None \<Rightarrow> None
      | Some e \<Rightarrow> if e AND PTE_U = 0 then None else Some e)"
    using leaf_round [of va] by (simp add: user_page_def)
  show ?thesis
    using assms(2) False uctx_slot [OF assms(1), of "PGROUNDDOWN va"]
    by (cases "tbl (mem w) root (path (PGROUNDDOWN va))")
      (auto simp: copyout.simps [of root va] PGROUNDDOWN_MAXVA Let_def run_simps walk_lookup u
        leaf_def entry_def upa_def)
qed

lemma uctx_write:
  assumes "uctx m root" "user_page m root va = Some e" "length bs \<le> 4096 - unat va mod 4096"
  shows "uctx (store_bytes m (upa e va) bs) root"
proof -
  have wf: "ptwf m root" and us: "uspace m root" using assms(1) by (simp_all add: uctx_def)
  note wr = write_user_page [OF wf us assms(2,3) refl]
  have "uspace (store_bytes m (upa e va) bs) root"
    using us unfolding uspace_def wr(1,3) .
  then show ?thesis using assms(1) wr(1,2) by (simp add: uctx_def)
qed

definition wrote_user :: "memory \<Rightarrow> addr \<Rightarrow> memory \<Rightarrow> bool" where
  \<comment> \<open>\<open>m'\<close> differs from \<open>m\<close> only on pages the user may write, and the translation is the same\<close>
  "wrote_user m root m' \<longleftrightarrow> uctx m' root \<and> (\<forall>a. user_page m' root a = user_page m root a)
     \<and> (\<forall>x. m' x \<noteq> m x \<longrightarrow> (\<exists>a e. user_page m root a = Some e \<and> e AND PTE_W \<noteq> 0 \<and> in_page (PTE2PA e) x))"

lemma wrote_user_trans:
  assumes "wrote_user m root m1" "wrote_user m1 root m2"
  shows "wrote_user m root m2"
proof -
  have up: "user_page m1 root a = user_page m root a" for a using assms(1) by (simp add: wrote_user_def)
  have "\<exists>a e. user_page m root a = Some e \<and> e AND PTE_W \<noteq> 0 \<and> in_page (PTE2PA e) x" if "m2 x \<noteq> m x" for x
  proof (cases "m1 x = m x")
    case True
    then show ?thesis using that assms(2) up unfolding wrote_user_def by metis
  next
    case False
    then show ?thesis using assms(1) unfolding wrote_user_def by blast
  qed
  then show ?thesis using assms(2) up by (simp add: wrote_user_def)
qed

lemma wrote_user_writable: "wrote_user m root m' \<Longrightarrow> uwritable m' root a = uwritable m root a"
  by (simp add: wrote_user_def uwritable_def)

lemma copyout_page:
  assumes u: "uctx (mem w) root" and "src \<noteq> []" "uwritable (mem w) root va" and n: "n = chunk va (length src)"
  shows "\<exists>m1. copyout root va src w = copyout root (PGROUNDDOWN va + PGSIZE) (drop n src) (w\<lparr>mem := m1\<rparr>)
     \<and> wrote_user (mem w) root m1 \<and> (\<forall>a. umem m1 root a = uput va (take n src) (umem (mem w) root) a)"
proof -
  let ?m = "mem w"
  obtain e where e: "user_page ?m root va = Some e" "e AND PTE_W \<noteq> 0" using assms(3) by (auto simp: uwritable_def)
  have len: "length (take n src) \<le> 4096 - unat va mod 4096" by (simp add: n chunk_eq)
  have wf: "ptwf ?m root" "uspace ?m root" using u by (simp_all add: uctx_def)
  define m1 where "m1 = store_bytes ?m (upa e va) (take n src)"
  note wr = write_user_page [OF wf e(1) len m1_def]
  have "uctx m1 root" unfolding m1_def using uctx_write [OF u e(1) len] .
  then have "wrote_user ?m root m1" using wr(3,5) e by (auto simp: wrote_user_def)
  moreover have "copyout root va src w = copyout root (PGROUNDDOWN va + PGSIZE) (drop n src) (w\<lparr>mem := m1\<rparr>)"
    using copyout_step [OF u assms(2), of va] e by (simp add: n m1_def Let_def)
  ultimately show ?thesis using wr(4) by blast
qed

lemma uwritable_page:
  "uwritable m root va \<Longrightarrow> i < chunk va len \<Longrightarrow> uwritable m root (va + of_nat i)"
  using same_page_offset(1) [of i va] user_page_same [of "va + of_nat i" va]
  by (auto simp: uwritable_def chunk_eq)

lemma copyout_run:
  "uctx (mem w) root \<Longrightarrow> length src < 2 ^ 64 \<Longrightarrow>
   \<exists>r k m'. copyout root va src w = Ok r (w\<lparr>mem := m'\<rparr>) \<and> wrote_user (mem w) root m'
     \<and> (\<forall>a. umem m' root a = uput va (take k src) (umem (mem w) root) a)
     \<and> (\<forall>i < k. uwritable (mem w) root (va + of_nat i))
     \<and> (r = 0 \<and> k = length src \<or> r = - 1 \<and> k < length src \<and> \<not> uwritable (mem w) root (va + of_nat k))"
proof (induction "length src" arbitrary: va src w rule: less_induct)
  case less
  let ?m = "mem w"
  show ?case
  proof (cases "src = [] \<or> \<not> uwritable ?m root va")
    case True
    then have "copyout root va src w = Ok (if src = [] then 0 else - 1) (w\<lparr>mem := ?m\<rparr>)"
      using copyout_step [OF less.prems(1), of src va]
      by (auto simp: copyout.simps [of root va "[]"] uwritable_def split: option.splits)
    then show ?thesis using True less.prems
      by (intro exI [of _ "if src = [] then 0 else - 1"] exI [of _ 0] exI [of _ ?m]) (auto simp: wrote_user_def)
  next
    case False
    define n where "n = chunk va (length src)"
    have n: "0 < n" "n \<le> length src" using chunk_pos [of "length src" va] False by (auto simp: n_def chunk_eq)
    then have lt: "length (drop n src) < length src" by simp
    obtain m1 where 1: "copyout root va src w = copyout root (PGROUNDDOWN va + PGSIZE) (drop n src) (w\<lparr>mem := m1\<rparr>)"
      "wrote_user ?m root m1" "\<forall>a. umem m1 root a = uput va (take n src) (umem ?m root) a"
      using copyout_page [OF less.prems(1) _ _ n_def] False by auto
    have "uctx m1 root" using 1(2) by (simp add: wrote_user_def)
    then obtain r k m' where 2: "copyout root (PGROUNDDOWN va + PGSIZE) (drop n src) (w\<lparr>mem := m1\<rparr>) = Ok r (w\<lparr>mem := m'\<rparr>)"
       "wrote_user m1 root m'"
       "\<forall>a. umem m' root a = uput (PGROUNDDOWN va + PGSIZE) (take k (drop n src)) (umem m1 root) a"
       "\<forall>i < k. uwritable m1 root (PGROUNDDOWN va + PGSIZE + of_nat i)"
       "r = 0 \<and> k = length src - n \<or> r = - 1 \<and> k < length src - n \<and> \<not> uwritable m1 root (PGROUNDDOWN va + PGSIZE + of_nat k)"
      using less.hyps [OF lt, of "w\<lparr>mem := m1\<rparr>" "PGROUNDDOWN va + PGSIZE", OF _ order_less_trans [OF lt less.prems(2)]]
      by auto
    have ve: "n = length src \<or> PGROUNDDOWN va + PGSIZE = va + of_nat n"
      using page_end [of va] by (auto simp: n_def chunk_eq min_def)
    have "umem m' root a = uput va (take (n + k) src) (umem ?m root) a" for a
    proof -
      have "umem m' root a = uput (va + of_nat n) (take k (drop n src)) (uput va (take n src) (umem ?m root)) a"
        using 1(3) 2(3) ve uput_cong [of "umem m1 root" a] by auto
      then show ?thesis using uput_append [of "take n src" "take k (drop n src)" va "umem ?m root" a] n less.prems(2)
        by (simp add: take_add)
    qed
    moreover have "uwritable ?m root (va + of_nat i)" if "i < n + k" for i
    proof (cases "i < n")
      case True
      then show ?thesis using uwritable_page False n_def by blast
    next
      case False
      then have lt: "i - n < k" and "n \<noteq> length src" using 2(5) that by linarith+
      then have "PGROUNDDOWN va + PGSIZE + of_nat (i - n) = va + of_nat i" using ve False by simp
      then show ?thesis using 2(4) [rule_format, OF lt] wrote_user_writable [OF 1(2)] by metis
    qed
    moreover have "\<not> uwritable ?m root (va + of_nat (n + k))" if "r \<noteq> 0"
    proof -
      have "n \<noteq> length src" "\<not> uwritable m1 root (PGROUNDDOWN va + PGSIZE + of_nat k)" using 2(5) that by auto
      moreover from this have "PGROUNDDOWN va + PGSIZE + of_nat k = va + of_nat (n + k)" using ve by (simp add: add.assoc)
      ultimately show ?thesis using wrote_user_writable [OF 1(2)] by metis
    qed
    ultimately show ?thesis using 1(1) 2(1,5) wrote_user_trans [OF 1(2) 2(2)] n
      by (intro exI [of _ r] exI [of _ "n + k"] exI [of _ m']) auto
  qed
qed

lemma copyout_writes_all:
  assumes "uctx (mem w) root" "\<And>i. i < length src \<Longrightarrow> uwritable (mem w) root (va + of_nat i)" "length src < 2 ^ 64"
  shows "\<exists>m'. copyout root va src w = Ok 0 (w\<lparr>mem := m'\<rparr>)"
  using copyout_run [OF assms(1,3), of va] assms(2) by blast

section \<open>copyin and copyinstr\<close>

lemma copyin_run:
  assumes u: "uctx (mem w) root"
  shows "\<exists>r bs. copyin root va len w = Ok (r, bs) w
     \<and> (\<forall>i < length bs. umem (mem w) root (va + of_nat i) = Some (bs ! i))
     \<and> (r = 0 \<and> length bs = len \<or> r = - 1 \<and> length bs < len \<and> umem (mem w) root (va + of_nat (length bs)) = None)"
proof (induction len arbitrary: va rule: less_induct)
  case (less len)
  show ?case
  proof (cases "len = 0 \<or> user_page (mem w) root va = None")
    case True
    then have "copyin root va len w = Ok (if len = 0 then 0 else - 1, []) w"
      by (auto simp: copyin.simps [of root va] Let_def bind_def walkaddr_user [OF u] user_page_round)
    then show ?thesis using True by (auto simp: umem_def)
  next
    case False
    then obtain e where e: "user_page (mem w) root va = Some e" by auto
    define n where "n = chunk va len"
    have n: "0 < n" "n \<le> len" using chunk_pos [of len va] False by (auto simp: n_def chunk_eq)
    define cs where "cs = load_bytes (mem w) (upa e va) n"
    have head: "umem (mem w) root (va + of_nat i) = Some (cs ! i)" if "i < n" for i
    proof -
      have i: "i < 4096 - unat va mod 4096" using that by (simp add: n_def chunk_eq)
      then show ?thesis using that e user_page_same [OF same_page_offset(1) [OF i]] same_page_offset [OF i]
        by (simp add: umem_def cs_def upa_def algebra_simps)
    qed
    obtain r bs where ih: "copyin root (PGROUNDDOWN va + PGSIZE) (len - n) w = Ok (r, bs) w"
      "\<forall>i < length bs. umem (mem w) root (PGROUNDDOWN va + PGSIZE + of_nat i) = Some (bs ! i)"
      "r = 0 \<and> length bs = len - n \<or> r = - 1 \<and> length bs < len - n
         \<and> umem (mem w) root (PGROUNDDOWN va + PGSIZE + of_nat (length bs)) = None"
      using less.IH [of "len - n" "PGROUNDDOWN va + PGSIZE"] n by auto
    have ve: "n = len \<or> PGROUNDDOWN va + PGSIZE = va + of_nat n"
      using page_end [of va] by (auto simp: n_def chunk_eq min_def)
    have "copyin root va len w = Ok (r, cs @ bs) w"
      using False e uspaceD(3) [OF _ e] u [unfolded uctx_def] ih(1)
      by (simp add: copyin.simps [of root va] Let_def bind_def walkaddr_user [OF u] user_page_round cs_def upa_def n_def)
    moreover have "umem (mem w) root (va + of_nat i) = Some ((cs @ bs) ! i)" if "i < length (cs @ bs)" for i
    proof (cases "i < n")
      case True
      then show ?thesis using head by (simp add: nth_append cs_def)
    next
      case False
      then have lt: "i - n < length bs" and "n \<noteq> len" using that ih(3) by (auto simp: cs_def)
      then have "PGROUNDDOWN va + PGSIZE + of_nat (i - n) = va + of_nat i" using ve False by simp
      then have "umem (mem w) root (va + of_nat i) = Some (bs ! (i - n))" using ih(2) [rule_format, OF lt] by metis
      then show ?thesis using False by (simp add: nth_append cs_def)
    qed
    moreover have "umem (mem w) root (va + of_nat (length (cs @ bs))) = None" if "r \<noteq> 0"
    proof -
      have "n \<noteq> len" "umem (mem w) root (PGROUNDDOWN va + PGSIZE + of_nat (length bs)) = None"
        using ih(3) that by auto
      moreover from this have "PGROUNDDOWN va + PGSIZE + of_nat (length bs) = va + of_nat (length (cs @ bs))"
        using ve by (simp add: add.assoc cs_def)
      ultimately show ?thesis by metis
    qed
    ultimately show ?thesis using ih(3) n
      by (intro exI [of _ r] exI [of _ "cs @ bs"]) (auto simp: cs_def)
  qed
qed

lemma str_chunk_run:
  "str_chunk bs = (if 0 \<in> set bs then (takeWhile (\<lambda>b. b \<noteq> 0) bs @ [0], True) else (bs, False))"
  by (induction bs) (auto simp: case_prod_beta)

section \<open>The properties\<close>

text \<open>
  C2. The kernel writes user memory only where the user could: \<open>copyout\<close> always returns, 0 if every
  destination byte lies on a page mapped for the user with write permission, and -1 otherwise. The
  user's view of memory then has the source bytes from the destination on (up to the first byte
  that is not writable) and nothing else changed; no byte of memory outside user-writable pages is
  touched, and the address translation stays what it was.
\<close>

theorem copyout_writes_user_pages_only:
  assumes "uctx (mem w) root" and "length src < 2 ^ 64"
  shows "\<exists>k m'. copyout root va src w =
       Ok (if \<forall>i < length src. uwritable (mem w) root (va + of_nat i) then 0 else - 1) (w\<lparr>mem := m'\<rparr>)
     \<and> wrote_user (mem w) root m' \<and> umem m' root = uput va (take k src) (umem (mem w) root)
     \<and> (\<forall>i < k. uwritable (mem w) root (va + of_nat i))
     \<and> (k = length src \<or> \<not> uwritable (mem w) root (va + of_nat k))"
proof -
  obtain r k m' where r: "copyout root va src w = Ok r (w\<lparr>mem := m'\<rparr>)" "wrote_user (mem w) root m'"
     "\<forall>a. umem m' root a = uput va (take k src) (umem (mem w) root) a"
     "\<forall>i < k. uwritable (mem w) root (va + of_nat i)"
     "r = 0 \<and> k = length src \<or> r = - 1 \<and> k < length src \<and> \<not> uwritable (mem w) root (va + of_nat k)"
    using copyout_run [OF assms, of va] by blast
  then have "r = (if \<forall>i < length src. uwritable (mem w) root (va + of_nat i) then 0 else - 1)" by auto
  then show ?thesis using r by (intro exI [of _ k] exI [of _ m']) auto
qed

text \<open>A page table with one page mapped, at address 0, for reading and writing.\<close>

definition demo_root :: addr where "demo_root = 0x80023000"

definition demo_pte :: "64 word" where
  "demo_pte = PA2PTE 0x80026000 OR (PTE_R OR PTE_W OR PTE_U) OR PTE_V"

definition demo_mem :: memory where
  "demo_mem = store64 (store64 (store64 (\<lambda>_. 0) (demo_root + 8 * of_nat 0) (PA2PTE 0x80024000 OR PTE_V))
     (0x80024000 + 8 * of_nat 0) (PA2PTE 0x80025000 OR PTE_V)) (0x80025000 + 8 * PX 0 0) demo_pte"

lemma demo_tables:
  "ptwf demo_mem demo_root" "tables demo_mem demo_root = {demo_root, 0x80024000, 0x80025000}"
  "va < MAXVA \<Longrightarrow> leaf demo_mem demo_root va = (if PGROUNDDOWN va = 0 then Some demo_pte else None)"
proof -
  let ?m0 = "\<lambda>_. 0 :: byte" and ?t1 = "0x80024000 :: addr" and ?t0 = "0x80025000 :: addr"
  let ?m1 = "store64 ?m0 (demo_root + 8 * of_nat 0) (PA2PTE ?t1 OR PTE_V)"
  let ?m2 = "store64 ?m1 (?t1 + 8 * of_nat 0) (PA2PTE ?t0 OR PTE_V)"
  have al: "page_aligned demo_root" "page_aligned ?t1" "page_aligned ?t0"
    by (simp_all add: page_aligned_def demo_root_def)
  note e0 = empty_table [OF al(1), of ?m0]
  note n1 = new_table [OF e0(1), of "[]" demo_root 0 ?t1 ?m0 ?m1]
  have 1: "ptwf ?m1 demo_root" "tables ?m1 demo_root = {?t1, demo_root}" "tbl ?m1 demo_root [0] = Some ?t1"
    "leaf ?m1 demo_root a = None" for a
    using n1 e0(2,3) al(2) by (simp_all add: vpath_def entry_zero_page layout demo_root_def)
  have z: "?m1 x = 0" if "in_page ?t0 x \<or> in_page ?t1 x" for x
    using that pages_disjoint [OF al(1,2), of x] pages_disjoint [OF al(1,3), of x]
    by (intro store64_slot_outside [OF al(1)]) (auto simp: demo_root_def)
  note n2 = new_table [OF 1(1), of "[0]" ?t1 0 ?t0 ?m1 ?m2]
  have 2: "ptwf ?m2 demo_root" "tables ?m2 demo_root = {?t0, ?t1, demo_root}" "tbl ?m2 demo_root [0, 0] = Some ?t0"
    "leaf ?m2 demo_root a = None" for a
    using n2 1 z al(3) entry_zero_page [of 0 ?t1 ?m1] by (simp_all add: vpath_def layout demo_root_def)
  have p0: "path 0 = [0, 0]" by (simp add: path_def PX_def)
  then have p: "tbl ?m2 demo_root (path 0) = Some ?t0" using 2(3) by simp
  have m: "demo_mem = store64 ?m2 (?t0 + 8 * of_nat (px 0 0)) demo_pte" by (simp add: demo_mem_def)
  show "ptwf demo_mem demo_root" unfolding m using ptwf_store_leaf [OF 2(1) vpath_path length_path p px_less] .
  show "tables demo_mem demo_root = {demo_root, ?t1, ?t0}"
    unfolding m tables_store_leaf [OF 2(1) vpath_path length_path p px_less] using 2(2) by auto
  have v: "valid demo_pte" unfolding demo_pte_def valid_pte by simp
  show "leaf demo_mem demo_root va = (if PGROUNDDOWN va = 0 then Some demo_pte else None)" if "va < MAXVA"
    using leaf_store_leaf [OF 2(1) p _ that, of demo_pte] 2(4) PGROUNDDOWN_id [of 0]
    v by (simp add: demo_mem_def MAXVA_def)
qed

lemma demo_user:
  "user_page demo_mem demo_root va = (if PGROUNDDOWN va = 0 then Some demo_pte else None)"
  "uctx demo_mem demo_root" "uwritable demo_mem demo_root va \<longleftrightarrow> PGROUNDDOWN va = 0"
proof -
  have flags: "demo_pte AND PTE_U \<noteq> 0" "demo_pte AND PTE_W \<noteq> 0" "PTE2PA demo_pte = 0x80026000"
    by (simp_all add: demo_pte_def layout PA2PTE_def PTE2PA_def)
  show u: "user_page demo_mem demo_root a = (if PGROUNDDOWN a = 0 then Some demo_pte else None)" for a
  proof (cases "MAXVA \<le> a")
    case True
    then have "MAXVA \<le> PGROUNDDOWN a" by (simp add: PGROUNDDOWN_MAXVA)
    then have "PGROUNDDOWN a \<noteq> 0" by (auto simp: MAXVA_def)
    with True show ?thesis by (simp add: user_page_def)
  qed (simp add: user_page_def demo_tables not_le [symmetric] flags)
  then show "uctx demo_mem demo_root" "uwritable demo_mem demo_root va \<longleftrightarrow> PGROUNDDOWN va = 0"
    using flags demo_tables(1,2) by (auto simp: uctx_def uspace_def uwritable_def demo_root_def split: if_splits)
qed

theorem copyout_writes_user_pages_only_witness:
  "\<exists>m'. copyout demo_root 4 [7, 8] (bss\<lparr>mem := demo_mem\<rparr>) = Ok 0 (bss\<lparr>mem := m'\<rparr>)
     \<and> umem m' demo_root 5 = Some 8"
proof -
  have w: "uwritable demo_mem demo_root (4 + of_nat i)" if "i < length [7, 8 :: byte]" for i
    using that by (auto simp: demo_user less_Suc_eq PGROUNDDOWN_def PGSIZE_def)
  have "uctx (mem (bss\<lparr>mem := demo_mem\<rparr>)) demo_root" by (simp add: demo_user)
  from copyout_writes_user_pages_only [OF this, of "[7, 8]" 4] w
  obtain k m' where "copyout demo_root 4 [7, 8] (bss\<lparr>mem := demo_mem\<rparr>) = Ok 0 (bss\<lparr>mem := m'\<rparr>)"
    "umem m' demo_root = uput 4 (take k [7, 8]) (umem demo_mem demo_root)"
    "k = length [7, 8 :: byte] \<or> \<not> uwritable demo_mem demo_root (4 + of_nat k)"
    by (auto simp: less_Suc_eq)
  moreover have "uwritable demo_mem demo_root (4 + of_nat k)" if "k < 4092"
    using that same_page_offset(1) [of k 4] by (simp add: demo_user PGROUNDDOWN_def PGSIZE_def)
  ultimately show ?thesis by (intro exI [of _ m']) (auto simp: uput_def)
qed

text \<open>
  C12. What the kernel copies out to a user buffer it reads back: when \<open>copyout\<close> returns 0, \<open>copyin\<close>
  from the same address in the state it leaves returns 0 and exactly the bytes written.
\<close>

theorem copyout_copyin:
  assumes "uctx (mem w) root" and "length src < 2 ^ 64" and "copyout root va src w = Ok 0 w'"
  shows "copyin root va (length src) w' = Ok (0, src) w'"
proof -
  obtain k m' where m': "w' = w\<lparr>mem := m'\<rparr>" "wrote_user (mem w) root m'"
     "\<forall>a. umem m' root a = uput va (take k src) (umem (mem w) root) a" "k = length src"
    using copyout_run [OF assms(1,2), of va] assms(3) by auto
  have byte: "umem m' root (va + of_nat i) = Some (src ! i)" if "i < length src" for i
  proof -
    have "unat (of_nat i :: addr) = i" using that assms(2) by (intro of_nat_less_word) simp
    then show ?thesis using m'(3,4) that by (simp add: uput_def)
  qed
  have "uctx (mem w') root" using m' by (simp add: wrote_user_def)
  then obtain r bs where bs: "copyin root va (length src) w' = Ok (r, bs) w'"
     "\<forall>i < length bs. umem m' root (va + of_nat i) = Some (bs ! i)"
     "r = 0 \<and> length bs = length src \<or> r = - 1 \<and> length bs < length src \<and> umem m' root (va + of_nat (length bs)) = None"
    using copyin_run [of w' root va "length src"] m'(1) by auto
  then have "r = 0" "length bs = length src" using byte [of "length bs"] by auto
  moreover from this have "bs = src" using bs(2) byte by (auto intro!: nth_equalityI)
  ultimately show ?thesis using bs(1) by simp
qed

theorem copyout_copyin_witness:
  "\<exists>w'. copyout demo_root 4 [7, 8] (bss\<lparr>mem := demo_mem\<rparr>) = Ok 0 w' \<and> copyin demo_root 4 2 w' = Ok (0, [7, 8]) w'"
proof -
  have u: "uctx (mem (bss\<lparr>mem := demo_mem\<rparr>)) demo_root" by (simp add: demo_user)
  have "uwritable demo_mem demo_root (4 + of_nat i)" if "i < 2" for i
    using that same_page_offset(1) [of i 4] by (simp add: demo_user PGROUNDDOWN_def PGSIZE_def)
  then obtain m' where r: "copyout demo_root 4 [7, 8] (bss\<lparr>mem := demo_mem\<rparr>) = Ok 0 (bss\<lparr>mem := m'\<rparr>)"
    using copyout_writes_all [OF u, of "[7, 8]" 4] by auto
  have "copyin demo_root 4 (length [7, 8 :: byte]) (bss\<lparr>mem := m'\<rparr>) = Ok (0, [7, 8]) (bss\<lparr>mem := m'\<rparr>)"
    by (rule copyout_copyin [OF u _ r]) simp
  with r show ?thesis by (auto simp: numeral_2_eq_2)
qed

end
