(* ===== verification/Sleeplock.thy ===== *)
theory Sleeplock
  imports Sched
begin

text \<open>
  Loops that sleep until a condition holds, and the sleep locks of \<open>kernel/sleeplock.c\<close> built from
  them. A kernel thread in an orderly state is described by \<open>kctx\<close>: it runs as some process, holds
  no spinlock, and finds all of them free.
\<close>

section \<open>Loops that sleep\<close>

primrec loop_n :: "nat \<Rightarrow> 'a option kernel \<Rightarrow> 'a kernel" where
  "loop_n 0 body = stop Diverged"
| "loop_n (Suc n) body = bind body (\<lambda>r. case r of Some v \<Rightarrow> ret v | None \<Rightarrow> loop_n n body)"

definition loop :: "'a option kernel \<Rightarrow> 'a kernel" where
  \<comment> \<open>a loop each turn of which leaves with a value (\<open>Some\<close>) or has slept; \<open>loop_unfold\<close> shows that
      the number of turns allowed is enough\<close>
  "loop body = bind (gets (\<lambda>w. Suc (length (others w)))) (\<lambda>n. loop_n n body)"

definition sleep_while :: "(world \<Rightarrow> bool) \<Rightarrow> chan \<Rightarrow> lockid \<Rightarrow> unit kernel" where
  \<comment> \<open>\<open>while(c) sleep(ch, lk);\<close>\<close>
  "sleep_while c ch lk =
     loop (bind (gets c) (\<lambda>b. if b then andthen (sleep ch lk) (ret None) else ret (Some ())))"

lemma loop_n_enough:
  assumes "\<And>w w'. body w = Ok None w' \<Longrightarrow> length (others w') < length (others w)"
  shows "length (others w) < n \<Longrightarrow> length (others w) < m \<Longrightarrow> loop_n n body w = loop_n m body w"
proof (induction n arbitrary: m w)
  case 0
  then show ?case by simp
next
  case (Suc n)
  then obtain k where m: "m = Suc k" by (cases m) auto
  have "loop_n n body w' = loop_n k body w'" if "body w = Ok None w'" for w'
    using Suc.IH [of w' k] assms [OF that] Suc.prems m by simp
  then show ?case by (auto simp: m bind_def split: res.split option.split)
qed

lemma loop_unfold:
  assumes "\<And>w w'. body w = Ok None w' \<Longrightarrow> length (others w') < length (others w)"
  shows "loop body w = bind body (\<lambda>r. case r of Some v \<Rightarrow> ret v | None \<Rightarrow> loop body) w"
proof -
  have "loop_n (length (others w)) body w' = loop_n (Suc (length (others w'))) body w'"
    if "body w = Ok None w'" for w'
    by (rule loop_n_enough [OF assms]) (use assms [OF that] in auto)
  then show ?thesis
    by (auto simp: loop_def bind_def [of body] split: res.split option.split)
qed

lemma keep_others:
  "push_off w = Ok u1 w1 \<Longrightarrow> others w1 = others w"
  "pop_off w = Ok u2 w2 \<Longrightarrow> others w2 = others w"
  by (auto simp: push_off_def pop_off_def run_simps intr_off_run intr_on_run upd_defs split: if_splits)

lemma keep_others_lock:
  assumes "acquire lk w = Ok u w'" shows "others w' = others w"
proof -
  obtain w1 where "push_off w = Ok () w1" "others w' = others w1"
    using assms by (auto simp: acquire_def test_and_set_def cpuid_def run_simps upd_defs split: if_splits res.splits)
  then show ?thesis using keep_others(1) by simp
qed

lemma keep_others_release: "release lk w = Ok u w' \<Longrightarrow> others w' = others w"
  by (auto simp: release_def run_simps upd_defs dest!: keep_others split: if_splits)

lemma keep_others_curproc: "curproc w = Ok p w' \<Longrightarrow> others w' = others w"
  by (auto simp: curproc_def myproc_def run_simps deref_def dest!: keep_others split: if_splits res.splits option.splits)

lemma others_resume [simp]: "others (resume f w) = others w"
  by (simp add: resume_def world.defs kstate.defs)

lemma sched_consumes:
  assumes "sched w = Ok u w'" shows "length (others w') < length (others w)"
proof -
  obtain p w1 where p: "curproc w = Ok p w1" "others w1 = others w"
    using assms keep_others_curproc by (auto simp: sched_def bind_Ok_iff)
  then show ?thesis using assms
    by (auto simp: sched_def run_simps swtch_def upd_defs split: if_splits list.splits)
qed

lemma sleep_consumes:
  assumes "sleep ch lk w = Ok u w'" shows "length (others w') < length (others w)"
  using assms
  by (auto simp: sleep_def bind_Ok_iff andthen_Ok_iff upd_defs
      dest!: keep_others_curproc keep_others_lock keep_others_release sched_consumes)

lemma sleep_while_unfold:
  "sleep_while c ch lk w = (if c w then andthen (sleep ch lk) (sleep_while c ch lk) w else Ok () w)"
  unfolding sleep_while_def
  by (subst loop_unfold) (auto simp: run_simps dest: sleep_consumes split: if_splits res.splits)

section \<open>An orderly kernel thread\<close>

definition kctx :: "nat \<Rightarrow> world \<Rightarrow> bool" where
  "kctx p w \<longleftrightarrow> calm w \<and> noff (this_cpu w) = 0 \<and> running p w \<and> p < NPROC \<and> length (procs w) = NPROC
     \<and> (\<forall>lk. free_lock lk w)"

lemma kctx_upd [simp]:
  "kctx p (slocks_update g0 w) = kctx p w"
  "kctx p (kend_update g1 w) = kctx p w"
  "kctx p (etext_update g2 w) = kctx p w"
  "kctx p (trampoline_update g3 w) = kctx p w"
  "kctx p (mem_update g4 w) = kctx p w"
  "kctx p (freelist_update g5 w) = kctx p w"
  "kctx p (kernel_pagetable_update g6 w) = kctx p w"
  "kctx p (initproc_update g7 w) = kctx p w"
  "kctx p (nextpid_update g8 w) = kctx p w"
  "kctx p (trapframes_update g9 w) = kctx p w"
  "kctx p (ticks_update g10 w) = kctx p w"
  "kctx p (bufs_update g11 w) = kctx p w"
  "kctx p (ddisk_update g12 w) = kctx p w"
  "kctx p (dwrites_update g13 w) = kctx p w"
  "kctx p (klog_update g14 w) = kctx p w"
  "kctx p (sb_update g15 w) = kctx p w"
  "kctx p (itable_update g16 w) = kctx p w"
  "kctx p (ftable_update g17 w) = kctx p w"
  "kctx p (pipes_update g18 w) = kctx p w"
  "kctx p (cons_update g19 w) = kctx p w"
  "kctx p (kout_update g20 w) = kctx p w"
  "kctx p (uart_update g21 w) = kctx p w"
  "kctx p (devsw_update g22 w) = kctx p w"
  "kctx p (dev_in_update g23 w) = kctx p w"
  "kctx p (dev_out_update g24 w) = kctx p w"
  "kctx p (panicked_update g25 w) = kctx p w"
  "kctx p (pr_locking_update g26 w) = kctx p w"
  "kctx p (first_update g27 w) = kctx p w"
  "kctx p (started_update g28 w) = kctx p w"
  "kctx p (syms_update g29 w) = kctx p w"
  "kctx p (vdisk_update g30 w) = kctx p w"
  "kctx p (others_update g31 w) = kctx p w"
  by (simp_all add: kctx_def)

lemma kctx_procs [simp]:
  assumes "length ps = length (procs w)"
  shows "kctx p (w\<lparr>procs := ps\<rparr>) = kctx p w"
  using assms by (simp add: kctx_def)

lemma kctxD [simp]:
  assumes "kctx p w"
  shows "calm w" "noff (this_cpu w) = 0" "running p w" "p < NPROC" "length (procs w) = NPROC"
    "free_lock lk w" "procs_free w" "c_proc (this_cpu w) = Some p"
  using assms by (auto simp: kctx_def procs_free_def running_def)

lemma curproc_kctx [run_simps]:
  "kctx p w \<Longrightarrow> curproc w = Ok p w"
  "kctx p w \<Longrightarrow> curproc (hold lk w) = Ok p (hold lk w)"
  by (simp_all add: curproc_def run_simps)

section \<open>sleeplock.c\<close>

definition initsleeplock :: "slockid \<Rightarrow> string \<Rightarrow> unit kernel" where
  "initsleeplock lk name =
     andthen (initlock (Sleep_lk lk) ''sleep lock'')
     (andthen (modify (upd_slock lk (\<lambda>l. l\<lparr>sl_name := name\<rparr>)))
     (andthen (modify (upd_slock lk (\<lambda>l. l\<lparr>sl_locked := False\<rparr>)))
     (modify (upd_slock lk (\<lambda>l. l\<lparr>sl_pid := 0\<rparr>)))))"

definition acquiresleep :: "slockid \<Rightarrow> unit kernel" where
  "acquiresleep lk =
     andthen (acquire (Sleep_lk lk))
     (andthen (sleep_while (\<lambda>w. sl_locked (slocks w lk)) (Chan_sleeplock lk) (Sleep_lk lk))
     (andthen (modify (upd_slock lk (\<lambda>l. l\<lparr>sl_locked := True\<rparr>)))
     (bind curproc (\<lambda>p.
      andthen (modify (\<lambda>w. upd_slock lk (\<lambda>l. l\<lparr>sl_pid := p_pid (procs w ! p)\<rparr>) w))
      (release (Sleep_lk lk))))))"

definition releasesleep :: "slockid \<Rightarrow> unit kernel" where
  "releasesleep lk =
     andthen (acquire (Sleep_lk lk))
     (andthen (modify (upd_slock lk (\<lambda>l. l\<lparr>sl_locked := False\<rparr>)))
     (andthen (modify (upd_slock lk (\<lambda>l. l\<lparr>sl_pid := 0\<rparr>)))
     (andthen (wakeup (Chan_sleeplock lk))
     (release (Sleep_lk lk)))))"

definition holdingsleep :: "slockid \<Rightarrow> bool kernel" where
  "holdingsleep lk =
     andthen (acquire (Sleep_lk lk))
     (bind (gets (\<lambda>w. slocks w lk)) (\<lambda>l.
      bind (if sl_locked l
            then bind curproc (\<lambda>p. gets (\<lambda>w. sl_pid l = p_pid (procs w ! p)))
            else ret False) (\<lambda>r.
      andthen (release (Sleep_lk lk))
      (ret r))))"

definition owned :: "slockid \<Rightarrow> nat \<Rightarrow> world \<Rightarrow> bool" where
  \<comment> \<open>what \<open>holdingsleep\<close> called by process \<open>p\<close> tests\<close>
  "owned lk p w \<longleftrightarrow> sl_locked (slocks w lk) \<and> sl_pid (slocks w lk) = p_pid (procs w ! p)"

lemma slock_order: "sl_pid_update g (sl_locked_update f l) = sl_locked_update f (sl_pid_update g l)"
  by simp

lemma acquiresleep_free:
  assumes "kctx p w" "\<not> sl_locked (slocks w lk)"
  shows "acquiresleep lk w =
     Ok () (upd_slock lk (\<lambda>l. l\<lparr>sl_locked := True, sl_pid := p_pid (procs w ! p)\<rparr>) w)"
  using assms
  by (simp add: acquiresleep_def run_simps sleep_while_unfold upd_defs slock_order)

lemma releasesleep_run:
  assumes "kctx p w"
  shows "releasesleep lk w = 
     Ok () ((upd_slock lk (\<lambda>l. l\<lparr>sl_locked := False, sl_pid := 0\<rparr>) w)
       \<lparr>procs := wake (Chan_sleeplock lk) (Some p) (procs w)\<rparr>)"
  using assms
  by (simp add: releasesleep_def run_simps upd_defs slock_order)

lemma holdingsleep_run [run_simps]:
  "kctx p w \<Longrightarrow> holdingsleep lk w = Ok (owned lk p w) w"
  by (simp add: holdingsleep_def run_simps owned_def)

end
