(* ===== verification/Virtio.thy ===== *)
theory Virtio
  imports Sleeplock Kalloc
begin

unbundle bit_operations_syntax

text \<open>
  The disk driver, \<open>kernel/virtio_disk.c\<close>: descriptor allocation, the request chain of three
  descriptors, the wait for completion and the interrupt handler. The rings are shared with the
  device, which is not part of the kernel: the theory \<open>Disk\<close> states what the virtio specification
  promises of it.
\<close>

section \<open>virtio.h\<close>

definition NUM :: nat where [layout]: "NUM = 8"
definition VRING_DESC_F_NEXT :: "16 word" where [layout]: "VRING_DESC_F_NEXT = 1"
definition VRING_DESC_F_WRITE :: "16 word" where [layout]: "VRING_DESC_F_WRITE = 2"
definition VIRTIO_BLK_T_IN :: "32 word" where [layout]: "VIRTIO_BLK_T_IN = 0"
definition VIRTIO_BLK_T_OUT :: "32 word" where [layout]: "VIRTIO_BLK_T_OUT = 1"
definition VIRTIO_MMIO_MAGIC_VALUE :: addr where "VIRTIO_MMIO_MAGIC_VALUE = 0x000"
definition VIRTIO_MMIO_VERSION :: addr where "VIRTIO_MMIO_VERSION = 0x004"
definition VIRTIO_MMIO_DEVICE_ID :: addr where "VIRTIO_MMIO_DEVICE_ID = 0x008"
definition VIRTIO_MMIO_VENDOR_ID :: addr where "VIRTIO_MMIO_VENDOR_ID = 0x00c"
definition VIRTIO_MMIO_DEVICE_FEATURES :: addr where "VIRTIO_MMIO_DEVICE_FEATURES = 0x010"
definition VIRTIO_MMIO_DRIVER_FEATURES :: addr where "VIRTIO_MMIO_DRIVER_FEATURES = 0x020"
definition VIRTIO_MMIO_QUEUE_SEL :: addr where "VIRTIO_MMIO_QUEUE_SEL = 0x030"
definition VIRTIO_MMIO_QUEUE_NUM_MAX :: addr where "VIRTIO_MMIO_QUEUE_NUM_MAX = 0x034"
definition VIRTIO_MMIO_QUEUE_NUM :: addr where "VIRTIO_MMIO_QUEUE_NUM = 0x038"
definition VIRTIO_MMIO_QUEUE_READY :: addr where "VIRTIO_MMIO_QUEUE_READY = 0x044"
definition VIRTIO_MMIO_QUEUE_NOTIFY :: addr where "VIRTIO_MMIO_QUEUE_NOTIFY = 0x050"
definition VIRTIO_MMIO_INTERRUPT_STATUS :: addr where "VIRTIO_MMIO_INTERRUPT_STATUS = 0x060"
definition VIRTIO_MMIO_INTERRUPT_ACK :: addr where "VIRTIO_MMIO_INTERRUPT_ACK = 0x064"
definition VIRTIO_MMIO_STATUS :: addr where "VIRTIO_MMIO_STATUS = 0x070"
definition VIRTIO_MMIO_QUEUE_DESC_LOW :: addr where "VIRTIO_MMIO_QUEUE_DESC_LOW = 0x080"
definition VIRTIO_MMIO_QUEUE_DESC_HIGH :: addr where "VIRTIO_MMIO_QUEUE_DESC_HIGH = 0x084"
definition VIRTIO_MMIO_DRIVER_DESC_LOW :: addr where "VIRTIO_MMIO_DRIVER_DESC_LOW = 0x090"
definition VIRTIO_MMIO_DRIVER_DESC_HIGH :: addr where "VIRTIO_MMIO_DRIVER_DESC_HIGH = 0x094"
definition VIRTIO_MMIO_DEVICE_DESC_LOW :: addr where "VIRTIO_MMIO_DEVICE_DESC_LOW = 0x0a0"
definition VIRTIO_MMIO_DEVICE_DESC_HIGH :: addr where "VIRTIO_MMIO_DEVICE_DESC_HIGH = 0x0a4"
definition VIRTIO_CONFIG_S_ACKNOWLEDGE :: "32 word" where "VIRTIO_CONFIG_S_ACKNOWLEDGE = 1"
definition VIRTIO_CONFIG_S_DRIVER :: "32 word" where "VIRTIO_CONFIG_S_DRIVER = 2"
definition VIRTIO_CONFIG_S_DRIVER_OK :: "32 word" where "VIRTIO_CONFIG_S_DRIVER_OK = 4"
definition VIRTIO_CONFIG_S_FEATURES_OK :: "32 word" where "VIRTIO_CONFIG_S_FEATURES_OK = 8"

definition mmio_r :: "addr \<Rightarrow> 32 word kernel" where
  "mmio_r a = gets (\<lambda>w. dev_in w a)"

definition mmio_w :: "addr \<Rightarrow> 32 word \<Rightarrow> unit kernel" where
  "mmio_w a x = modify (\<lambda>w. w\<lparr>dev_out := dev_out w @ [(a, x)]\<rparr>)"

definition vdisk_r :: "addr \<Rightarrow> 32 word kernel" where
  \<comment> \<open>reading \<open>*R(r)\<close>\<close>
  "vdisk_r r = mmio_r (VIRTIO0 + r)"

definition upd_vdisk :: "(vdisk \<Rightarrow> vdisk) \<Rightarrow> world \<Rightarrow> world" where
  "upd_vdisk f w = w\<lparr>vdisk := f (vdisk w)\<rparr>"

definition vdisk_w :: "addr \<Rightarrow> 32 word \<Rightarrow> unit kernel" where
  \<comment> \<open>writing \<open>*R(r)\<close>; a notification tells the device of the requests available at that moment\<close>
  "vdisk_w r x =
     andthen (mmio_w (VIRTIO0 + r) x)
     (if r = VIRTIO_MMIO_QUEUE_NOTIFY then modify (upd_vdisk (\<lambda>v. v\<lparr>vkick := avail_idx v\<rparr>)) else skip)"

definition zero_desc :: virtq_desc where
  "zero_desc = \<lparr>vd_addr = Vnull, vd_len = 0, vd_flags = 0, vd_next = 0\<rparr>"

definition set_desc :: "nat \<Rightarrow> virtq_desc \<Rightarrow> unit kernel" where
  "set_desc i d = modify (upd_vdisk (\<lambda>v. v\<lparr>desc := (desc v)[i := d]\<rparr>))"

section \<open>virtio_disk.c\<close>

text \<open>The seven feature bits the driver clears: RO, SCSI, CONFIG\_WCE, MQ, ANY\_LAYOUT, EVENT\_IDX, INDIRECT\_DESC.\<close>

definition cleared_features :: "nat list" where
  "cleared_features = [5, 7, 11, 12, 27, 29, 28]"

definition virtio_disk_init :: "unit kernel" where
  "virtio_disk_init =
     andthen (initlock Vdisk_lock ''virtio_disk'')
     (bind (vdisk_r VIRTIO_MMIO_MAGIC_VALUE) (\<lambda>magic.
      bind (vdisk_r VIRTIO_MMIO_VERSION) (\<lambda>version.
      bind (vdisk_r VIRTIO_MMIO_DEVICE_ID) (\<lambda>device.
      bind (vdisk_r VIRTIO_MMIO_VENDOR_ID) (\<lambda>vendor.
      if magic \<noteq> 0x74726976 \<or> version \<noteq> 2 \<or> device \<noteq> 2 \<or> vendor \<noteq> 0x554d4551
      then panic ''could not find virtio disk'' else
      andthen (vdisk_w VIRTIO_MMIO_STATUS 0)
      (andthen (vdisk_w VIRTIO_MMIO_STATUS VIRTIO_CONFIG_S_ACKNOWLEDGE)
      (andthen (vdisk_w VIRTIO_MMIO_STATUS (VIRTIO_CONFIG_S_ACKNOWLEDGE OR VIRTIO_CONFIG_S_DRIVER))
      (bind (vdisk_r VIRTIO_MMIO_DEVICE_FEATURES) (\<lambda>features.
      andthen (vdisk_w VIRTIO_MMIO_DRIVER_FEATURES
        (fold (\<lambda>i f. f AND NOT (push_bit i 1)) cleared_features features))
      (andthen (vdisk_w VIRTIO_MMIO_STATUS
        (VIRTIO_CONFIG_S_ACKNOWLEDGE OR VIRTIO_CONFIG_S_DRIVER OR VIRTIO_CONFIG_S_FEATURES_OK))
      (bind (vdisk_r VIRTIO_MMIO_STATUS) (\<lambda>status.
      if status AND VIRTIO_CONFIG_S_FEATURES_OK = 0 then panic ''virtio disk FEATURES_OK unset'' else
      andthen (vdisk_w VIRTIO_MMIO_QUEUE_SEL 0)
      (bind (vdisk_r VIRTIO_MMIO_QUEUE_READY) (\<lambda>ready.
      if ready \<noteq> 0 then panic ''virtio disk should not be ready'' else
      bind (vdisk_r VIRTIO_MMIO_QUEUE_NUM_MAX) (\<lambda>m.
      if m = 0 then panic ''virtio disk has no queue 0''
      else if m < of_nat NUM then panic ''virtio disk max queue too short'' else
      bind kalloc (\<lambda>pdesc. bind kalloc (\<lambda>pavail. bind kalloc (\<lambda>pused.
      if pdesc = 0 \<or> pavail = 0 \<or> pused = 0 then panic ''virtio disk kalloc'' else
      andthen (modify (upd_vdisk (\<lambda>v. v\<lparr>vpages := [pdesc, pavail, pused]\<rparr>)))
      (andthen (modify (upd_vdisk (\<lambda>v. v\<lparr>desc := replicate NUM zero_desc,
         avail_idx := 0, avail_ring := replicate NUM 0, used_idx_dev := 0, used_ring := replicate NUM 0\<rparr>)))
      (andthen (vdisk_w VIRTIO_MMIO_QUEUE_NUM (of_nat NUM))
      (andthen (vdisk_w VIRTIO_MMIO_QUEUE_DESC_LOW (ucast pdesc))
      (andthen (vdisk_w VIRTIO_MMIO_QUEUE_DESC_HIGH (ucast (drop_bit 32 pdesc)))
      (andthen (vdisk_w VIRTIO_MMIO_DRIVER_DESC_LOW (ucast pavail))
      (andthen (vdisk_w VIRTIO_MMIO_DRIVER_DESC_HIGH (ucast (drop_bit 32 pavail)))
      (andthen (vdisk_w VIRTIO_MMIO_DEVICE_DESC_LOW (ucast pused))
      (andthen (vdisk_w VIRTIO_MMIO_DEVICE_DESC_HIGH (ucast (drop_bit 32 pused)))
      (andthen (vdisk_w VIRTIO_MMIO_QUEUE_READY 1)
      (andthen (for_each [0..<NUM] (\<lambda>i. modify (upd_vdisk (\<lambda>v. v\<lparr>vfree := (vfree v)[i := True]\<rparr>))))
      (vdisk_w VIRTIO_MMIO_STATUS (status OR VIRTIO_CONFIG_S_DRIVER_OK))))))))))))))))))))))))))))))"

definition alloc_desc :: "int kernel" where
  "alloc_desc =
     bind (for_find [0..<NUM] (\<lambda>i.
       bind (gets (\<lambda>w. vfree (vdisk w) ! i)) (\<lambda>fr.
       if fr then andthen (modify (upd_vdisk (\<lambda>v. v\<lparr>vfree := (vfree v)[i := False]\<rparr>))) (ret (Some (int i)))
       else ret None)))
     (\<lambda>r. case r of Some i \<Rightarrow> ret i | None \<Rightarrow> ret (- 1))"

definition free_desc :: "nat \<Rightarrow> unit kernel" where
  "free_desc i =
     (if NUM \<le> i then panic ''free_desc 1'' else
      bind (gets (\<lambda>w. vfree (vdisk w) ! i)) (\<lambda>fr.
      if fr then panic ''free_desc 2'' else
      andthen (set_desc i zero_desc)
      (andthen (modify (upd_vdisk (\<lambda>v. v\<lparr>vfree := (vfree v)[i := True]\<rparr>)))
      (wakeup Chan_disk_free))))"

primrec free_chain_n :: "nat \<Rightarrow> nat \<Rightarrow> unit kernel" where
  "free_chain_n 0 i = stop Diverged"
| "free_chain_n (Suc k) i =
     bind (gets (\<lambda>w. desc (vdisk w) ! i)) (\<lambda>d.
     andthen (free_desc i)
     (if vd_flags d AND VRING_DESC_F_NEXT \<noteq> 0 then free_chain_n k (unat (vd_next d)) else skip))"

definition free_chain :: "nat \<Rightarrow> unit kernel" where
  \<comment> \<open>each turn frees a descriptor that was not free, so there are at most NUM and the one that panics\<close>
  "free_chain = free_chain_n (Suc NUM)"

primrec alloc3_loop :: "nat \<Rightarrow> nat list \<Rightarrow> nat list option kernel" where
  "alloc3_loop 0 idx = ret (Some idx)"
| "alloc3_loop (Suc k) idx =
     bind alloc_desc (\<lambda>d.
     if d < 0 then andthen (for_each idx free_desc) (ret None)
     else alloc3_loop k (idx @ [nat d]))"

definition alloc3_desc :: "nat list option kernel" where
  \<comment> \<open>the three indices, or \<open>None\<close> for -1\<close>
  "alloc3_desc = alloc3_loop 3 []"

definition put_chain :: "nat \<Rightarrow> bool \<Rightarrow> 64 word \<Rightarrow> nat \<Rightarrow> nat \<Rightarrow> nat \<Rightarrow> unit kernel" where
  \<comment> \<open>format the three descriptors of a request and hand the chain to the device\<close>
  "put_chain b write sector i0 i1 i2 =
     andthen (modify (upd_vdisk (\<lambda>v. v\<lparr>vops := (vops v)[i0 := \<lparr>vr_type = if write then VIRTIO_BLK_T_OUT
        else VIRTIO_BLK_T_IN, vr_reserved = 0, vr_sector = sector\<rparr>]\<rparr>)))
     (andthen (set_desc i0 \<lparr>vd_addr = Vop i0, vd_len = 16, vd_flags = VRING_DESC_F_NEXT, vd_next = of_nat i1\<rparr>)
     (andthen (set_desc i1 \<lparr>vd_addr = Vdata b, vd_len = of_nat BSIZE,
        vd_flags = (if write then 0 else VRING_DESC_F_WRITE) OR VRING_DESC_F_NEXT, vd_next = of_nat i2\<rparr>)
     (andthen (modify (upd_vdisk (\<lambda>v. v\<lparr>info_status := (info_status v)[i0 := 0xff]\<rparr>)))
     (andthen (set_desc i2 \<lparr>vd_addr = Vstatus i0, vd_len = 1, vd_flags = VRING_DESC_F_WRITE, vd_next = 0\<rparr>)
     (andthen (modify (upd_buf b (\<lambda>b. b\<lparr>b_disk := True\<rparr>)))
     (andthen (modify (upd_vdisk (\<lambda>v. v\<lparr>info_b := (info_b v)[i0 := Some b]\<rparr>)))
     (andthen (modify (upd_vdisk (\<lambda>v. v\<lparr>avail_ring := (avail_ring v)[unat (avail_idx v) mod NUM := of_nat i0]\<rparr>)))
     (andthen (modify (upd_vdisk (\<lambda>v. v\<lparr>avail_idx := avail_idx v + 1\<rparr>)))
     (vdisk_w VIRTIO_MMIO_QUEUE_NOTIFY 0)))))))))"

definition virtio_disk_rw :: "nat \<Rightarrow> bool \<Rightarrow> unit kernel" where
  "virtio_disk_rw b write =
     bind (gets (\<lambda>w. ucast (b_blockno (bufs w ! b) * of_nat (BSIZE div 512)) :: 64 word)) (\<lambda>sector.
     andthen (acquire Vdisk_lock)
     (bind (loop (bind alloc3_desc (\<lambda>r. case r of Some idx \<Rightarrow> ret (Some idx)
        | None \<Rightarrow> andthen (sleep Chan_disk_free Vdisk_lock) (ret None)))) (\<lambda>idx.
      andthen (put_chain b write sector (idx ! 0) (idx ! 1) (idx ! 2))
      (andthen (sleep_while (\<lambda>w. b_disk (bufs w ! b)) (Chan_buf b) Vdisk_lock)
      (andthen (modify (upd_vdisk (\<lambda>v. v\<lparr>info_b := (info_b v)[idx ! 0 := None]\<rparr>)))
      (andthen (free_chain (idx ! 0))
      (release Vdisk_lock)))))))"

primrec intr_loop :: "nat \<Rightarrow> unit kernel" where
  \<comment> \<open>the loop of \<open>virtio_disk_intr\<close>; each turn brings \<open>disk.used_idx\<close> nearer to \<open>disk.used->idx\<close>\<close>
  "intr_loop 0 = stop Diverged"
| "intr_loop (Suc n) =
     bind (gets (\<lambda>w. used_idx (vdisk w) = used_idx_dev (vdisk w))) (\<lambda>seen.
     if seen then skip else
     bind (gets (\<lambda>w. unat (used_ring (vdisk w) ! (unat (used_idx (vdisk w)) mod NUM)))) (\<lambda>id.
     if NUM \<le> id then stop Fault else
     bind (gets (\<lambda>w. info_status (vdisk w) ! id)) (\<lambda>status.
     if status \<noteq> 0 then panic ''virtio_disk_intr status'' else
     bind (gets (\<lambda>w. info_b (vdisk w) ! id)) (\<lambda>ob.
     bind (deref ob) (\<lambda>b.
     andthen (modify (upd_buf b (\<lambda>b. b\<lparr>b_disk := False\<rparr>)))
     (andthen (wakeup (Chan_buf b))
     (andthen (modify (upd_vdisk (\<lambda>v. v\<lparr>used_idx := used_idx v + 1\<rparr>)))
     (intr_loop n))))))))"

definition virtio_disk_intr :: "unit kernel" where
  \<comment> \<open>two 16-bit indices differ by less than \<open>2 ^ 16\<close>\<close>
  "virtio_disk_intr =
     andthen (acquire Vdisk_lock)
     (bind (vdisk_r VIRTIO_MMIO_INTERRUPT_STATUS) (\<lambda>st.
      andthen (vdisk_w VIRTIO_MMIO_INTERRUPT_ACK (st AND 3))
      (andthen (intr_loop (2 ^ 16))
      (release Vdisk_lock))))"

end
