(* ===== verification/Bio.thy ===== *)
theory Bio
  imports Virtio
begin

text \<open>
  The buffer cache, \<open>kernel/bio.c\<close>. The buffers form a ring through \<open>prev\<close> and \<open>next\<close>, most recently
  released first; entry NBUF of the table is \<open>bcache.head\<close>.
\<close>

section \<open>bio.c\<close>

definition binit_one :: "nat \<Rightarrow> unit kernel" where
  \<comment> \<open>the body of the loop of \<open>binit\<close>\<close>
  "binit_one b =
     andthen (modify (\<lambda>w. upd_buf b (\<lambda>x. x\<lparr>b_next := b_next (bufs w ! NBUF)\<rparr>) w))
     (andthen (modify (upd_buf b (\<lambda>x. x\<lparr>b_prev := NBUF\<rparr>)))
     (andthen (initsleeplock (Buf_lock b) ''buffer'')
     (andthen (modify (\<lambda>w. upd_buf (b_next (bufs w ! NBUF)) (\<lambda>x. x\<lparr>b_prev := b\<rparr>) w))
     (modify (upd_buf NBUF (\<lambda>h. h\<lparr>b_next := b\<rparr>))))))"

definition binit :: "unit kernel" where
  "binit =
     andthen (initlock Bcache_lock ''bcache'')
     (andthen (modify (upd_buf NBUF (\<lambda>h. h\<lparr>b_prev := NBUF\<rparr>)))
     (andthen (modify (upd_buf NBUF (\<lambda>h. h\<lparr>b_next := NBUF\<rparr>)))
     (for_each [0..<NBUF] binit_one)))"

text \<open>
  The two scans of \<open>bget\<close>. The ring has NBUF buffers, so a walk that has not come back to the head
  after NBUF steps is in a cycle and never will.
\<close>

primrec bget_cached :: "nat \<Rightarrow> nat \<Rightarrow> 32 word \<Rightarrow> 32 word \<Rightarrow> nat option kernel" where
  "bget_cached 0 b dev blockno = (if b = NBUF then ret None else stop Diverged)"
| "bget_cached (Suc n) b dev blockno =
     (if b = NBUF then ret None else
      bind (gets (\<lambda>w. bufs w ! b)) (\<lambda>x.
      if b_dev x = dev \<and> b_blockno x = blockno then ret (Some b)
      else bget_cached n (b_next x) dev blockno))"

primrec bget_unused :: "nat \<Rightarrow> nat \<Rightarrow> nat option kernel" where
  "bget_unused 0 b = (if b = NBUF then ret None else stop Diverged)"
| "bget_unused (Suc n) b =
     (if b = NBUF then ret None else
      bind (gets (\<lambda>w. bufs w ! b)) (\<lambda>x.
      if b_refcnt x = 0 then ret (Some b) else bget_unused n (b_prev x)))"

definition bget :: "32 word \<Rightarrow> 32 word \<Rightarrow> nat kernel" where
  "bget dev blockno =
     andthen (acquire Bcache_lock)
     (bind (gets (\<lambda>w. b_next (bufs w ! NBUF))) (\<lambda>b0.
      bind (bget_cached NBUF b0 dev blockno) (\<lambda>r.
      case r of
        Some b \<Rightarrow>
          andthen (modify (upd_buf b (\<lambda>x. x\<lparr>b_refcnt := b_refcnt x + 1\<rparr>)))
          (andthen (release Bcache_lock)
          (andthen (acquiresleep (Buf_lock b))
          (ret b)))
      | None \<Rightarrow>
          bind (gets (\<lambda>w. b_prev (bufs w ! NBUF))) (\<lambda>b1.
          bind (bget_unused NBUF b1) (\<lambda>r.
          case r of
            Some b \<Rightarrow>
              andthen (modify (upd_buf b (\<lambda>x. x\<lparr>b_dev := dev, b_blockno := blockno, b_valid := False, b_refcnt := 1\<rparr>)))
              (andthen (release Bcache_lock)
              (andthen (acquiresleep (Buf_lock b))
              (ret b)))
          | None \<Rightarrow> panic ''bget: no buffers'')))))"

definition bread :: "32 word \<Rightarrow> 32 word \<Rightarrow> nat kernel" where
  "bread dev blockno =
     bind (bget dev blockno) (\<lambda>b.
     bind (gets (\<lambda>w. b_valid (bufs w ! b))) (\<lambda>v.
     if v then ret b else
     andthen (virtio_disk_rw b False)
     (andthen (modify (upd_buf b (\<lambda>x. x\<lparr>b_valid := True\<rparr>)))
     (ret b))))"

definition bwrite :: "nat \<Rightarrow> unit kernel" where
  "bwrite b =
     bind (holdingsleep (Buf_lock b)) (\<lambda>h.
     if \<not> h then panic ''bwrite'' else virtio_disk_rw b True)"

definition brelse :: "nat \<Rightarrow> unit kernel" where
  "brelse b =
     bind (holdingsleep (Buf_lock b)) (\<lambda>h.
     if \<not> h then panic ''brelse'' else
     andthen (releasesleep (Buf_lock b))
     (andthen (acquire Bcache_lock)
     (andthen (modify (upd_buf b (\<lambda>x. x\<lparr>b_refcnt := b_refcnt x - 1\<rparr>)))
     (bind (gets (\<lambda>w. b_refcnt (bufs w ! b))) (\<lambda>rc.
      andthen (if rc = 0 then
          andthen (modify (\<lambda>w. upd_buf (b_next (bufs w ! b)) (\<lambda>x. x\<lparr>b_prev := b_prev (bufs w ! b)\<rparr>) w))
          (andthen (modify (\<lambda>w. upd_buf (b_prev (bufs w ! b)) (\<lambda>x. x\<lparr>b_next := b_next (bufs w ! b)\<rparr>) w))
          (andthen (modify (\<lambda>w. upd_buf b (\<lambda>x. x\<lparr>b_next := b_next (bufs w ! NBUF)\<rparr>) w))
          (andthen (modify (upd_buf b (\<lambda>x. x\<lparr>b_prev := NBUF\<rparr>)))
          (andthen (modify (\<lambda>w. upd_buf (b_next (bufs w ! NBUF)) (\<lambda>x. x\<lparr>b_prev := b\<rparr>) w))
          (modify (upd_buf NBUF (\<lambda>h. h\<lparr>b_next := b\<rparr>)))))))
        else skip)
      (release Bcache_lock))))))"

definition bpin :: "nat \<Rightarrow> unit kernel" where
  "bpin b =
     andthen (acquire Bcache_lock)
     (andthen (modify (upd_buf b (\<lambda>x. x\<lparr>b_refcnt := b_refcnt x + 1\<rparr>)))
     (release Bcache_lock))"

definition bunpin :: "nat \<Rightarrow> unit kernel" where
  "bunpin b =
     andthen (acquire Bcache_lock)
     (andthen (modify (upd_buf b (\<lambda>x. x\<lparr>b_refcnt := b_refcnt x - 1\<rparr>)))
     (release Bcache_lock))"

end
