(* ===== verification/Log.thy ===== *)
theory Log
  imports Bio
begin

text \<open>
  The write-ahead log, \<open>kernel/log.c\<close>. A block is a list of BSIZE bytes; the header block holds the
  count and the home block numbers as little-endian 32-bit integers.
\<close>

section \<open>Integers in a block\<close>

definition get32 :: "byte list \<Rightarrow> nat \<Rightarrow> 32 word" where
  \<comment> \<open>\<open>((uint*)data)[i]\<close>\<close>
  "get32 bs i = word_of (take 4 (drop (4 * i) bs))"

definition splice :: "byte list \<Rightarrow> nat \<Rightarrow> byte list \<Rightarrow> byte list" where
  \<comment> \<open>\<open>memmove(bs + off, cs, length of cs)\<close>\<close>
  "splice bs off cs = take off bs @ cs @ drop (off + length cs) bs"

definition put32 :: "byte list \<Rightarrow> nat \<Rightarrow> 32 word \<Rightarrow> byte list" where
  "put32 bs i v = splice bs (4 * i) (bytes_of 4 v)"

definition upd_data :: "nat \<Rightarrow> (byte list \<Rightarrow> byte list) \<Rightarrow> unit kernel" where
  "upd_data b f = modify (upd_buf b (\<lambda>x. x\<lparr>b_data := f (b_data x)\<rparr>))"

section \<open>log.c\<close>

definition log_block :: "nat \<Rightarrow> 32 word kernel" where
  \<comment> \<open>\<open>log.lh.block[i]\<close>\<close>
  "log_block i = gets (\<lambda>w. lh_block (log_lh (klog w)) ! i)"

definition set_lh_n :: "int \<Rightarrow> unit kernel" where
  "set_lh_n n = modify (upd_log (\<lambda>l. l\<lparr>log_lh := (log_lh l)\<lparr>lh_n := n\<rparr>\<rparr>))"

definition install_one :: "bool \<Rightarrow> nat \<Rightarrow> unit kernel" where
  \<comment> \<open>the body of the loop of \<open>install_trans\<close>\<close>
  "install_one recovering tail =
     bind (gets klog) (\<lambda>l.
     bind (bread (log_dev l) (log_start l + of_nat tail + 1)) (\<lambda>lbuf.
     bind (log_block tail) (\<lambda>home.
     bind (bread (log_dev l) home) (\<lambda>dbuf.
     bind (gets (\<lambda>w. b_data (bufs w ! lbuf))) (\<lambda>d.
     andthen (upd_data dbuf (\<lambda>_. d))
     (andthen (bwrite dbuf)
     (andthen (if \<not> recovering then bunpin dbuf else skip)
     (andthen (brelse lbuf)
     (brelse dbuf)))))))))"

definition install_trans :: "bool \<Rightarrow> unit kernel" where
  "install_trans recovering =
     bind (gets (\<lambda>w. nat (lh_n (log_lh (klog w))))) (\<lambda>n. for_each [0..<n] (install_one recovering))"

definition read_head :: "unit kernel" where
  "read_head =
     bind (gets klog) (\<lambda>l.
     bind (bread (log_dev l) (log_start l)) (\<lambda>b.
     bind (gets (\<lambda>w. b_data (bufs w ! b))) (\<lambda>d.
     andthen (set_lh_n (sint (get32 d 0)))
     (andthen (for_each [0..<nat (sint (get32 d 0))] (\<lambda>i.
        if LOGSIZE \<le> i then stop Fault else
        modify (upd_log (\<lambda>l. l\<lparr>log_lh := (log_lh l)\<lparr>lh_block := (lh_block (log_lh l))[i := get32 d (Suc i)]\<rparr>\<rparr>))))
     (brelse b)))))"

definition write_head :: "unit kernel" where
  "write_head =
     bind (gets klog) (\<lambda>l.
     bind (bread (log_dev l) (log_start l)) (\<lambda>b.
     andthen (upd_data b (\<lambda>d. put32 d 0 (word_of_int (lh_n (log_lh l)))))
     (andthen (for_each [0..<nat (lh_n (log_lh l))] (\<lambda>i.
        bind (log_block i) (\<lambda>v. upd_data b (\<lambda>d. put32 d (Suc i) v))))
     (andthen (bwrite b)
     (brelse b)))))"

definition recover_from_log :: "unit kernel" where
  "recover_from_log =
     andthen read_head
     (andthen (install_trans True)
     (andthen (set_lh_n 0)
     write_head))"

definition initlog :: "32 word \<Rightarrow> superblock \<Rightarrow> unit kernel" where
  "initlog dev s =
     (if BSIZE \<le> 4 * (1 + LOGSIZE) then panic ''initlog: too big logheader'' else
      andthen (initlock Log_lock ''log'')
      (andthen (modify (upd_log (\<lambda>l. l\<lparr>log_start := sb_logstart s\<rparr>)))
      (andthen (modify (upd_log (\<lambda>l. l\<lparr>log_size := sint (sb_nlog s)\<rparr>)))
      (andthen (modify (upd_log (\<lambda>l. l\<lparr>log_dev := dev\<rparr>)))
      recover_from_log))))"

definition begin_op :: "unit kernel" where
  "begin_op =
     andthen (acquire Log_lock)
     (loop (bind (gets klog) (\<lambda>l.
        if log_committing l then andthen (sleep Chan_log Log_lock) (ret None)
        else if lh_n (log_lh l) + (log_outstanding l + 1) * int MAXOPBLOCKS > int LOGSIZE
        then andthen (sleep Chan_log Log_lock) (ret None)
        else andthen (modify (upd_log (\<lambda>l. l\<lparr>log_outstanding := log_outstanding l + 1\<rparr>)))
          (andthen (release Log_lock)
          (ret (Some ()))))))"

definition write_one :: "nat \<Rightarrow> unit kernel" where
  \<comment> \<open>the body of the loop of \<open>write_log\<close>\<close>
  "write_one tail =
     bind (gets klog) (\<lambda>l.
     bind (bread (log_dev l) (log_start l + of_nat tail + 1)) (\<lambda>to.
     bind (log_block tail) (\<lambda>home.
     bind (bread (log_dev l) home) (\<lambda>src.
     bind (gets (\<lambda>w. b_data (bufs w ! src))) (\<lambda>d.
     andthen (upd_data to (\<lambda>_. d))
     (andthen (bwrite to)
     (andthen (brelse src)
     (brelse to))))))))"

definition write_log :: "unit kernel" where
  "write_log = bind (gets (\<lambda>w. nat (lh_n (log_lh (klog w))))) (\<lambda>n. for_each [0..<n] write_one)"

definition commit :: "unit kernel" where
  "commit =
     bind (gets (\<lambda>w. lh_n (log_lh (klog w)))) (\<lambda>n.
     if 0 < n then
       andthen write_log
       (andthen write_head
       (andthen (install_trans False)
       (andthen (set_lh_n 0)
       write_head)))
     else skip)"

definition end_op :: "unit kernel" where
  "end_op =
     andthen (acquire Log_lock)
     (andthen (modify (upd_log (\<lambda>l. l\<lparr>log_outstanding := log_outstanding l - 1\<rparr>)))
     (bind (gets klog) (\<lambda>l.
      if log_committing l then panic ''log.committing'' else
      bind (if log_outstanding l = 0
            then andthen (modify (upd_log (\<lambda>l. l\<lparr>log_committing := True\<rparr>))) (ret True)
            else andthen (wakeup Chan_log) (ret False)) (\<lambda>do_commit.
      andthen (release Log_lock)
      (if do_commit then
         andthen commit
         (andthen (acquire Log_lock)
         (andthen (modify (upd_log (\<lambda>l. l\<lparr>log_committing := False\<rparr>)))
         (andthen (wakeup Chan_log)
         (release Log_lock))))
       else skip)))))"

definition log_write :: "nat \<Rightarrow> unit kernel" where
  "log_write b =
     andthen (acquire Log_lock)
     (bind (gets klog) (\<lambda>l.
      if lh_n (log_lh l) \<ge> int LOGSIZE \<or> lh_n (log_lh l) \<ge> log_size l - 1
      then panic ''too big a transaction''
      else if log_outstanding l < 1 then panic ''log_write outside of trans'' else
      bind (gets (\<lambda>w. b_blockno (bufs w ! b))) (\<lambda>bno.
      bind (for_find [0..<nat (lh_n (log_lh l))] (\<lambda>i.
        bind (log_block i) (\<lambda>v. ret (if v = bno then Some i else None)))) (\<lambda>r.
      let i = (case r of Some i \<Rightarrow> i | None \<Rightarrow> nat (lh_n (log_lh l))) in
      andthen (modify (upd_log (\<lambda>l. l\<lparr>log_lh := (log_lh l)\<lparr>lh_block := (lh_block (log_lh l))[i := bno]\<rparr>\<rparr>)))
      (andthen (if int i = lh_n (log_lh l)
         then andthen (bpin b) (set_lh_n (lh_n (log_lh l) + 1)) else skip)
      (release Log_lock))))))"

end
