(* ===== verification/Copyio.thy ===== *)
theory Copyio
  imports Sched Vm
begin

text \<open>
  \<open>either_copyout\<close> and \<open>either_copyin\<close> of \<open>kernel/proc.c\<close>. The kernel end of a copy is a list of
  bytes. The other end is the current process's memory, a physical page the kernel addresses
  directly, or an object of the caller's own (a stack variable): then the bytes are handed to or
  taken from the caller as a list.
\<close>

datatype kdst = To_uaddr addr | To_kaddr addr | To_local

datatype ksrc = From_uaddr addr | From_local "byte list"

definition either_copyout :: "kdst \<Rightarrow> byte list \<Rightarrow> int kernel" where
  "either_copyout dst src =
     bind myproc (\<lambda>me.
     case dst of
       To_uaddr va \<Rightarrow> bind (deref me) (\<lambda>p. bind (gets (\<lambda>w. p_pagetable (procs w ! p))) (\<lambda>pt. copyout pt va src))
     | To_kaddr pa \<Rightarrow> andthen (modify (\<lambda>w. w\<lparr>mem := store_bytes (mem w) pa src\<rparr>)) (ret 0)
     | To_local \<Rightarrow> ret 0)"

definition either_copyin :: "ksrc \<Rightarrow> nat \<Rightarrow> (int \<times> byte list) kernel" where
  \<comment> \<open>the bytes are those stored at the kernel end, as far as the copy got\<close>
  "either_copyin src len =
     bind myproc (\<lambda>me.
     case src of
       From_uaddr va \<Rightarrow> bind (deref me) (\<lambda>p. bind (gets (\<lambda>w. p_pagetable (procs w ! p))) (\<lambda>pt. copyin pt va len))
     | From_local bs \<Rightarrow> ret (0, take len bs))"

definition kdst_add :: "kdst \<Rightarrow> 32 word \<Rightarrow> kdst" where
  \<comment> \<open>\<open>dst += m\<close>\<close>
  "kdst_add dst m = (case dst of To_uaddr va \<Rightarrow> To_uaddr (va + ucast m)
     | To_kaddr pa \<Rightarrow> To_kaddr (pa + ucast m) | To_local \<Rightarrow> To_local)"

definition ksrc_add :: "ksrc \<Rightarrow> 32 word \<Rightarrow> ksrc" where
  "ksrc_add src m = (case src of From_uaddr va \<Rightarrow> From_uaddr (va + ucast m)
     | From_local bs \<Rightarrow> From_local (drop (unat m) bs))"

end
