(* ===== verification/Printf.thy ===== *)
theory Printf
  imports Spinlock
begin

unbundle bit_operations_syntax

text \<open>
  Kernel console output: \<open>uartputc_sync\<close> of \<open>kernel/uart.c\<close>, \<open>consputc\<close> of \<open>kernel/console.c\<close> and
  \<open>kernel/printf.c\<close>. \<open>uartputc_sync\<close> spins until the transmitter is idle; the device gets there.
  The arguments of a \<open>printf\<close> are a list; taking one of the wrong kind is undefined behaviour.
\<close>

section \<open>One character\<close>

definition BACKSPACE :: int where "BACKSPACE = 0x100"

definition put_thr :: "int \<Rightarrow> world \<Rightarrow> world" where
  \<comment> \<open>\<open>WriteReg(THR, c)\<close>\<close>
  "put_thr c w = w\<lparr>kout := kout w @ [word_of_int c], uart := (uart w)\<lparr>ut_room := ut_room (uart w) - 1\<rparr>\<rparr>"

definition uartputc_sync :: "int \<Rightarrow> unit kernel" where
  "uartputc_sync c =
     andthen push_off
     (bind (gets panicked) (\<lambda>pk.
      if pk then stop Diverged else
      andthen (modify (put_thr c))
      pop_off))"

definition consputc :: "int \<Rightarrow> unit kernel" where
  "consputc c =
     (if c = BACKSPACE then
        andthen (uartputc_sync 8) (andthen (uartputc_sync 32) (uartputc_sync 8))
      else uartputc_sync c)"

section \<open>printf.c\<close>

definition char_code :: "char \<Rightarrow> int" where
  "char_code c = of_char c"

definition digits :: string where
  "digits = ''0123456789abcdef''"

function digit_list :: "nat \<Rightarrow> nat \<Rightarrow> string" where
  \<comment> \<open>what the loop puts into \<open>buf\<close>: the least significant digit first\<close>
  "digit_list base x =
     (digits ! (x mod base)) # (if x div base = 0 \<or> base < 2 then [] else digit_list base (x div base))"
  by auto
termination
  by (relation "measure snd") (auto simp: div_eq_0_iff intro!: div_less_dividend)

declare digit_list.simps [simp del]

definition printint :: "64 word \<Rightarrow> nat \<Rightarrow> bool \<Rightarrow> unit kernel" where
  \<comment> \<open>\<open>buf\<close> has 16 characters; writing past its end is undefined\<close>
  "printint xx base sign =
     (let neg = sign \<and> sint xx < 0; x = (if neg then - xx else xx);
          buf = digit_list base (unat x) @ (if neg then ''-'' else []) in
      if 16 < length buf then stop Fault
      else for_each (rev buf) (\<lambda>c. consputc (char_code c)))"

definition printptr :: "64 word \<Rightarrow> unit kernel" where
  "printptr x =
     andthen (consputc (char_code CHR ''0''))
     (andthen (consputc (char_code CHR ''x''))
     (for_each [0..<16] (\<lambda>i.
        consputc (char_code (digits ! unat (drop_bit 60 (push_bit (4 * i) x)))))))"

datatype varg = Arg_int "32 word" | Arg_long "64 word" | Arg_str "string option"

definition arg_int :: "varg list \<Rightarrow> (64 word \<Rightarrow> unit kernel) \<Rightarrow> (varg list \<Rightarrow> unit kernel) \<Rightarrow> unit kernel" where
  \<comment> \<open>\<open>va_arg(ap, int)\<close>, widened to \<open>long long\<close>\<close>
  "arg_int ap f k = (case ap of Arg_int x # r \<Rightarrow> andthen (f (scast x)) (k r) | _ \<Rightarrow> stop Fault)"

definition arg_long :: "varg list \<Rightarrow> (64 word \<Rightarrow> unit kernel) \<Rightarrow> (varg list \<Rightarrow> unit kernel) \<Rightarrow> unit kernel" where
  "arg_long ap f k = (case ap of Arg_long x # r \<Rightarrow> andthen (f x) (k r) | _ \<Rightarrow> stop Fault)"

definition arg_str :: "varg list \<Rightarrow> (varg list \<Rightarrow> unit kernel) \<Rightarrow> unit kernel" where
  "arg_str ap k = (case ap of Arg_str s # r \<Rightarrow>
     andthen (for_each (case s of None \<Rightarrow> ''(null)'' | Some s \<Rightarrow> s) (\<lambda>c. consputc (char_code c))) (k r)
     | _ \<Rightarrow> stop Fault)"

lemma arg_cong [fundef_cong]:
  "ap = ap' \<Longrightarrow> f = f' \<Longrightarrow> (\<And>r. k r = k' r) \<Longrightarrow> arg_int ap f k = arg_int ap' f' k'"
  "ap = ap' \<Longrightarrow> f = f' \<Longrightarrow> (\<And>r. k r = k' r) \<Longrightarrow> arg_long ap f k = arg_long ap' f' k'"
  "ap = ap' \<Longrightarrow> (\<And>r. k r = k' r) \<Longrightarrow> arg_str ap k = arg_str ap' k'"
  by (metis ext)+

definition starts :: "string \<Rightarrow> string \<Rightarrow> bool" where
  \<comment> \<open>the tests on \<open>c0\<close>, \<open>c1\<close> and \<open>c2\<close>\<close>
  "starts p fmt \<longleftrightarrow> take (length p) fmt = p"

function printf_loop :: "string \<Rightarrow> varg list \<Rightarrow> unit kernel" where
  "printf_loop [] ap = skip"
| "printf_loop (cx # fmt) ap =
     (if cx \<noteq> CHR ''%'' then andthen (consputc (char_code cx)) (printf_loop fmt ap)
      else if fmt = [] then skip
      else if starts ''d'' fmt then arg_int ap (\<lambda>x. printint x 10 True) (printf_loop (drop 1 fmt))
      else if starts ''ld'' fmt then arg_long ap (\<lambda>x. printint x 10 True) (printf_loop (drop 2 fmt))
      else if starts ''lld'' fmt then arg_long ap (\<lambda>x. printint x 10 True) (printf_loop (drop 3 fmt))
      else if starts ''u'' fmt then arg_int ap (\<lambda>x. printint x 10 False) (printf_loop (drop 1 fmt))
      else if starts ''lu'' fmt then arg_long ap (\<lambda>x. printint x 10 False) (printf_loop (drop 2 fmt))
      else if starts ''llu'' fmt then arg_long ap (\<lambda>x. printint x 10 False) (printf_loop (drop 3 fmt))
      else if starts ''x'' fmt then arg_int ap (\<lambda>x. printint x 16 False) (printf_loop (drop 1 fmt))
      else if starts ''lx'' fmt then arg_long ap (\<lambda>x. printint x 16 False) (printf_loop (drop 2 fmt))
      else if starts ''llx'' fmt then arg_long ap (\<lambda>x. printint x 16 False) (printf_loop (drop 3 fmt))
      else if starts ''p'' fmt then arg_long ap printptr (printf_loop (drop 1 fmt))
      else if starts ''s'' fmt then arg_str ap (printf_loop (drop 1 fmt))
      else if starts ''%'' fmt then andthen (consputc (char_code CHR ''%'')) (printf_loop (drop 1 fmt) ap)
      else andthen (consputc (char_code CHR ''%''))
        (andthen (consputc (char_code (hd fmt))) (printf_loop (drop 1 fmt) ap)))"
  by pat_completeness auto
termination
  by (relation "measure (\<lambda>(fmt, ap). length fmt)") auto

declare printf_loop.simps [simp del]

definition printf :: "string \<Rightarrow> varg list \<Rightarrow> int kernel" where
  "printf fmt ap =
     bind (gets pr_locking) (\<lambda>locking.
     andthen (if locking then acquire Pr_lock else skip)
     (andthen (printf_loop fmt ap)
     (andthen (if locking then release Pr_lock else skip)
     (ret 0))))"

definition newline :: string where "newline = [CHR 0x0A]"

definition kpanic :: "string \<Rightarrow> unit kernel" where
  \<comment> \<open>the routine \<open>panic\<close> itself; its callers are given only the fact that it does not return\<close>
  "kpanic s =
     andthen (modify (\<lambda>w. w\<lparr>pr_locking := False\<rparr>))
     (andthen (printf ''panic: '' [])
     (andthen (printf (''%s'' @ newline) [Arg_str (Some s)])
     (andthen (modify (\<lambda>w. w\<lparr>panicked := True\<rparr>))
     (panic s))))"

definition printfinit :: "unit kernel" where
  "printfinit =
     andthen (initlock Pr_lock ''pr'')
     (modify (\<lambda>w. w\<lparr>pr_locking := True\<rparr>))"

end
