(* ===== verification/Fs.thy ===== *)
theory Fs
  imports Log Copyio Printf
begin

unbundle bit_operations_syntax

text \<open>
  The file system, \<open>kernel/fs.c\<close>: block allocation, inodes, file contents, directories and path
  names. On-disk structures are byte ranges of blocks, converted by the \<open>enc\<close> and \<open>dec\<close> functions.
  A path is the list of its characters before the terminating zero, and a directory entry's name
  the list of its at most DIRSIZ characters.
\<close>

section \<open>On-disk structures (fs.h, stat.h)\<close>

definition get16 :: "byte list \<Rightarrow> nat \<Rightarrow> 16 word" where
  "get16 bs i = word_of (take 2 (drop (2 * i) bs))"

definition dec_superblock :: "byte list \<Rightarrow> superblock" where
  "dec_superblock d = \<lparr>sb_magic = get32 d 0, sb_size = get32 d 1, sb_nblocks = get32 d 2,
     sb_ninodes = get32 d 3, sb_nlog = get32 d 4, sb_logstart = get32 d 5, sb_inodestart = get32 d 6,
     sb_bmapstart = get32 d 7\<rparr>"

definition enc_dinode :: "dinode \<Rightarrow> byte list" where
  "enc_dinode i = bytes_of 2 (d_type i) @ bytes_of 2 (d_major i) @ bytes_of 2 (d_minor i)
     @ bytes_of 2 (d_nlink i) @ bytes_of 4 (d_size i) @ concat (map (bytes_of 4) (d_addrs i))"

definition dec_dinode :: "byte list \<Rightarrow> dinode" where
  "dec_dinode d = \<lparr>d_type = get16 d 0, d_major = get16 d 1, d_minor = get16 d 2, d_nlink = get16 d 3,
     d_size = get32 d 2, d_addrs = map (\<lambda>i. get32 d (3 + i)) [0..<Suc NDIRECT]\<rparr>"

definition enc_dirent :: "dirent \<Rightarrow> byte list" where
  "enc_dirent e = bytes_of 2 (de_inum e) @ de_name e"

definition dec_dirent :: "byte list \<Rightarrow> dirent" where
  "dec_dirent d = \<lparr>de_inum = get16 d 0, de_name = take DIRSIZ (drop 2 d)\<rparr>"

definition dirent_size :: "32 word" where "dirent_size = 16"

definition IBLOCK :: "32 word \<Rightarrow> superblock \<Rightarrow> 32 word" where
  "IBLOCK i s = i div of_nat IPB + sb_inodestart s"

definition BBLOCK :: "32 word \<Rightarrow> superblock \<Rightarrow> 32 word" where
  "BBLOCK b s = b div of_nat BPB + sb_bmapstart s"

definition T_DIR :: "16 word" where [layout]: "T_DIR = 1"
definition T_FILE :: "16 word" where [layout]: "T_FILE = 2"
definition T_DEVICE :: "16 word" where [layout]: "T_DEVICE = 3"

record stat =
  st_dev :: "32 word"
  st_ino :: "32 word"
  st_type :: "16 word"
  st_nlink :: "16 word"
  st_size :: "64 word"

definition enc_stat :: "stat \<Rightarrow> byte list" where
  \<comment> \<open>four bytes of padding before \<open>size\<close>, shown as zeros\<close>
  "enc_stat s = bytes_of 4 (st_dev s) @ bytes_of 4 (st_ino s) @ bytes_of 2 (st_type s)
     @ bytes_of 2 (st_nlink s) @ replicate 4 0 @ bytes_of 8 (st_size s)"

section \<open>Blocks\<close>

definition buf_data :: "nat \<Rightarrow> byte list kernel" where
  "buf_data b = gets (\<lambda>w. b_data (bufs w ! b))"

definition readsb :: "32 word \<Rightarrow> superblock kernel" where
  "readsb dev =
     bind (bread dev 1) (\<lambda>bp.
     bind (buf_data bp) (\<lambda>d.
     andthen (brelse bp)
     (ret (dec_superblock d))))"

definition fsinit :: "32 word \<Rightarrow> unit kernel" where
  "fsinit dev =
     bind (readsb dev) (\<lambda>s.
     andthen (modify (\<lambda>w. w\<lparr>sb := s\<rparr>))
     (if sb_magic s \<noteq> FSMAGIC then panic ''invalid file system'' else
      initlog dev s))"

definition bzero :: "32 word \<Rightarrow> 32 word \<Rightarrow> unit kernel" where
  "bzero dev bno =
     bind (bread dev bno) (\<lambda>bp.
     andthen (upd_data bp (\<lambda>_. replicate BSIZE 0))
     (andthen (log_write bp)
     (brelse bp)))"

definition block_free :: "byte list \<Rightarrow> nat \<Rightarrow> bool" where
  \<comment> \<open>\<open>(data[bi/8] & (1 << (bi % 8))) == 0\<close>\<close>
  "block_free d bi \<longleftrightarrow> d ! (bi div 8) AND push_bit (bi mod 8) 1 = 0"

definition mark_used :: "nat \<Rightarrow> byte list \<Rightarrow> byte list" where
  "mark_used bi d = d[bi div 8 := d ! (bi div 8) OR push_bit (bi mod 8) 1]"

definition mark_free :: "nat \<Rightarrow> byte list \<Rightarrow> byte list" where
  "mark_free bi d = d[bi div 8 := d ! (bi div 8) AND NOT (push_bit (bi mod 8) 1)]"

definition balloc :: "32 word \<Rightarrow> 32 word kernel" where
  "balloc dev =
     bind (gets (\<lambda>w. unat (sb_size (sb w)))) (\<lambda>size.
     bind (for_find (map (\<lambda>k. k * BPB) [0..<(size + BPB - 1) div BPB]) (\<lambda>b.
       bind (gets (\<lambda>w. BBLOCK (of_nat b) (sb w))) (\<lambda>bb.
       bind (bread dev bb) (\<lambda>bp.
       bind (buf_data bp) (\<lambda>d.
       case List.find (block_free d) [0..<min BPB (size - b)] of
         Some bi \<Rightarrow>
           andthen (upd_data bp (mark_used bi))
           (andthen (log_write bp)
           (andthen (brelse bp)
           (andthen (bzero dev (of_nat (b + bi)))
           (ret (Some (of_nat (b + bi)))))))
       | None \<Rightarrow> andthen (brelse bp) (ret None))))))
     (\<lambda>r. case r of Some x \<Rightarrow> ret x
        | None \<Rightarrow> andthen (printf (''balloc: out of blocks'' @ newline) []) (ret 0)))"

definition bfree :: "32 word \<Rightarrow> 32 word \<Rightarrow> unit kernel" where
  "bfree dev b =
     bind (gets (\<lambda>w. BBLOCK b (sb w))) (\<lambda>bb.
     bind (bread dev bb) (\<lambda>bp.
     bind (buf_data bp) (\<lambda>d.
     if block_free d (unat b mod BPB) then panic ''freeing free block'' else
     andthen (upd_data bp (mark_free (unat b mod BPB)))
     (andthen (log_write bp)
     (brelse bp)))))"

section \<open>Inodes\<close>

definition iinit :: "unit kernel" where
  "iinit =
     andthen (initlock Itable_lock ''itable'')
     (for_each [0..<NINODE] (\<lambda>i. initsleeplock (Inode_lock i) ''inode''))"

text \<open>The loop of \<open>iget\<close>: the entry found, and otherwise the first free one.\<close>

primrec iget_scan :: "inode list \<Rightarrow> 32 word \<Rightarrow> 32 word \<Rightarrow> nat list \<Rightarrow> nat option \<Rightarrow> nat option \<times> nat option" where
  "iget_scan tbl dev inum [] slot = (None, slot)"
| "iget_scan tbl dev inum (i # is) slot =
     (let ip = tbl ! i in
      if i_ref ip > 0 \<and> i_dev ip = dev \<and> i_inum ip = inum then (Some i, slot)
      else iget_scan tbl dev inum is (if slot = None \<and> i_ref ip = 0 then Some i else slot))"

definition iget :: "32 word \<Rightarrow> 32 word \<Rightarrow> nat kernel" where
  "iget dev inum =
     andthen (acquire Itable_lock)
     (bind (gets (\<lambda>w. iget_scan (itable w) dev inum [0..<NINODE] None)) (\<lambda>(found, slot).
      case found of
        Some i \<Rightarrow>
          andthen (modify (upd_inode i (\<lambda>ip. ip\<lparr>i_ref := i_ref ip + 1\<rparr>)))
          (andthen (release Itable_lock)
          (ret i))
      | None \<Rightarrow>
          (case slot of None \<Rightarrow> panic ''iget: no inodes''
           | Some i \<Rightarrow>
              andthen (modify (upd_inode i (\<lambda>ip. ip\<lparr>i_dev := dev, i_inum := inum, i_ref := 1, i_valid := False\<rparr>)))
              (andthen (release Itable_lock)
              (ret i)))))"

definition dinode_off :: "32 word \<Rightarrow> nat" where
  \<comment> \<open>byte offset of \<open>(struct dinode*)bp->data + inum%IPB\<close>\<close>
  "dinode_off inum = 64 * (unat inum mod IPB)"

definition ialloc :: "32 word \<Rightarrow> 16 word \<Rightarrow> nat option kernel" where
  "ialloc dev ty =
     bind (gets (\<lambda>w. unat (sb_ninodes (sb w)))) (\<lambda>n.
     bind (for_find [1..<n] (\<lambda>inum.
       bind (gets (\<lambda>w. IBLOCK (of_nat inum) (sb w))) (\<lambda>ib.
       bind (bread dev ib) (\<lambda>bp.
       bind (buf_data bp) (\<lambda>d.
       let off = dinode_off (of_nat inum) in
       if d_type (dec_dinode (take 64 (drop off d))) = 0 then
         andthen (upd_data bp (\<lambda>d. splice d off (replicate 64 0)))
         (andthen (upd_data bp (\<lambda>d. splice d off (bytes_of 2 ty)))
         (andthen (log_write bp)
         (andthen (brelse bp)
         (bind (iget dev (of_nat inum)) (\<lambda>ip. ret (Some ip))))))
       else andthen (brelse bp) (ret None))))))
     (\<lambda>r. case r of Some ip \<Rightarrow> ret (Some ip)
        | None \<Rightarrow> andthen (printf (''ialloc: no inodes'' @ newline) []) (ret None)))"

definition to_dinode :: "inode \<Rightarrow> dinode" where
  "to_dinode ip = \<lparr>d_type = i_type ip, d_major = i_major ip, d_minor = i_minor ip,
     d_nlink = i_nlink ip, d_size = i_size ip, d_addrs = i_addrs ip\<rparr>"

definition from_dinode :: "dinode \<Rightarrow> inode \<Rightarrow> inode" where
  "from_dinode d ip = ip\<lparr>i_type := d_type d, i_major := d_major d, i_minor := d_minor d,
     i_nlink := d_nlink d, i_size := d_size d, i_addrs := d_addrs d\<rparr>"

definition iupdate :: "nat \<Rightarrow> unit kernel" where
  "iupdate i =
     bind (gets (\<lambda>w. itable w ! i)) (\<lambda>ip.
     bind (gets (\<lambda>w. IBLOCK (i_inum ip) (sb w))) (\<lambda>ib.
     bind (bread (i_dev ip) ib) (\<lambda>bp.
     andthen (upd_data bp (\<lambda>d. splice d (dinode_off (i_inum ip)) (enc_dinode (to_dinode ip))))
     (andthen (log_write bp)
     (brelse bp)))))"

definition idup :: "nat \<Rightarrow> nat kernel" where
  "idup i =
     andthen (acquire Itable_lock)
     (andthen (modify (upd_inode i (\<lambda>ip. ip\<lparr>i_ref := i_ref ip + 1\<rparr>)))
     (andthen (release Itable_lock)
     (ret i)))"

definition ilock :: "nat option \<Rightarrow> unit kernel" where
  "ilock oi =
     (case oi of None \<Rightarrow> panic ''ilock'' | Some i \<Rightarrow>
      bind (gets (\<lambda>w. i_ref (itable w ! i))) (\<lambda>r.
      if r < 1 then panic ''ilock'' else
      andthen (acquiresleep (Inode_lock i))
      (bind (gets (\<lambda>w. itable w ! i)) (\<lambda>ip.
       if i_valid ip then skip else
       bind (gets (\<lambda>w. IBLOCK (i_inum ip) (sb w))) (\<lambda>ib.
       bind (bread (i_dev ip) ib) (\<lambda>bp.
       bind (buf_data bp) (\<lambda>d.
       andthen (modify (upd_inode i (from_dinode (dec_dinode (take 64 (drop (dinode_off (i_inum ip)) d))))))
       (andthen (brelse bp)
       (andthen (modify (upd_inode i (\<lambda>ip. ip\<lparr>i_valid := True\<rparr>)))
       (bind (gets (\<lambda>w. i_type (itable w ! i))) (\<lambda>ty.
        if ty = 0 then panic ''ilock: no type'' else skip)))))))))))"

definition iunlock :: "nat option \<Rightarrow> unit kernel" where
  "iunlock oi =
     (case oi of None \<Rightarrow> panic ''iunlock'' | Some i \<Rightarrow>
      bind (holdingsleep (Inode_lock i)) (\<lambda>h.
      bind (gets (\<lambda>w. i_ref (itable w ! i))) (\<lambda>r.
      if \<not> h \<or> r < 1 then panic ''iunlock'' else
      releasesleep (Inode_lock i))))"

section \<open>File contents\<close>

definition bmap :: "nat \<Rightarrow> 32 word \<Rightarrow> 32 word kernel" where
  "bmap i bn =
     bind (gets (\<lambda>w. itable w ! i)) (\<lambda>ip.
     if bn < of_nat NDIRECT then
       (if i_addrs ip ! unat bn = 0 then
          bind (balloc (i_dev ip)) (\<lambda>a.
          if a = 0 then ret 0 else
          andthen (modify (upd_inode i (\<lambda>ip. ip\<lparr>i_addrs := (i_addrs ip)[unat bn := a]\<rparr>)))
          (ret a))
        else ret (i_addrs ip ! unat bn))
     else let bn = bn - of_nat NDIRECT in
     if bn < of_nat NINDIRECT then
       bind (if i_addrs ip ! NDIRECT = 0 then
               bind (balloc (i_dev ip)) (\<lambda>a.
               if a = 0 then ret 0 else
               andthen (modify (upd_inode i (\<lambda>ip. ip\<lparr>i_addrs := (i_addrs ip)[NDIRECT := a]\<rparr>)))
               (ret a))
             else ret (i_addrs ip ! NDIRECT)) (\<lambda>ind.
       if ind = 0 then ret 0 else
       bind (bread (i_dev ip) ind) (\<lambda>bp.
       bind (buf_data bp) (\<lambda>d.
       bind (if get32 d (unat bn) = 0 then
               bind (balloc (i_dev ip)) (\<lambda>a.
               andthen (if a \<noteq> 0 then
                   andthen (upd_data bp (\<lambda>d. put32 d (unat bn) a)) (log_write bp)
                 else skip)
               (ret a))
             else ret (get32 d (unat bn))) (\<lambda>a.
       andthen (brelse bp)
       (ret a)))))
     else panic ''bmap: out of range'')"

definition itrunc :: "nat \<Rightarrow> unit kernel" where
  "itrunc i =
     andthen (for_each [0..<NDIRECT] (\<lambda>k.
       bind (gets (\<lambda>w. itable w ! i)) (\<lambda>ip.
       if i_addrs ip ! k \<noteq> 0 then
         andthen (bfree (i_dev ip) (i_addrs ip ! k))
         (modify (upd_inode i (\<lambda>ip. ip\<lparr>i_addrs := (i_addrs ip)[k := 0]\<rparr>)))
       else skip)))
     (bind (gets (\<lambda>w. itable w ! i)) (\<lambda>ip.
      andthen (if i_addrs ip ! NDIRECT \<noteq> 0 then
          bind (bread (i_dev ip) (i_addrs ip ! NDIRECT)) (\<lambda>bp.
          andthen (for_each [0..<NINDIRECT] (\<lambda>j.
            bind (buf_data bp) (\<lambda>d.
            if get32 d j \<noteq> 0 then bfree (i_dev ip) (get32 d j) else skip)))
          (andthen (brelse bp)
          (andthen (bfree (i_dev ip) (i_addrs ip ! NDIRECT))
          (modify (upd_inode i (\<lambda>ip. ip\<lparr>i_addrs := (i_addrs ip)[NDIRECT := 0]\<rparr>))))))
        else skip)
      (andthen (modify (upd_inode i (\<lambda>ip. ip\<lparr>i_size := 0\<rparr>)))
      (iupdate i))))"

definition iput :: "nat \<Rightarrow> unit kernel" where
  "iput i =
     andthen (acquire Itable_lock)
     (bind (gets (\<lambda>w. itable w ! i)) (\<lambda>ip.
      andthen (if i_ref ip = 1 \<and> i_valid ip \<and> i_nlink ip = 0 then
          andthen (acquiresleep (Inode_lock i))
          (andthen (release Itable_lock)
          (andthen (itrunc i)
          (andthen (modify (upd_inode i (\<lambda>ip. ip\<lparr>i_type := 0\<rparr>)))
          (andthen (iupdate i)
          (andthen (modify (upd_inode i (\<lambda>ip. ip\<lparr>i_valid := False\<rparr>)))
          (andthen (releasesleep (Inode_lock i))
          (acquire Itable_lock)))))))
        else skip)
      (andthen (modify (upd_inode i (\<lambda>ip. ip\<lparr>i_ref := i_ref ip - 1\<rparr>)))
      (release Itable_lock))))"

definition iunlockput :: "nat \<Rightarrow> unit kernel" where
  "iunlockput i = andthen (iunlock (Some i)) (iput i)"

definition stati :: "nat \<Rightarrow> stat kernel" where
  "stati i = gets (\<lambda>w. let ip = itable w ! i in \<lparr>st_dev = i_dev ip, st_ino = i_inum ip,
     st_type = i_type ip, st_nlink = i_nlink ip, st_size = ucast (i_size ip)\<rparr>)"

definition piece :: "32 word \<Rightarrow> 32 word \<Rightarrow> 32 word" where
  \<comment> \<open>\<open>min(n - tot, BSIZE - off%BSIZE)\<close>\<close>
  "piece off left = min left (of_nat BSIZE - off mod of_nat BSIZE)"

lemma piece_decreases:
  assumes "left \<noteq> 0" shows "unat (left - piece off left) < unat left"
proof -
  have "off mod 1024 < (1024 :: 32 word)" by (simp add: word_mod_less_divisor)
  then have "(1024 :: 32 word) - off mod 1024 \<noteq> 0" by (metis less_irrefl right_minus_eq)
  then have "piece off left \<noteq> 0" using assms by (simp add: piece_def BSIZE_def min_def)
  moreover have "piece off left \<le> left" by (simp add: piece_def)
  ultimately have "0 < unat (piece off left)" "unat (piece off left) \<le> unat left"
    by (simp_all add: unat_gt_0 word_le_nat_alt)
  then show ?thesis using \<open>piece off left \<le> left\<close> by (simp add: unat_diff_le)
qed

function readi_loop :: "nat \<Rightarrow> kdst \<Rightarrow> 32 word \<Rightarrow> 32 word \<Rightarrow> 32 word \<Rightarrow> (int \<times> byte list) kernel" where
  \<comment> \<open>\<open>tot\<close> bytes are done and \<open>left\<close> = n - tot are left; the result is what the function returns\<close>
  "readi_loop i dst off tot left =
     (if left = 0 then ret (sint tot, []) else
      bind (bmap i (off div of_nat BSIZE)) (\<lambda>a.
      if a = 0 then ret (sint tot, []) else
      bind (gets (\<lambda>w. i_dev (itable w ! i))) (\<lambda>dev.
      bind (bread dev a) (\<lambda>bp.
      bind (buf_data bp) (\<lambda>d.
      let m = piece off left; bs = take (unat m) (drop (unat (off mod of_nat BSIZE)) d) in
      bind (either_copyout dst bs) (\<lambda>r.
      if r = - 1 then andthen (brelse bp) (ret (- 1, []))
      else andthen (brelse bp)
        (bind (readi_loop i (kdst_add dst m) (off + m) (tot + m) (left - m)) (\<lambda>(v, rest).
         ret (v, bs @ rest)))))))))"
  by auto
termination
  by (relation "measure (\<lambda>(i, dst, off, tot, left). unat left)") (auto simp: piece_decreases)

declare readi_loop.simps [simp del]

definition readi :: "nat \<Rightarrow> kdst \<Rightarrow> 32 word \<Rightarrow> 32 word \<Rightarrow> (int \<times> byte list) kernel" where
  \<comment> \<open>the returned count, and the bytes read\<close>
  "readi i dst off n =
     bind (gets (\<lambda>w. i_size (itable w ! i))) (\<lambda>sz.
     if sz < off \<or> off + n < off then ret (0, []) else
     readi_loop i dst off 0 (if sz < off + n then sz - off else n))"

function writei_loop :: "nat \<Rightarrow> ksrc \<Rightarrow> 32 word \<Rightarrow> 32 word \<Rightarrow> 32 word \<Rightarrow> (32 word \<times> 32 word) kernel" where
  \<comment> \<open>the values of \<open>off\<close> and \<open>tot\<close> when the loop ends\<close>
  "writei_loop i src off tot left =
     (if left = 0 then ret (off, tot) else
      bind (bmap i (off div of_nat BSIZE)) (\<lambda>a.
      if a = 0 then ret (off, tot) else
      bind (gets (\<lambda>w. i_dev (itable w ! i))) (\<lambda>dev.
      bind (bread dev a) (\<lambda>bp.
      let m = piece off left in
      bind (either_copyin src (unat m)) (\<lambda>(r, bs).
      andthen (upd_data bp (\<lambda>d. splice d (unat (off mod of_nat BSIZE)) bs))
      (if r = - 1 then andthen (brelse bp) (ret (off, tot))
       else andthen (log_write bp)
         (andthen (brelse bp)
         (writei_loop i (ksrc_add src m) (off + m) (tot + m) (left - m)))))))))"
  by auto
termination
  by (relation "measure (\<lambda>(i, src, off, tot, left). unat left)") (auto simp: piece_decreases)

declare writei_loop.simps [simp del]

definition writei :: "nat \<Rightarrow> ksrc \<Rightarrow> 32 word \<Rightarrow> 32 word \<Rightarrow> int kernel" where
  "writei i src off n =
     bind (gets (\<lambda>w. i_size (itable w ! i))) (\<lambda>sz.
     if sz < off \<or> off + n < off then ret (- 1)
     else if of_nat (MAXFILE * BSIZE) < off + n then ret (- 1)
     else bind (writei_loop i src off 0 n) (\<lambda>(off, tot).
       andthen (modify (upd_inode i (\<lambda>ip. if i_size ip < off then ip\<lparr>i_size := off\<rparr> else ip)))
       (andthen (iupdate i)
       (ret (sint tot)))))"

section \<open>Directories\<close>

fun str_at :: "byte list \<Rightarrow> byte" where
  \<comment> \<open>the character a string pointer points at; the terminator ends the list\<close>
  "str_at [] = 0"
| "str_at (c # cs) = c"

primrec name_diff :: "nat \<Rightarrow> byte list \<Rightarrow> byte list \<Rightarrow> int" where
  \<comment> \<open>\<open>strncmp(s, t, n)\<close> on strings that are not in the page memory\<close>
  "name_diff 0 s t = 0"
| "name_diff (Suc n) s t =
     (if str_at s \<noteq> 0 \<and> str_at s = str_at t then name_diff n (tl s) (tl t)
      else uint (str_at s) - uint (str_at t))"

definition namecmp :: "byte list \<Rightarrow> byte list \<Rightarrow> int" where
  "namecmp s t = name_diff DIRSIZ s t"

definition pad_name :: "byte list \<Rightarrow> byte list" where
  \<comment> \<open>\<open>strncpy(de.name, name, DIRSIZ)\<close>\<close>
  "pad_name s = (let s = takeWhile (\<lambda>c. c \<noteq> 0) (take DIRSIZ s) in s @ replicate (DIRSIZ - length s) 0)"

function dirlookup_loop :: "nat \<Rightarrow> byte list \<Rightarrow> 32 word \<Rightarrow> (nat \<times> 32 word) option kernel" where
  "dirlookup_loop dp name off =
     bind (gets (\<lambda>w. i_size (itable w ! dp))) (\<lambda>sz.
     if \<not> off < sz then ret None else
     bind (readi dp To_local off dirent_size) (\<lambda>(r, bs).
     if r \<noteq> 16 then panic ''dirlookup read'' else
     let de = dec_dirent bs in
     if de_inum de \<noteq> 0 \<and> namecmp name (de_name de) = 0 then
       bind (gets (\<lambda>w. i_dev (itable w ! dp))) (\<lambda>dev.
       bind (iget dev (ucast (de_inum de))) (\<lambda>ip. ret (Some (ip, off))))
     else if off < off + dirent_size then dirlookup_loop dp name (off + dirent_size)
     else stop Diverged))"
  by auto
termination
  by (relation "measure (\<lambda>(dp, name, off). 2 ^ 32 - unat off)")
    (auto simp: word_less_nat_alt intro!: diff_less_mono2 unat_bound [where 'a = 32, simplified])

declare dirlookup_loop.simps [simp del]

definition dirlookup :: "nat \<Rightarrow> byte list \<Rightarrow> (nat \<times> 32 word) option kernel" where
  \<comment> \<open>the inode and the offset of its entry (\<open>*poff\<close>)\<close>
  "dirlookup dp name =
     bind (gets (\<lambda>w. i_type (itable w ! dp))) (\<lambda>ty.
     if ty \<noteq> T_DIR then panic ''dirlookup not DIR'' else
     dirlookup_loop dp name 0)"

function dirlink_slot :: "nat \<Rightarrow> 32 word \<Rightarrow> 32 word kernel" where
  \<comment> \<open>the loop that looks for an empty entry; the offset it stops at\<close>
  "dirlink_slot dp off =
     bind (gets (\<lambda>w. i_size (itable w ! dp))) (\<lambda>sz.
     if \<not> off < sz then ret off else
     bind (readi dp To_local off dirent_size) (\<lambda>(r, bs).
     if r \<noteq> 16 then panic ''dirlink read''
     else if de_inum (dec_dirent bs) = 0 then ret off
     else if off < off + dirent_size then dirlink_slot dp (off + dirent_size)
     else stop Diverged))"
  by auto
termination
  by (relation "measure (\<lambda>(dp, off). 2 ^ 32 - unat off)")
    (auto simp: word_less_nat_alt intro!: diff_less_mono2 unat_bound [where 'a = 32, simplified])

declare dirlink_slot.simps [simp del]

definition dirlink :: "nat \<Rightarrow> byte list \<Rightarrow> 32 word \<Rightarrow> int kernel" where
  "dirlink dp name inum =
     bind (dirlookup dp name) (\<lambda>r.
     case r of
       Some (ip, _) \<Rightarrow> andthen (iput ip) (ret (- 1))
     | None \<Rightarrow>
         bind (dirlink_slot dp 0) (\<lambda>off.
         bind (writei dp (From_local (enc_dirent \<lparr>de_inum = ucast inum, de_name = pad_name name\<rparr>)) off dirent_size) (\<lambda>n.
         if n \<noteq> 16 then ret (- 1) else ret 0)))"

section \<open>Paths\<close>

definition slash :: byte where "slash = 47"

definition skipelem :: "byte list \<Rightarrow> (byte list \<times> byte list) option" where
  \<comment> \<open>the rest of the path, and the name\<close>
  "skipelem path =
     (let path = dropWhile (\<lambda>c. c = slash) path in
      if path = [] then None
      else let s = takeWhile (\<lambda>c. c \<noteq> slash) path; path = dropWhile (\<lambda>c. c \<noteq> slash) path;
               name = (if DIRSIZ \<le> length s then take DIRSIZ s else s) in
        Some (dropWhile (\<lambda>c. c = slash) path, name))"

lemma skipelem_shorter: "skipelem path = Some (rest, name) \<Longrightarrow> length rest < length path"
proof -
  assume *: "skipelem path = Some (rest, name)"
  let ?p = "dropWhile (\<lambda>c. c = slash) path"
  have ne: "?p \<noteq> []" using * by (auto simp: skipelem_def Let_def split: if_splits)
  then have "hd ?p \<noteq> slash" by (rule hd_dropWhile)
  then have "length (dropWhile (\<lambda>c. c \<noteq> slash) ?p) < length ?p"
    using ne by (cases ?p) (auto simp: le_imp_less_Suc length_dropWhile_le)
  moreover have "length rest \<le> length (dropWhile (\<lambda>c. c \<noteq> slash) ?p)"
    using * by (auto simp: skipelem_def Let_def length_dropWhile_le split: if_splits)
  moreover have "length ?p \<le> length path" by (rule length_dropWhile_le)
  ultimately show ?thesis by linarith
qed

function namex_loop :: "nat \<Rightarrow> byte list \<Rightarrow> bool \<Rightarrow> byte list \<Rightarrow> (nat \<times> byte list) option kernel" where
  "namex_loop ip path nameiparent name =
     (case skipelem path of
        None \<Rightarrow> if nameiparent then andthen (iput ip) (ret None) else ret (Some (ip, name))
      | Some (path', name') \<Rightarrow>
          andthen (ilock (Some ip))
          (bind (gets (\<lambda>w. i_type (itable w ! ip))) (\<lambda>ty.
           if ty \<noteq> T_DIR then andthen (iunlockput ip) (ret None)
           else if nameiparent \<and> path' = [] then andthen (iunlock (Some ip)) (ret (Some (ip, name')))
           else bind (dirlookup ip name') (\<lambda>r.
             case r of
               None \<Rightarrow> andthen (iunlockput ip) (ret None)
             | Some (nxt, _) \<Rightarrow> andthen (iunlockput ip) (namex_loop nxt path' nameiparent name')))))"
  by auto
termination
  by (relation "measure (\<lambda>(ip, path, np, name). length path)") (auto simp: skipelem_shorter)

declare namex_loop.simps [simp del]

definition namex :: "byte list \<Rightarrow> bool \<Rightarrow> (nat \<times> byte list) option kernel" where
  \<comment> \<open>the inode, and what \<open>name\<close> holds at the end\<close>
  "namex path nameiparent =
     bind (if path \<noteq> [] \<and> hd path = slash then iget ROOTDEV ROOTINO
           else bind curproc (\<lambda>p. bind (gets (\<lambda>w. p_cwd (procs w ! p))) (\<lambda>cwd. bind (deref cwd) idup))) (\<lambda>ip.
     namex_loop ip path nameiparent [])"

definition namei :: "byte list \<Rightarrow> nat option kernel" where
  "namei path = bind (namex path False) (\<lambda>r. ret (map_option fst r))"

definition nameiparent :: "byte list \<Rightarrow> (nat \<times> byte list) option kernel" where
  "nameiparent path = namex path True"

end
