(* ===== verification/Pipe.thy ===== *)
theory Pipe
  imports Sleeplock Copyio
begin

text \<open>
  Pipes, \<open>kernel/pipe.c\<close>. \<open>pipealloc\<close>, which builds on the file table, is in theory File. The
  byte counters \<open>nread\<close> and \<open>nwrite\<close> are 32-bit and wrap around.
\<close>

section \<open>pipe.c\<close>

definition PIPESIZE :: nat where [layout]: "PIPESIZE = 512"

definition pipeclose :: "addr \<Rightarrow> bool \<Rightarrow> unit kernel" where
  "pipeclose pi writable =
     andthen (acquire (Pipe_lock pi))
     (andthen (if writable then
         andthen (modify (upd_pipe pi (\<lambda>x. x\<lparr>pi_writeopen := False\<rparr>))) (wakeup (Chan_nread pi))
       else
         andthen (modify (upd_pipe pi (\<lambda>x. x\<lparr>pi_readopen := False\<rparr>))) (wakeup (Chan_nwrite pi)))
     (bind (gets (\<lambda>w. pipes w pi)) (\<lambda>x.
      if \<not> pi_readopen x \<and> \<not> pi_writeopen x then
        andthen (release (Pipe_lock pi)) (kfree pi)
      else release (Pipe_lock pi))))"

text \<open>How one turn of the write loop goes on: the error return, the \<open>break\<close>, or the next byte.\<close>

datatype wr_turn = Wr_fail | Wr_break | Wr_next

definition pipewrite_byte :: "addr \<Rightarrow> nat \<Rightarrow> addr \<Rightarrow> wr_turn option kernel" where
  \<comment> \<open>the body of the loop; \<open>None\<close> when it slept and comes round with the same byte\<close>
  "pipewrite_byte pi pr a =
     bind (gets (\<lambda>w. pi_readopen (pipes w pi))) (\<lambda>ro.
     bind (if \<not> ro then ret True else killed pr) (\<lambda>bad.
     if bad then andthen (release (Pipe_lock pi)) (ret (Some Wr_fail)) else
     bind (gets (\<lambda>w. pipes w pi)) (\<lambda>x.
     if pi_nwrite x = pi_nread x + of_nat PIPESIZE then
       andthen (wakeup (Chan_nread pi))
       (andthen (sleep (Chan_nwrite pi) (Pipe_lock pi))
       (ret None))
     else
       bind (gets (\<lambda>w. p_pagetable (procs w ! pr))) (\<lambda>pt.
       bind (copyin pt a 1) (\<lambda>(r, bs).
       if r = - 1 then ret (Some Wr_break) else
       andthen (modify (upd_pipe pi (\<lambda>x. x\<lparr>pi_data := (pi_data x)[unat (pi_nwrite x) mod PIPESIZE := hd bs],
          pi_nwrite := pi_nwrite x + 1\<rparr>)))
       (ret (Some Wr_next)))))))"

primrec pipewrite_loop :: "nat \<Rightarrow> addr \<Rightarrow> nat \<Rightarrow> addr \<Rightarrow> nat \<Rightarrow> int option kernel" where
  \<comment> \<open>with so many bytes left and \<open>i\<close> written; the final \<open>i\<close>, or \<open>None\<close> for the error return\<close>
  "pipewrite_loop 0 pi pr a i = ret (Some (int i))"
| "pipewrite_loop (Suc left) pi pr a i =
     bind (loop (pipewrite_byte pi pr (a + of_nat i))) (\<lambda>t.
     case t of Wr_fail \<Rightarrow> ret None | Wr_break \<Rightarrow> ret (Some (int i))
     | Wr_next \<Rightarrow> pipewrite_loop left pi pr a (Suc i))"

definition pipewrite :: "addr \<Rightarrow> addr \<Rightarrow> int \<Rightarrow> int kernel" where
  "pipewrite pi a n =
     bind curproc (\<lambda>pr.
     andthen (acquire (Pipe_lock pi))
     (bind (pipewrite_loop (nat n) pi pr a 0) (\<lambda>r.
      case r of None \<Rightarrow> ret (- 1)
      | Some i \<Rightarrow>
          andthen (wakeup (Chan_nread pi))
          (andthen (release (Pipe_lock pi))
          (ret i)))))"

primrec piperead_copy :: "nat \<Rightarrow> addr \<Rightarrow> nat \<Rightarrow> addr \<Rightarrow> nat \<Rightarrow> int kernel" where
  "piperead_copy 0 pi pr a i = ret (int i)"
| "piperead_copy (Suc left) pi pr a i =
     bind (gets (\<lambda>w. pipes w pi)) (\<lambda>x.
     if pi_nread x = pi_nwrite x then ret (int i) else
     andthen (modify (upd_pipe pi (\<lambda>x. x\<lparr>pi_nread := pi_nread x + 1\<rparr>)))
     (bind (gets (\<lambda>w. p_pagetable (procs w ! pr))) (\<lambda>pt.
      bind (copyout pt (a + of_nat i) [pi_data x ! (unat (pi_nread x) mod PIPESIZE)]) (\<lambda>r.
      if r = - 1 then ret (int i) else piperead_copy left pi pr a (Suc i)))))"

definition piperead :: "addr \<Rightarrow> addr \<Rightarrow> int \<Rightarrow> int kernel" where
  "piperead pi a n =
     bind curproc (\<lambda>pr.
     andthen (acquire (Pipe_lock pi))
     (bind (loop (
        bind (gets (\<lambda>w. pipes w pi)) (\<lambda>x.
        if pi_nread x = pi_nwrite x \<and> pi_writeopen x then
          bind (killed pr) (\<lambda>k.
          if k then andthen (release (Pipe_lock pi)) (ret (Some False))
          else andthen (sleep (Chan_nread pi) (Pipe_lock pi)) (ret None))
        else ret (Some True)))) (\<lambda>ok.
      if \<not> ok then ret (- 1) else
      bind (piperead_copy (nat n) pi pr a 0) (\<lambda>i.
      andthen (wakeup (Chan_nwrite pi))
      (andthen (release (Pipe_lock pi))
      (ret i))))))"

end
