(* ===== verification/Console.thy ===== *)
theory Console
  imports Sleeplock Copyio Printf
begin

unbundle bit_operations_syntax

text \<open>
  The console: the interrupt-driven half of \<open>kernel/uart.c\<close>, line editing and the device functions of
  \<open>kernel/console.c\<close>, and \<open>procdump\<close> of \<open>kernel/proc.c\<close>, which control-P calls. The UART's line status
  register is read off \<open>ut_rx\<close> (a byte has arrived) and \<open>ut_room\<close> (the transmitter is idle).
\<close>

section \<open>uart.c\<close>

definition IER :: addr where "IER = 1"
definition FCR :: addr where "FCR = 2"
definition LCR :: addr where "LCR = 3"
definition LSR :: addr where "LSR = 5"
definition IER_RX_ENABLE :: "32 word" where "IER_RX_ENABLE = 1"
definition IER_TX_ENABLE :: "32 word" where "IER_TX_ENABLE = 2"
definition FCR_FIFO_ENABLE :: "32 word" where "FCR_FIFO_ENABLE = 1"
definition FCR_FIFO_CLEAR :: "32 word" where "FCR_FIFO_CLEAR = 6"
definition LCR_EIGHT_BITS :: "32 word" where "LCR_EIGHT_BITS = 3"
definition LCR_BAUD_LATCH :: "32 word" where "LCR_BAUD_LATCH = 128"
definition UART_TX_BUF_SIZE :: nat where [layout]: "UART_TX_BUF_SIZE = 32"

definition uart_w :: "addr \<Rightarrow> 32 word \<Rightarrow> unit kernel" where
  \<comment> \<open>\<open>WriteReg(reg, v)\<close> of a control register\<close>
  "uart_w r x = modify (\<lambda>w. w\<lparr>dev_out := dev_out w @ [(UART0 + r, x)]\<rparr>)"

definition uartinit :: "unit kernel" where
  "uartinit =
     andthen (uart_w IER 0)
     (andthen (uart_w LCR LCR_BAUD_LATCH)
     (andthen (uart_w 0 3)
     (andthen (uart_w 1 0)
     (andthen (uart_w LCR LCR_EIGHT_BITS)
     (andthen (uart_w FCR (FCR_FIFO_ENABLE OR FCR_FIFO_CLEAR))
     (andthen (uart_w IER (IER_TX_ENABLE OR IER_RX_ENABLE))
     (initlock Uart_tx_lock ''uart'')))))))"

primrec uartstart_n :: "nat \<Rightarrow> unit kernel" where
  "uartstart_n 0 = skip"
| "uartstart_n (Suc n) =
     bind (gets uart) (\<lambda>u.
     if uart_tx_w u = uart_tx_r u then skip
     else if ut_room u = 0 then skip
     else
       andthen (modify (\<lambda>w. w\<lparr>uart := (uart w)\<lparr>uart_tx_r := uart_tx_r (uart w) + 1\<rparr>\<rparr>))
       (andthen (wakeup Chan_uart_tx_r)
       (andthen (modify (put_thr (uint (uart_tx_buf u ! (unat (uart_tx_r u) mod UART_TX_BUF_SIZE)))))
       (uartstart_n n))))"

definition uartstart :: "unit kernel" where
  \<comment> \<open>each turn of the loop uses up room in the transmitter, and with none left the loop returns\<close>
  "uartstart = bind (gets (\<lambda>w. Suc (ut_room (uart w)))) uartstart_n"

definition uartputc :: "int \<Rightarrow> unit kernel" where
  "uartputc c =
     andthen (acquire Uart_tx_lock)
     (bind (gets panicked) (\<lambda>pk.
      if pk then stop Diverged else
      andthen (sleep_while (\<lambda>w. uart_tx_w (uart w) = uart_tx_r (uart w) + of_nat UART_TX_BUF_SIZE)
         Chan_uart_tx_r Uart_tx_lock)
      (andthen (modify (\<lambda>w. w\<lparr>uart := (uart w)\<lparr>uart_tx_buf :=
           (uart_tx_buf (uart w))[unat (uart_tx_w (uart w)) mod UART_TX_BUF_SIZE := word_of_int c]\<rparr>\<rparr>))
      (andthen (modify (\<lambda>w. w\<lparr>uart := (uart w)\<lparr>uart_tx_w := uart_tx_w (uart w) + 1\<rparr>\<rparr>))
      (andthen uartstart
      (release Uart_tx_lock))))))"

definition uartgetc :: "int kernel" where
  "uartgetc =
     bind (gets (\<lambda>w. ut_rx (uart w))) (\<lambda>rx.
     case rx of [] \<Rightarrow> ret (- 1)
     | c # cs \<Rightarrow> andthen (modify (\<lambda>w. w\<lparr>uart := (uart w)\<lparr>ut_rx := cs\<rparr>\<rparr>)) (ret (uint c)))"

section \<open>procdump (proc.c)\<close>

definition state_name :: "procstate \<Rightarrow> string" where
  "state_name s = (case s of UNUSED \<Rightarrow> ''unused'' | USED \<Rightarrow> ''used'' | SLEEPING \<Rightarrow> ''sleep ''
     | RUNNABLE \<Rightarrow> ''runble'' | RUNNING \<Rightarrow> ''run   '' | ZOMBIE \<Rightarrow> ''zombie'')"

definition name_string :: "byte list \<Rightarrow> string" where
  \<comment> \<open>a zero-terminated array as the string it holds\<close>
  "name_string bs = map (\<lambda>b. char_of (unat b)) (takeWhile (\<lambda>b. b \<noteq> 0) bs)"

definition procdump :: "unit kernel" where
  "procdump =
     andthen (printf newline [])
     (for_each [0..<NPROC] (\<lambda>p.
       bind (gets (\<lambda>w. procs w ! p)) (\<lambda>q.
       if p_state q = UNUSED then skip else
       andthen (printf ''%d %s %s'' [Arg_int (word_of_int (p_pid q)), Arg_str (Some (state_name (p_state q))),
          Arg_str (Some (name_string (p_name q)))])
       (andthen (printf newline []) skip))))"

section \<open>console.c\<close>

definition INPUT_BUF_SIZE :: nat where [layout]: "INPUT_BUF_SIZE = 128"

definition Ctrl :: "char \<Rightarrow> int" where
  \<comment> \<open>the macro \<open>C(x)\<close>\<close>
  "Ctrl x = char_code x - char_code CHR ''@''"

definition upd_cons :: "(console \<Rightarrow> console) \<Rightarrow> unit kernel" where
  "upd_cons f = modify (\<lambda>w. w\<lparr>cons := f (cons w)\<rparr>)"

primrec consolewrite_loop :: "nat \<Rightarrow> ksrc \<Rightarrow> nat \<Rightarrow> int kernel" where
  "consolewrite_loop 0 src i = ret (int i)"
| "consolewrite_loop (Suc left) src i =
     bind (either_copyin src 1) (\<lambda>(r, bs).
     if r = - 1 then ret (int i) else
     andthen (uartputc (uint (hd bs)))
     (consolewrite_loop left (ksrc_add src 1) (Suc i)))"

definition consolewrite :: "ksrc \<Rightarrow> int \<Rightarrow> int kernel" where
  "consolewrite src n = consolewrite_loop (nat n) src 0"

primrec consoleread_loop :: "nat \<Rightarrow> int \<Rightarrow> kdst \<Rightarrow> nat option kernel" where
  \<comment> \<open>with \<open>n\<close> bytes still wanted; the final \<open>n\<close>, or \<open>None\<close> for the return from a killed process\<close>
  "consoleread_loop 0 target dst = ret (Some 0)"
| "consoleread_loop (Suc n) target dst =
     bind (loop (
        bind (gets cons) (\<lambda>c.
        if cons_r c = cons_w c then
          bind curproc (\<lambda>p.
          bind (killed p) (\<lambda>k.
          if k then andthen (release Cons_lock) (ret (Some False))
          else andthen (sleep Chan_cons_r Cons_lock) (ret None)))
        else ret (Some True)))) (\<lambda>ok.
     if \<not> ok then ret None else
     bind (gets (\<lambda>w. cons_buf (cons w) ! (unat (cons_r (cons w)) mod INPUT_BUF_SIZE))) (\<lambda>c.
     andthen (upd_cons (\<lambda>x. x\<lparr>cons_r := cons_r x + 1\<rparr>))
     (if uint c = Ctrl CHR ''D'' then
        andthen (if int (Suc n) < target then upd_cons (\<lambda>x. x\<lparr>cons_r := cons_r x - 1\<rparr>) else skip)
        (ret (Some (Suc n)))
      else
        bind (either_copyout dst [c]) (\<lambda>r.
        if r = - 1 then ret (Some (Suc n))
        else if c = 10 then ret (Some n)
        else consoleread_loop n target (kdst_add dst 1)))))"

definition consoleread :: "kdst \<Rightarrow> int \<Rightarrow> int kernel" where
  "consoleread dst n =
     andthen (acquire Cons_lock)
     (bind (consoleread_loop (nat n) n dst) (\<lambda>r.
      case r of None \<Rightarrow> ret (- 1)
      | Some m \<Rightarrow> andthen (release Cons_lock) (ret (if n < 0 then 0 else n - int m))))"

primrec kill_line :: "nat \<Rightarrow> unit kernel" where
  "kill_line 0 = skip"
| "kill_line (Suc k) =
     bind (gets cons) (\<lambda>c.
     if cons_e c \<noteq> cons_w c \<and> cons_buf c ! (unat (cons_e c - 1) mod INPUT_BUF_SIZE) \<noteq> 10 then
       andthen (upd_cons (\<lambda>x. x\<lparr>cons_e := cons_e x - 1\<rparr>))
       (andthen (consputc BACKSPACE)
       (kill_line k))
     else skip)"

definition consoleintr :: "int \<Rightarrow> unit kernel" where
  \<comment> \<open>the loop of control-U runs at most once for each position between \<open>w\<close> and \<open>e\<close>\<close>
  "consoleintr c =
     andthen (acquire Cons_lock)
     (andthen (
        if c = Ctrl CHR ''P'' then procdump
        else if c = Ctrl CHR ''U'' then bind (gets (\<lambda>w. unat (cons_e (cons w) - cons_w (cons w)))) kill_line
        else if c = Ctrl CHR ''H'' \<or> c = 0x7f then
          bind (gets cons) (\<lambda>x.
          if cons_e x \<noteq> cons_w x then
            andthen (upd_cons (\<lambda>x. x\<lparr>cons_e := cons_e x - 1\<rparr>)) (consputc BACKSPACE)
          else skip)
        else
          bind (gets cons) (\<lambda>x.
          if c \<noteq> 0 \<and> cons_e x - cons_r x < of_nat INPUT_BUF_SIZE then
            let c = (if c = 13 then 10 else c) in
            andthen (consputc c)
            (andthen (upd_cons (\<lambda>x. x\<lparr>cons_buf := (cons_buf x)[unat (cons_e x) mod INPUT_BUF_SIZE := word_of_int c],
                cons_e := cons_e x + 1\<rparr>))
            (bind (gets cons) (\<lambda>x.
             if c = 10 \<or> c = Ctrl CHR ''D'' \<or> cons_e x - cons_r x = of_nat INPUT_BUF_SIZE then
               andthen (upd_cons (\<lambda>x. x\<lparr>cons_w := cons_e x\<rparr>))
               (wakeup Chan_cons_r)
             else skip)))
          else skip))
     (release Cons_lock))"

definition CONSOLE :: nat where [layout]: "CONSOLE = 1"

definition consoleinit :: "unit kernel" where
  "consoleinit =
     andthen (initlock Cons_lock ''cons'')
     (andthen uartinit
     (modify (\<lambda>w. w\<lparr>devsw := (devsw w)[CONSOLE := \<lparr>dev_read = Some Console_rw, dev_write = Some Console_rw\<rparr>]\<rparr>)))"

primrec uartintr_in :: "nat \<Rightarrow> unit kernel" where
  "uartintr_in 0 = skip"
| "uartintr_in (Suc n) =
     bind uartgetc (\<lambda>c.
     if c = - 1 then skip else andthen (consoleintr c) (uartintr_in n))"

definition uartintr :: "unit kernel" where
  \<comment> \<open>the input loop ends when the bytes that have arrived are used up\<close>
  "uartintr =
     andthen (bind (gets (\<lambda>w. Suc (length (ut_rx (uart w))))) uartintr_in)
     (andthen (acquire Uart_tx_lock)
     (andthen uartstart
     (release Uart_tx_lock)))"

end
