(* ===== verification/File.thy ===== *)
theory File
  imports Fs Pipe Console
begin

text \<open>
  Open files, \<open>kernel/file.c\<close>, and \<open>pipealloc\<close> of \<open>kernel/pipe.c\<close>. The device table holds the console's
  functions only, so a call through it is a call of \<open>consoleread\<close> or \<open>consolewrite\<close>.
\<close>

section \<open>file.c\<close>

definition fileinit :: "unit kernel" where
  "fileinit = initlock Ftable_lock ''ftable''"

definition filealloc :: "nat option kernel" where
  "filealloc =
     andthen (acquire Ftable_lock)
     (bind (for_find [0..<NFILE] (\<lambda>f.
        bind (gets (\<lambda>w. f_ref (ftable w ! f))) (\<lambda>r.
        if r = 0 then
          andthen (modify (upd_file f (\<lambda>x. x\<lparr>f_ref := 1\<rparr>)))
          (andthen (release Ftable_lock)
          (ret (Some f)))
        else ret None))) (\<lambda>r.
      case r of Some f \<Rightarrow> ret (Some f)
      | None \<Rightarrow> andthen (release Ftable_lock) (ret None)))"

definition filedup :: "nat \<Rightarrow> nat kernel" where
  "filedup f =
     andthen (acquire Ftable_lock)
     (bind (gets (\<lambda>w. f_ref (ftable w ! f))) (\<lambda>r.
      if r < 1 then panic ''filedup'' else
      andthen (modify (upd_file f (\<lambda>x. x\<lparr>f_ref := f_ref x + 1\<rparr>)))
      (andthen (release Ftable_lock)
      (ret f))))"

definition fileclose :: "nat \<Rightarrow> unit kernel" where
  "fileclose f =
     andthen (acquire Ftable_lock)
     (bind (gets (\<lambda>w. f_ref (ftable w ! f))) (\<lambda>r.
      if r < 1 then panic ''fileclose'' else
      andthen (modify (upd_file f (\<lambda>x. x\<lparr>f_ref := f_ref x - 1\<rparr>)))
      (bind (gets (\<lambda>w. ftable w ! f)) (\<lambda>ff.
       if f_ref ff > 0 then release Ftable_lock else
       andthen (modify (upd_file f (\<lambda>x. x\<lparr>f_ref := 0, f_type := FD_NONE\<rparr>)))
       (andthen (release Ftable_lock)
       (if f_type ff = FD_PIPE then pipeclose (f_pipe ff) (f_writable ff)
        else if f_type ff = FD_INODE \<or> f_type ff = FD_DEVICE then
          andthen begin_op
          (andthen (bind (deref (f_ip ff)) iput)
          end_op)
        else skip))))))"

definition filestat :: "nat \<Rightarrow> addr \<Rightarrow> int kernel" where
  "filestat f a =
     bind curproc (\<lambda>p.
     bind (gets (\<lambda>w. ftable w ! f)) (\<lambda>x.
     if f_type x = FD_INODE \<or> f_type x = FD_DEVICE then
       andthen (ilock (f_ip x))
       (bind (bind (deref (f_ip x)) stati) (\<lambda>st.
        andthen (iunlock (f_ip x))
        (bind (gets (\<lambda>w. p_pagetable (procs w ! p))) (\<lambda>pt.
         bind (copyout pt a (enc_stat st)) (\<lambda>r.
         if r < 0 then ret (- 1) else ret 0))))
     )
     else ret (- 1)))"

definition fileread :: "nat \<Rightarrow> addr \<Rightarrow> int \<Rightarrow> int kernel" where
  "fileread f a n =
     bind (gets (\<lambda>w. ftable w ! f)) (\<lambda>x.
     if \<not> f_readable x then ret (- 1)
     else if f_type x = FD_PIPE then piperead (f_pipe x) a n
     else if f_type x = FD_DEVICE then
       bind (gets devsw) (\<lambda>dv.
       if sint (f_major x) < 0 \<or> sint (f_major x) \<ge> NDEV then ret (- 1)
       else case dev_read (dv ! nat (sint (f_major x))) of
         None \<Rightarrow> ret (- 1)
       | Some Console_rw \<Rightarrow> consoleread (To_uaddr a) n)
     else if f_type x = FD_INODE then
       andthen (ilock (f_ip x))
       (bind (deref (f_ip x)) (\<lambda>ip.
        bind (gets (\<lambda>w. f_off (ftable w ! f))) (\<lambda>off.
        bind (readi ip (To_uaddr a) off (word_of_int n)) (\<lambda>(r, _).
        andthen (if r > 0 then modify (upd_file f (\<lambda>x. x\<lparr>f_off := f_off x + word_of_int r\<rparr>)) else skip)
        (andthen (iunlock (f_ip x))
        (ret r))))))
     else panic ''fileread'')"

definition write_max :: int where
  \<comment> \<open>\<open>((MAXOPBLOCKS-1-1-2) / 2) * BSIZE\<close>\<close>
  "write_max = int ((MAXOPBLOCKS - 1 - 1 - 2) div 2 * BSIZE)"

function filewrite_loop :: "nat \<Rightarrow> addr \<Rightarrow> int \<Rightarrow> int \<Rightarrow> int kernel" where
  \<comment> \<open>the value of \<open>i\<close> when the loop ends\<close>
  "filewrite_loop f a i n =
     (if \<not> i < n then ret i else
      let n1 = (if n - i > write_max then write_max else n - i) in
      andthen begin_op
      (bind (gets (\<lambda>w. f_ip (ftable w ! f))) (\<lambda>oip.
       andthen (ilock oip)
       (bind (deref oip) (\<lambda>ip.
        bind (gets (\<lambda>w. f_off (ftable w ! f))) (\<lambda>off.
        bind (writei ip (From_uaddr (a + word_of_int i)) off (word_of_int n1)) (\<lambda>r.
        andthen (if r > 0 then modify (upd_file f (\<lambda>x. x\<lparr>f_off := f_off x + word_of_int r\<rparr>)) else skip)
        (andthen (iunlock oip)
        (andthen end_op
        (if r \<noteq> n1 then ret i else filewrite_loop f a (i + n1) n))))))))))"
  by auto
termination
  by (relation "measure (\<lambda>(f, a, i, n). nat (n - i))") (auto simp: write_max_def layout)

declare filewrite_loop.simps [simp del]

definition filewrite :: "nat \<Rightarrow> addr \<Rightarrow> int \<Rightarrow> int kernel" where
  "filewrite f a n =
     bind (gets (\<lambda>w. ftable w ! f)) (\<lambda>x.
     if \<not> f_writable x then ret (- 1)
     else if f_type x = FD_PIPE then pipewrite (f_pipe x) a n
     else if f_type x = FD_DEVICE then
       bind (gets devsw) (\<lambda>dv.
       if sint (f_major x) < 0 \<or> sint (f_major x) \<ge> NDEV then ret (- 1)
       else case dev_write (dv ! nat (sint (f_major x))) of
         None \<Rightarrow> ret (- 1)
       | Some Console_rw \<Rightarrow> consolewrite (From_uaddr a) n)
     else if f_type x = FD_INODE then
       bind (filewrite_loop f a 0 n) (\<lambda>i. ret (if i = n then n else - 1))
     else panic ''filewrite'')"

section \<open>pipealloc (pipe.c)\<close>

definition pipe_bad :: "addr \<Rightarrow> nat option \<Rightarrow> nat option \<Rightarrow> (nat \<times> nat) option kernel" where
  \<comment> \<open>the code after the label \<open>bad\<close>\<close>
  "pipe_bad pi f0 f1 =
     andthen (if pi \<noteq> 0 then kfree pi else skip)
     (andthen (case f0 of Some f \<Rightarrow> fileclose f | None \<Rightarrow> skip)
     (andthen (case f1 of Some f \<Rightarrow> fileclose f | None \<Rightarrow> skip)
     (ret None)))"

definition pipealloc :: "(nat \<times> nat) option kernel" where
  \<comment> \<open>\<open>None\<close> for -1\<close>
  "pipealloc =
     bind filealloc (\<lambda>f0.
     case f0 of None \<Rightarrow> pipe_bad 0 None None | Some r \<Rightarrow>
     bind filealloc (\<lambda>f1.
     case f1 of None \<Rightarrow> pipe_bad 0 (Some r) None | Some s \<Rightarrow>
     bind kalloc (\<lambda>pi.
     if pi = 0 then pipe_bad 0 (Some r) (Some s) else
     andthen (modify (upd_pipe pi (\<lambda>x. x\<lparr>pi_readopen := True, pi_writeopen := True, pi_nwrite := 0, pi_nread := 0\<rparr>)))
     (andthen (initlock (Pipe_lock pi) ''pipe'')
     (andthen (modify (upd_file r (\<lambda>x. x\<lparr>f_type := FD_PIPE, f_readable := True, f_writable := False, f_pipe := pi\<rparr>)))
     (andthen (modify (upd_file s (\<lambda>x. x\<lparr>f_type := FD_PIPE, f_readable := False, f_writable := True, f_pipe := pi\<rparr>)))
     (ret (Some (r, s)))))))))"

end
