(* ===== verification/Proc.thy ===== *)
theory Proc
  imports File
begin

unbundle bit_operations_syntax

text \<open>
  The life of a process, \<open>kernel/proc.c\<close>: allocation and freeing of table entries, the first process,
  growing, \<open>fork\<close>, \<open>exit\<close> and \<open>wait\<close>. (\<open>forkret\<close>, which ends in \<open>usertrapret\<close>, is in theory Trap.)
\<close>

section \<open>Page tables and table entries\<close>

definition proc_pagetable :: "nat \<Rightarrow> addr kernel" where
  "proc_pagetable p =
     bind uvmcreate (\<lambda>pt.
     if pt = 0 then ret 0 else
     bind (gets trampoline) (\<lambda>tr.
     bind (mappages pt TRAMPOLINE PGSIZE tr (PTE_R OR PTE_X)) (\<lambda>r.
     if r < 0 then andthen (uvmfree pt 0) (ret 0) else
     bind (gets (\<lambda>w. p_trapframe (procs w ! p))) (\<lambda>tf.
     bind (mappages pt TRAPFRAME PGSIZE tf (PTE_R OR PTE_W)) (\<lambda>r.
     if r < 0 then
       andthen (uvmunmap pt TRAMPOLINE 1 False)
       (andthen (uvmfree pt 0)
       (ret 0))
     else ret pt)))))"

definition proc_freepagetable :: "addr \<Rightarrow> 64 word \<Rightarrow> unit kernel" where
  "proc_freepagetable pt sz =
     andthen (uvmunmap pt TRAMPOLINE 1 False)
     (andthen (uvmunmap pt TRAPFRAME 1 False)
     (uvmfree pt sz))"

definition freeproc :: "nat \<Rightarrow> unit kernel" where
  "freeproc p =
     bind (gets (\<lambda>w. procs w ! p)) (\<lambda>q.
     andthen (if p_trapframe q \<noteq> 0 then kfree (p_trapframe q) else skip)
     (andthen (modify (upd_proc p (\<lambda>q. q\<lparr>p_trapframe := 0\<rparr>)))
     (andthen (if p_pagetable q \<noteq> 0 then proc_freepagetable (p_pagetable q) (p_sz q) else skip)
     (modify (upd_proc p (\<lambda>q. q\<lparr>p_pagetable := 0, p_sz := 0, p_pid := 0, p_parent := None,
        p_name := (p_name q)[0 := 0], p_chan := None, p_killed := 0, p_xstate := 0, p_state := UNUSED\<rparr>))))))"

definition allocproc :: "nat option kernel" where
  \<comment> \<open>returns holding the lock of the process\<close>
  "allocproc =
     bind (for_find [0..<NPROC] (\<lambda>p.
       andthen (acquire (Proc_lock p))
       (bind (gets (\<lambda>w. p_state (procs w ! p))) (\<lambda>st.
        if st = UNUSED then ret (Some p)
        else andthen (release (Proc_lock p)) (ret None))))) (\<lambda>r.
     case r of None \<Rightarrow> ret None | Some p \<Rightarrow>
     bind allocpid (\<lambda>pid.
     andthen (modify (upd_proc p (\<lambda>q. q\<lparr>p_pid := pid\<rparr>)))
     (andthen (modify (upd_proc p (\<lambda>q. q\<lparr>p_state := USED\<rparr>)))
     (bind kalloc (\<lambda>tf.
      andthen (modify (upd_proc p (\<lambda>q. q\<lparr>p_trapframe := tf\<rparr>)))
      (if tf = 0 then
         andthen (freeproc p) (andthen (release (Proc_lock p)) (ret None))
       else
         bind (proc_pagetable p) (\<lambda>pt.
         andthen (modify (upd_proc p (\<lambda>q. q\<lparr>p_pagetable := pt\<rparr>)))
         (if pt = 0 then
            andthen (freeproc p) (andthen (release (Proc_lock p)) (ret None))
          else
            bind (gets (\<lambda>w. syms w Sym_forkret)) (\<lambda>fr.
            andthen (modify (upd_proc p (\<lambda>q. q\<lparr>p_context := \<lparr>ctx_ra = fr, ctx_sp = p_kstack q + PGSIZE, ctx_s = (\<lambda>_. 0)\<rparr>\<rparr>)))
            (ret (Some p)))))))))))"

section \<open>The first process\<close>

definition initcode :: "byte list" where
  "initcode = [
     0x17, 0x05, 0x00, 0x00, 0x13, 0x05, 0x45, 0x02,
     0x97, 0x05, 0x00, 0x00, 0x93, 0x85, 0x35, 0x02,
     0x93, 0x08, 0x70, 0x00, 0x73, 0x00, 0x00, 0x00,
     0x93, 0x08, 0x20, 0x00, 0x73, 0x00, 0x00, 0x00,
     0xef, 0xf0, 0x9f, 0xff, 0x2f, 0x69, 0x6e, 0x69,
     0x74, 0x00, 0x00, 0x24, 0x00, 0x00, 0x00, 0x00,
     0x00, 0x00, 0x00, 0x00]"

definition name_copy :: "byte list \<Rightarrow> byte list \<Rightarrow> byte list" where
  \<comment> \<open>\<open>safestrcpy(dst, src, sizeof(dst))\<close> on a name array\<close>
  "name_copy dst src = (let s = take (length dst - 1) (takeWhile (\<lambda>b. b \<noteq> 0) src) in
     s @ [0] @ drop (Suc (length s)) dst)"

definition ascii :: "string \<Rightarrow> byte list" where
  "ascii s = map (\<lambda>c. of_nat (of_char c)) s"

definition userinit :: "unit kernel" where
  "userinit =
     bind allocproc (\<lambda>op.
     andthen (modify (\<lambda>w. w\<lparr>initproc := op\<rparr>))
     (bind (deref op) (\<lambda>p.
      bind (gets (\<lambda>w. p_pagetable (procs w ! p))) (\<lambda>pt.
      andthen (uvmfirst pt initcode (of_nat (length initcode)))
      (andthen (modify (upd_proc p (\<lambda>q. q\<lparr>p_sz := PGSIZE\<rparr>)))
      (bind (gets (\<lambda>w. p_trapframe (procs w ! p))) (\<lambda>tf.
       andthen (modify (upd_tf tf Epc 0))
       (andthen (modify (upd_tf tf Tf_sp PGSIZE))
       (andthen (modify (upd_proc p (\<lambda>q. q\<lparr>p_name := name_copy (p_name q) (ascii ''initcode'')\<rparr>)))
       (bind (namei [slash]) (\<lambda>ip.
        andthen (modify (upd_proc p (\<lambda>q. q\<lparr>p_cwd := ip\<rparr>)))
        (andthen (modify (upd_proc p (\<lambda>q. q\<lparr>p_state := RUNNABLE\<rparr>)))
        (release (Proc_lock p))))))))))))))"

definition growproc :: "int \<Rightarrow> int kernel" where
  "growproc n =
     bind curproc (\<lambda>p.
     bind (gets (\<lambda>w. procs w ! p)) (\<lambda>q.
     if n > 0 then
       bind (uvmalloc (p_pagetable q) (p_sz q) (p_sz q + word_of_int n) PTE_W) (\<lambda>sz.
       if sz = 0 then ret (- 1) else
       andthen (modify (upd_proc p (\<lambda>q. q\<lparr>p_sz := sz\<rparr>))) (ret 0))
     else if n < 0 then
       bind (uvmdealloc (p_pagetable q) (p_sz q) (p_sz q + word_of_int n)) (\<lambda>sz.
       andthen (modify (upd_proc p (\<lambda>q. q\<lparr>p_sz := sz\<rparr>))) (ret 0))
     else ret 0))"

section \<open>fork\<close>

definition fork :: "int kernel" where
  "fork =
     bind curproc (\<lambda>p.
     bind allocproc (\<lambda>onp.
     case onp of None \<Rightarrow> ret (- 1) | Some np \<Rightarrow>
     bind (gets (\<lambda>w. procs w ! p)) (\<lambda>q.
     bind (gets (\<lambda>w. procs w ! np)) (\<lambda>nq.
     bind (uvmcopy (p_pagetable q) (p_pagetable nq) (p_sz q)) (\<lambda>r.
     if r < 0 then
       andthen (freeproc np) (andthen (release (Proc_lock np)) (ret (- 1)))
     else
       andthen (modify (upd_proc np (\<lambda>x. x\<lparr>p_sz := p_sz q\<rparr>)))
       (andthen (modify (\<lambda>w. w\<lparr>trapframes := (trapframes w)(p_trapframe nq := trapframes w (p_trapframe q))\<rparr>))
       (andthen (modify (upd_tf (p_trapframe nq) A0 0))
       (andthen (for_each [0..<NOFILE] (\<lambda>i.
          bind (gets (\<lambda>w. p_ofile (procs w ! p) ! i)) (\<lambda>fo.
          case fo of None \<Rightarrow> skip | Some f \<Rightarrow>
          bind (filedup f) (\<lambda>f'. modify (upd_proc np (\<lambda>x. x\<lparr>p_ofile := (p_ofile x)[i := Some f']\<rparr>))))))
       (bind (gets (\<lambda>w. p_cwd (procs w ! p))) (\<lambda>cwd.
        bind (bind (deref cwd) idup) (\<lambda>cwd'.
        andthen (modify (upd_proc np (\<lambda>x. x\<lparr>p_cwd := Some cwd'\<rparr>)))
        (andthen (modify (upd_proc np (\<lambda>x. x\<lparr>p_name := name_copy (p_name x) (p_name q)\<rparr>)))
        (bind (gets (\<lambda>w. p_pid (procs w ! np))) (\<lambda>pid.
         andthen (release (Proc_lock np))
         (andthen (acquire Wait_lock)
         (andthen (modify (upd_proc np (\<lambda>x. x\<lparr>p_parent := Some p\<rparr>)))
         (andthen (release Wait_lock)
         (andthen (acquire (Proc_lock np))
         (andthen (modify (upd_proc np (\<lambda>x. x\<lparr>p_state := RUNNABLE\<rparr>)))
         (andthen (release (Proc_lock np))
         (ret pid)))))))))))))))))))))"

section \<open>exit and wait\<close>

definition wakeup_proc :: "nat option \<Rightarrow> unit kernel" where
  \<comment> \<open>\<open>wakeup(p)\<close> on a process pointer; no process sleeps on the null channel\<close>
  "wakeup_proc op = (case op of Some q \<Rightarrow> wakeup (Chan_proc q) | None \<Rightarrow> skip)"

definition reparent :: "nat \<Rightarrow> unit kernel" where
  "reparent p =
     for_each [0..<NPROC] (\<lambda>pp.
       bind (gets (\<lambda>w. p_parent (procs w ! pp))) (\<lambda>par.
       if par = Some p then
         andthen (modify (\<lambda>w. upd_proc pp (\<lambda>x. x\<lparr>p_parent := initproc w\<rparr>) w))
         (bind (gets initproc) wakeup_proc)
       else skip))"

definition exit_files :: "nat \<Rightarrow> unit kernel" where
  \<comment> \<open>the loop closing the open files\<close>
  "exit_files p =
     for_each [0..<NOFILE] (\<lambda>fd.
       bind (gets (\<lambda>w. p_ofile (procs w ! p) ! fd)) (\<lambda>fo.
       case fo of None \<Rightarrow> skip | Some f \<Rightarrow>
       andthen (fileclose f)
       (modify (upd_proc p (\<lambda>x. x\<lparr>p_ofile := (p_ofile x)[fd := None]\<rparr>)))))"

definition exit_zombie :: "nat \<Rightarrow> int \<Rightarrow> unit kernel" where
  \<comment> \<open>from acquiring \<open>wait_lock\<close> on\<close>
  "exit_zombie p status =
     andthen (acquire Wait_lock)
     (andthen (reparent p)
     (bind (gets (\<lambda>w. p_parent (procs w ! p))) (\<lambda>par.
      andthen (wakeup_proc par)
      (andthen (acquire (Proc_lock p))
      (andthen (modify (upd_proc p (\<lambda>x. x\<lparr>p_xstate := status\<rparr>)))
      (andthen (modify (upd_proc p (\<lambda>x. x\<lparr>p_state := ZOMBIE\<rparr>)))
      (andthen (release Wait_lock)
      (andthen sched
      (panic ''zombie exit'')))))))))"

definition exit :: "int \<Rightarrow> unit kernel" where
  "exit status =
     bind curproc (\<lambda>p.
     bind (gets initproc) (\<lambda>ip.
     if ip = Some p then panic ''init exiting'' else
     andthen (exit_files p)
     (andthen begin_op
     (andthen (bind (gets (\<lambda>w. p_cwd (procs w ! p))) (\<lambda>cwd. bind (deref cwd) iput))
     (andthen end_op
     (andthen (modify (upd_proc p (\<lambda>x. x\<lparr>p_cwd := None\<rparr>)))
     (exit_zombie p status)))))))"

text \<open>One scan of the table in \<open>wait\<close>: the value to return, or whether there are children.\<close>

primrec wait_scan :: "nat list \<Rightarrow> nat \<Rightarrow> addr \<Rightarrow> bool \<Rightarrow> (int + bool) kernel" where
  "wait_scan [] p a havekids = ret (Inr havekids)"
| "wait_scan (pp # pps) p a havekids =
     bind (gets (\<lambda>w. p_parent (procs w ! pp))) (\<lambda>par.
     if par \<noteq> Some p then wait_scan pps p a havekids else
     andthen (acquire (Proc_lock pp))
     (bind (gets (\<lambda>w. procs w ! pp)) (\<lambda>q.
      if p_state q = ZOMBIE then
        bind (if a \<noteq> 0 then bind (gets (\<lambda>w. p_pagetable (procs w ! p))) (\<lambda>pt.
                copyout pt a (bytes_of 4 (word_of_int (p_xstate q) :: 32 word)))
              else ret 0) (\<lambda>r.
        if r < 0 then
          andthen (release (Proc_lock pp)) (andthen (release Wait_lock) (ret (Inl (- 1))))
        else
          andthen (freeproc pp)
          (andthen (release (Proc_lock pp))
          (andthen (release Wait_lock)
          (ret (Inl (p_pid q))))))
      else
        andthen (release (Proc_lock pp))
        (wait_scan pps p a True))))"

definition wait :: "addr \<Rightarrow> int kernel" where
  "wait a =
     bind curproc (\<lambda>p.
     andthen (acquire Wait_lock)
     (loop (
        bind (wait_scan [0..<NPROC] p a False) (\<lambda>s.
        case s of Inl v \<Rightarrow> ret (Some v) | Inr havekids \<Rightarrow>
        bind (if \<not> havekids then ret True else killed p) (\<lambda>giveup.
        if giveup then andthen (release Wait_lock) (ret (Some (- 1)))
        else andthen (sleep (Chan_proc p) Wait_lock) (ret None))))))"

end
