(* ===== verification/Sysargs.thy ===== *)
theory Sysargs
  imports Proc
begin

text \<open>
  System call arguments, the first half of \<open>kernel/syscall.c\<close>. A string argument is returned as the
  bytes copied in, with the terminating zero, next to the C result.
\<close>

section \<open>syscall.c\<close>

definition fetchaddr :: "addr \<Rightarrow> (int \<times> 64 word) kernel" where
  "fetchaddr a =
     bind curproc (\<lambda>p.
     bind (gets (\<lambda>w. procs w ! p)) (\<lambda>q.
     if p_sz q \<le> a \<or> p_sz q < a + 8 then ret (- 1, 0) else
     bind (copyin (p_pagetable q) a 8) (\<lambda>(r, bs).
     if r \<noteq> 0 then ret (- 1, 0) else ret (0, word_of bs))))"

definition fetchstr :: "addr \<Rightarrow> nat \<Rightarrow> (int \<times> byte list) kernel" where
  "fetchstr a max_len =
     bind curproc (\<lambda>p.
     bind (gets (\<lambda>w. p_pagetable (procs w ! p))) (\<lambda>pt.
     bind (copyinstr pt a max_len) (\<lambda>(r, bs).
     if r < 0 then ret (- 1, bs)
     else ret (int (length (takeWhile (\<lambda>b. b \<noteq> 0) bs)), bs))))"

definition argraw :: "nat \<Rightarrow> 64 word kernel" where
  "argraw n =
     bind curproc (\<lambda>p.
     bind (gets (\<lambda>w. trapframes w (p_trapframe (procs w ! p)))) (\<lambda>tf.
     if n < 6 then ret (tf ([A0, A1, A2, A3, A4, A5] ! n)) else panic ''argraw''))"

definition argint :: "nat \<Rightarrow> int kernel" where
  "argint n = bind (argraw n) (\<lambda>x. ret (sint (ucast x :: 32 word)))"

definition argaddr :: "nat \<Rightarrow> addr kernel" where
  "argaddr n = argraw n"

definition argstr :: "nat \<Rightarrow> nat \<Rightarrow> (int \<times> byte list) kernel" where
  "argstr n max_len = bind (argaddr n) (\<lambda>a. fetchstr a max_len)"

definition cstring :: "byte list \<Rightarrow> byte list" where
  \<comment> \<open>the characters of a zero-terminated string\<close>
  "cstring bs = takeWhile (\<lambda>b. b \<noteq> 0) bs"

end
