(* ===== verification/Exec.thy ===== *)
theory Exec
  imports Sysargs
begin

unbundle bit_operations_syntax

text \<open>
  Running a program file, \<open>kernel/exec.c\<close> with the ELF structures of \<open>kernel/elf.h\<close>. The argument
  strings come as lists of their characters.
\<close>

section \<open>elf.h\<close>

definition field :: "byte list \<Rightarrow> nat \<Rightarrow> nat \<Rightarrow> 'a::len word" where
  \<comment> \<open>the \<open>n\<close>-byte little-endian field at offset \<open>off\<close>\<close>
  "field bs off n = word_of (take n (drop off bs))"

record elfhdr =
  elf_magic :: "32 word"
  elf_entry :: "64 word"
  elf_phoff :: "64 word"
  elf_phnum :: "16 word"

record proghdr =
  ph_type :: "32 word"
  ph_flags :: "32 word"
  ph_off :: "64 word"
  ph_vaddr :: "64 word"
  ph_filesz :: "64 word"
  ph_memsz :: "64 word"

definition dec_elfhdr :: "byte list \<Rightarrow> elfhdr" where
  "dec_elfhdr bs = \<lparr>elf_magic = field bs 0 4, elf_entry = field bs 24 8, elf_phoff = field bs 32 8,
     elf_phnum = field bs 56 2\<rparr>"

definition dec_proghdr :: "byte list \<Rightarrow> proghdr" where
  "dec_proghdr bs = \<lparr>ph_type = field bs 0 4, ph_flags = field bs 4 4, ph_off = field bs 8 8,
     ph_vaddr = field bs 16 8, ph_filesz = field bs 32 8, ph_memsz = field bs 40 8\<rparr>"

definition ELF_MAGIC :: "32 word" where "ELF_MAGIC = 0x464C457F"
definition ELF_PROG_LOAD :: "32 word" where "ELF_PROG_LOAD = 1"

section \<open>exec.c\<close>

definition flags2perm :: "32 word \<Rightarrow> 64 word" where
  "flags2perm flags =
     (let perm = (if flags AND 1 \<noteq> 0 then PTE_X else 0) in
      if flags AND 2 \<noteq> 0 then perm OR PTE_W else perm)"

function loadseg_loop :: "addr \<Rightarrow> addr \<Rightarrow> nat \<Rightarrow> 32 word \<Rightarrow> 32 word \<Rightarrow> 32 word \<Rightarrow> int kernel" where
  "loadseg_loop pt va ip off i sz =
     (if \<not> i < sz then ret 0 else
      bind (walkaddr pt (va + ucast i)) (\<lambda>pa.
      if pa = 0 then panic ''loadseg: address should exist'' else
      let n = (if sz - i < 4096 then sz - i else 4096) in
      bind (readi ip (To_kaddr pa) (off + i) n) (\<lambda>(r, _).
      if r \<noteq> uint n then ret (- 1)
      else if i < i + 4096 then loadseg_loop pt va ip off (i + 4096) sz
      else stop Diverged)))"
  by auto
termination
  by (relation "measure (\<lambda>(pt, va, ip, off, i, sz). 2 ^ 32 - unat i)")
    (auto simp: word_less_nat_alt intro!: diff_less_mono2 unat_bound [where 'a = 32, simplified])

declare loadseg_loop.simps [simp del]

definition loadseg :: "addr \<Rightarrow> addr \<Rightarrow> nat \<Rightarrow> 32 word \<Rightarrow> 32 word \<Rightarrow> int kernel" where
  "loadseg pt va ip off sz = loadseg_loop pt va ip off 0 sz"

text \<open>The code at \<open>bad\<close>.\<close>

definition exec_bad :: "addr \<Rightarrow> 64 word \<Rightarrow> nat option \<Rightarrow> int kernel" where
  "exec_bad pt sz ip =
     andthen (if pt \<noteq> 0 then proc_freepagetable pt sz else skip)
     (andthen (case ip of Some i \<Rightarrow> andthen (iunlockput i) end_op | None \<Rightarrow> skip)
     (ret (- 1)))"

primrec exec_segs :: "nat \<Rightarrow> addr \<Rightarrow> nat \<Rightarrow> 32 word \<Rightarrow> 64 word \<Rightarrow> (bool \<times> 64 word) kernel" where
  \<comment> \<open>the loop over the program headers; \<open>False\<close> when it goes to \<open>bad\<close>, and the size so far\<close>
  "exec_segs 0 pt ip off sz = ret (True, sz)"
| "exec_segs (Suc n) pt ip off sz =
     bind (readi ip To_local off 56) (\<lambda>(r, bs).
     if r \<noteq> 56 then ret (False, sz) else
     let ph = dec_proghdr bs in
     if ph_type ph \<noteq> ELF_PROG_LOAD then exec_segs n pt ip (off + 56) sz
     else if ph_memsz ph < ph_filesz ph then ret (False, sz)
     else if ph_vaddr ph + ph_memsz ph < ph_vaddr ph then ret (False, sz)
     else if ph_vaddr ph mod PGSIZE \<noteq> 0 then ret (False, sz)
     else
       bind (uvmalloc pt sz (ph_vaddr ph + ph_memsz ph) (flags2perm (ph_flags ph))) (\<lambda>sz1.
       if sz1 = 0 then ret (False, sz) else
       bind (loadseg pt (ph_vaddr ph) ip (ucast (ph_off ph)) (ucast (ph_filesz ph))) (\<lambda>r.
       if r < 0 then ret (False, sz1)
       else exec_segs n pt ip (off + 56) sz1)))"

primrec exec_args :: "byte list list \<Rightarrow> addr \<Rightarrow> addr \<Rightarrow> addr \<Rightarrow> addr list \<Rightarrow> (addr \<times> addr list) option kernel" where
  \<comment> \<open>the loop pushing the argument strings; \<open>None\<close> when it goes to \<open>bad\<close>\<close>
  "exec_args [] pt stackbase sp ustack = ret (Some (sp, ustack))"
| "exec_args (arg # argv) pt stackbase sp ustack =
     (if MAXARG \<le> length ustack then ret None else
      let sp1 = sp - (of_nat (length arg) + 1); sp2 = sp1 - sp1 mod 16 in
      if sp2 < stackbase then ret None else
      bind (copyout pt sp2 (arg @ [0])) (\<lambda>r.
      if r < 0 then ret None
      else exec_args argv pt stackbase sp2 (ustack @ [sp2])))"

definition last_elem :: "byte list \<Rightarrow> byte list" where
  \<comment> \<open>where \<open>last\<close> points after the loop over the path\<close>
  "last_elem path = rev (takeWhile (\<lambda>c. c \<noteq> slash) (rev path))"

definition exec_stack :: "nat \<Rightarrow> byte list \<Rightarrow> byte list list \<Rightarrow> elfhdr \<Rightarrow> addr \<Rightarrow> 64 word \<Rightarrow> int kernel" where
  \<comment> \<open>from allocating the user stack to the end\<close>
  "exec_stack p path argv elf pt sz0 =
     bind (gets (\<lambda>w. p_sz (procs w ! p))) (\<lambda>oldsz.
     let sz = PGROUNDUP sz0 in
     bind (uvmalloc pt sz (sz + (USERSTACK + 1) * PGSIZE) PTE_W) (\<lambda>sz1.
     if sz1 = 0 then exec_bad pt sz None else
     andthen (uvmclear pt (sz1 - (USERSTACK + 1) * PGSIZE))
     (let stackbase = sz1 - USERSTACK * PGSIZE in
      bind (exec_args argv pt stackbase sz1 []) (\<lambda>r.
      case r of None \<Rightarrow> exec_bad pt sz1 None | Some (sp, ustack) \<Rightarrow>
      let argc = length ustack; sp1 = sp - (of_nat argc + 1) * 8; sp2 = sp1 - sp1 mod 16 in
      if sp2 < stackbase then exec_bad pt sz1 None else
      bind (copyout pt sp2 (concat (map (bytes_of 8) (ustack @ [0])))) (\<lambda>r.
      if r < 0 then exec_bad pt sz1 None else
      bind (gets (\<lambda>w. p_trapframe (procs w ! p))) (\<lambda>tf.
      andthen (modify (upd_tf tf A1 sp2))
      (andthen (modify (upd_proc p (\<lambda>q. q\<lparr>p_name := name_copy (p_name q) (last_elem path)\<rparr>)))
      (bind (gets (\<lambda>w. p_pagetable (procs w ! p))) (\<lambda>oldpt.
       andthen (modify (upd_proc p (\<lambda>q. q\<lparr>p_pagetable := pt, p_sz := sz1\<rparr>)))
       (andthen (modify (upd_tf tf Epc (elf_entry elf)))
       (andthen (modify (upd_tf tf Tf_sp sp2))
       (andthen (proc_freepagetable oldpt oldsz)
       (ret (int argc))))))))))))))"

definition exec :: "byte list \<Rightarrow> byte list list \<Rightarrow> int kernel" where
  "exec path argv =
     bind curproc (\<lambda>p.
     andthen begin_op
     (bind (namei path) (\<lambda>oip.
      case oip of None \<Rightarrow> andthen end_op (ret (- 1)) | Some ip \<Rightarrow>
      andthen (ilock (Some ip))
      (bind (readi ip To_local 0 64) (\<lambda>(r, bs).
       if r \<noteq> 64 then exec_bad 0 0 (Some ip) else
       let elf = dec_elfhdr bs in
       if elf_magic elf \<noteq> ELF_MAGIC then exec_bad 0 0 (Some ip) else
       bind (proc_pagetable p) (\<lambda>pt.
       if pt = 0 then exec_bad 0 0 (Some ip) else
       bind (exec_segs (unat (elf_phnum elf)) pt ip (ucast (elf_phoff elf)) 0) (\<lambda>(ok, sz).
       if \<not> ok then exec_bad pt sz (Some ip) else
       andthen (iunlockput ip)
       (andthen end_op
       (bind curproc (\<lambda>p. exec_stack p path argv elf pt sz))))))))))"

end
