(* ===== verification/Sysfile.thy ===== *)
theory Sysfile
  imports Exec
begin

unbundle bit_operations_syntax

text \<open>
  The file system calls, \<open>kernel/sysfile.c\<close>. A system call returns the 64-bit value that goes to the
  user's \<open>a0\<close>; an error return is -1.
\<close>

section \<open>Descriptors\<close>

abbreviation fail :: "64 word" where "fail \<equiv> - 1"

definition argfd :: "nat \<Rightarrow> (nat \<times> nat) option kernel" where
  \<comment> \<open>the descriptor and the file, or \<open>None\<close> for -1\<close>
  "argfd n =
     bind (argint n) (\<lambda>fd.
     if fd < 0 \<or> fd \<ge> int NOFILE then ret None else
     bind curproc (\<lambda>p.
     bind (gets (\<lambda>w. p_ofile (procs w ! p) ! nat fd)) (\<lambda>fo.
     case fo of None \<Rightarrow> ret None | Some f \<Rightarrow> ret (Some (nat fd, f)))))"

definition fdalloc :: "nat \<Rightarrow> int kernel" where
  "fdalloc f =
     bind curproc (\<lambda>p.
     bind (for_find [0..<NOFILE] (\<lambda>fd.
       bind (gets (\<lambda>w. p_ofile (procs w ! p) ! fd)) (\<lambda>fo.
       if fo = None then
         andthen (modify (upd_proc p (\<lambda>q. q\<lparr>p_ofile := (p_ofile q)[fd := Some f]\<rparr>))) (ret (Some (int fd)))
       else ret None))) (\<lambda>r.
     case r of Some fd \<Rightarrow> ret fd | None \<Rightarrow> ret (- 1)))"

definition set_ofile :: "nat \<Rightarrow> nat \<Rightarrow> nat option \<Rightarrow> unit kernel" where
  \<comment> \<open>\<open>p->ofile[fd] = f\<close>\<close>
  "set_ofile p fd f = modify (upd_proc p (\<lambda>q. q\<lparr>p_ofile := (p_ofile q)[fd := f]\<rparr>))"

definition sys_dup :: "64 word kernel" where
  "sys_dup =
     bind (argfd 0) (\<lambda>r. case r of None \<Rightarrow> ret fail | Some (_, f) \<Rightarrow>
     bind (fdalloc f) (\<lambda>fd.
     if fd < 0 then ret fail else
     andthen (filedup f) (ret (word_of_int fd))))"

definition sys_read :: "64 word kernel" where
  "sys_read =
     bind (argaddr 1) (\<lambda>a.
     bind (argint 2) (\<lambda>n.
     bind (argfd 0) (\<lambda>r. case r of None \<Rightarrow> ret fail | Some (_, f) \<Rightarrow>
     bind (fileread f a n) (\<lambda>v. ret (word_of_int v)))))"

definition sys_write :: "64 word kernel" where
  "sys_write =
     bind (argaddr 1) (\<lambda>a.
     bind (argint 2) (\<lambda>n.
     bind (argfd 0) (\<lambda>r. case r of None \<Rightarrow> ret fail | Some (_, f) \<Rightarrow>
     bind (filewrite f a n) (\<lambda>v. ret (word_of_int v)))))"

definition sys_close :: "64 word kernel" where
  "sys_close =
     bind (argfd 0) (\<lambda>r. case r of None \<Rightarrow> ret fail | Some (fd, f) \<Rightarrow>
     bind curproc (\<lambda>p.
     andthen (set_ofile p fd None)
     (andthen (fileclose f)
     (ret 0))))"

definition sys_fstat :: "64 word kernel" where
  "sys_fstat =
     bind (argaddr 1) (\<lambda>st.
     bind (argfd 0) (\<lambda>r. case r of None \<Rightarrow> ret fail | Some (_, f) \<Rightarrow>
     bind (filestat f st) (\<lambda>v. ret (word_of_int v))))"

section \<open>Links\<close>

definition link_count :: "nat \<Rightarrow> (16 word \<Rightarrow> 16 word) \<Rightarrow> unit kernel" where
  \<comment> \<open>change \<open>ip->nlink\<close> and write the inode back\<close>
  "link_count i f = andthen (modify (upd_inode i (\<lambda>ip. ip\<lparr>i_nlink := f (i_nlink ip)\<rparr>))) (iupdate i)"

definition link_bad :: "nat \<Rightarrow> 64 word kernel" where
  "link_bad ip =
     andthen (ilock (Some ip))
     (andthen (link_count ip (\<lambda>n. n - 1))
     (andthen (iunlockput ip)
     (andthen end_op
     (ret fail))))"

definition sys_link :: "64 word kernel" where
  "sys_link =
     bind (argstr 0 MAXPATH) (\<lambda>(n0, old).
     if n0 < 0 then ret fail else
     bind (argstr 1 MAXPATH) (\<lambda>(n1, new).
     if n1 < 0 then ret fail else
     andthen begin_op
     (bind (namei (cstring old)) (\<lambda>oip. case oip of None \<Rightarrow> andthen end_op (ret fail) | Some ip \<Rightarrow>
      andthen (ilock (Some ip))
      (bind (gets (\<lambda>w. i_type (itable w ! ip))) (\<lambda>ty.
       if ty = T_DIR then andthen (iunlockput ip) (andthen end_op (ret fail)) else
       andthen (link_count ip (\<lambda>n. n + 1))
       (andthen (iunlock (Some ip))
       (bind (nameiparent (cstring new)) (\<lambda>r. case r of None \<Rightarrow> link_bad ip | Some (dp, name) \<Rightarrow>
        andthen (ilock (Some dp))
        (bind (gets (\<lambda>w. (i_dev (itable w ! dp), i_dev (itable w ! ip), i_inum (itable w ! ip)))) (\<lambda>(ddev, idev, inum).
         bind (if ddev \<noteq> idev then ret (- 1) else dirlink dp name inum) (\<lambda>r.
         if r < 0 then andthen (iunlockput dp) (link_bad ip) else
         andthen (iunlockput dp)
         (andthen (iput ip)
         (andthen end_op
         (ret 0)))))))))))))))"

function isdirempty_loop :: "nat \<Rightarrow> 32 word \<Rightarrow> bool kernel" where
  "isdirempty_loop dp off =
     bind (gets (\<lambda>w. i_size (itable w ! dp))) (\<lambda>sz.
     if \<not> off < sz then ret True else
     bind (readi dp To_local off dirent_size) (\<lambda>(r, bs).
     if r \<noteq> 16 then panic ''isdirempty: readi''
     else if de_inum (dec_dirent bs) \<noteq> 0 then ret False
     else if off < off + dirent_size then isdirempty_loop dp (off + dirent_size)
     else stop Diverged))"
  by auto
termination
  by (relation "measure (\<lambda>(dp, off). 2 ^ 32 - unat off)")
    (auto simp: word_less_nat_alt intro!: diff_less_mono2 unat_bound [where 'a = 32, simplified])

declare isdirempty_loop.simps [simp del]

definition isdirempty :: "nat \<Rightarrow> bool kernel" where
  "isdirempty dp = isdirempty_loop dp (2 * dirent_size)"

definition unlink_bad :: "nat \<Rightarrow> 64 word kernel" where
  "unlink_bad dp = andthen (iunlockput dp) (andthen end_op (ret fail))"

definition sys_unlink :: "64 word kernel" where
  "sys_unlink =
     bind (argstr 0 MAXPATH) (\<lambda>(n, path).
     if n < 0 then ret fail else
     andthen begin_op
     (bind (nameiparent (cstring path)) (\<lambda>r. case r of None \<Rightarrow> andthen end_op (ret fail) | Some (dp, name) \<Rightarrow>
      andthen (ilock (Some dp))
      (if namecmp name (ascii ''.'') = 0 \<or> namecmp name (ascii ''..'') = 0 then unlink_bad dp else
       bind (dirlookup dp name) (\<lambda>r. case r of None \<Rightarrow> unlink_bad dp | Some (ip, off) \<Rightarrow>
       andthen (ilock (Some ip))
       (bind (gets (\<lambda>w. itable w ! ip)) (\<lambda>x.
        if sint (i_nlink x) < 1 then panic ''unlink: nlink < 1'' else
        bind (if i_type x = T_DIR then isdirempty ip else ret True) (\<lambda>empty_dir.
        if \<not> empty_dir then andthen (iunlockput ip) (unlink_bad dp) else
        bind (writei dp (From_local (replicate 16 0)) off dirent_size) (\<lambda>r.
        if r \<noteq> 16 then panic ''unlink: writei'' else
        andthen (if i_type x = T_DIR then link_count dp (\<lambda>n. n - 1) else skip)
        (andthen (iunlockput dp)
        (andthen (link_count ip (\<lambda>n. n - 1))
        (andthen (iunlockput ip)
        (andthen end_op
        (ret 0))))))))))))))"

section \<open>Creating and opening\<close>

definition create_fail :: "nat \<Rightarrow> nat \<Rightarrow> nat option kernel" where
  "create_fail ip dp =
     andthen (link_count ip (\<lambda>_. 0))
     (andthen (iunlockput ip)
     (andthen (iunlockput dp)
     (ret None)))"

definition create :: "byte list \<Rightarrow> 16 word \<Rightarrow> 16 word \<Rightarrow> 16 word \<Rightarrow> nat option kernel" where
  "create path ty maj mnr =
     bind (nameiparent path) (\<lambda>r. case r of None \<Rightarrow> ret None | Some (dp, name) \<Rightarrow>
     andthen (ilock (Some dp))
     (bind (dirlookup dp name) (\<lambda>r. case r of
        Some (ip, _) \<Rightarrow>
          andthen (iunlockput dp)
          (andthen (ilock (Some ip))
          (bind (gets (\<lambda>w. i_type (itable w ! ip))) (\<lambda>ity.
           if ty = T_FILE \<and> (ity = T_FILE \<or> ity = T_DEVICE) then ret (Some ip)
           else andthen (iunlockput ip) (ret None))))
      | None \<Rightarrow>
          bind (gets (\<lambda>w. i_dev (itable w ! dp))) (\<lambda>dev.
          bind (ialloc dev ty) (\<lambda>oip. case oip of None \<Rightarrow> andthen (iunlockput dp) (ret None) | Some ip \<Rightarrow>
          andthen (ilock (Some ip))
          (andthen (modify (upd_inode ip (\<lambda>x. x\<lparr>i_major := maj, i_minor := mnr, i_nlink := 1\<rparr>)))
          (andthen (iupdate ip)
          (bind (gets (\<lambda>w. (i_inum (itable w ! ip), i_inum (itable w ! dp)))) (\<lambda>(inum, dinum).
           bind (if ty = T_DIR then
                   bind (dirlink ip (ascii ''.'') inum) (\<lambda>r.
                   if r < 0 then ret False else
                   bind (dirlink ip (ascii ''..'') dinum) (\<lambda>r. ret (\<not> r < 0)))
                 else ret True) (\<lambda>ok.
           if \<not> ok then create_fail ip dp else
           bind (dirlink dp name inum) (\<lambda>r.
           if r < 0 then create_fail ip dp else
           andthen (if ty = T_DIR then link_count dp (\<lambda>n. n + 1) else skip)
           (andthen (iunlockput dp)
           (ret (Some ip))))))))))))))"

definition O_RDONLY :: "32 word" where [layout]: "O_RDONLY = 0x000"
definition O_WRONLY :: "32 word" where [layout]: "O_WRONLY = 0x001"
definition O_RDWR :: "32 word" where [layout]: "O_RDWR = 0x002"
definition O_CREATE :: "32 word" where [layout]: "O_CREATE = 0x200"
definition O_TRUNC :: "32 word" where [layout]: "O_TRUNC = 0x400"

definition open_file :: "nat \<Rightarrow> 32 word \<Rightarrow> 64 word kernel" where
  \<comment> \<open>\<open>sys_open\<close> from the point where \<open>ip\<close> is found and locked\<close>
  "open_file ip omode =
     bind (gets (\<lambda>w. itable w ! ip)) (\<lambda>x.
     if i_type x = T_DEVICE \<and> (sint (i_major x) < 0 \<or> sint (i_major x) \<ge> NDEV) then
       andthen (iunlockput ip) (andthen end_op (ret fail))
     else
       bind filealloc (\<lambda>fo. case fo of
         None \<Rightarrow> andthen (iunlockput ip) (andthen end_op (ret fail))
       | Some f \<Rightarrow>
           bind (fdalloc f) (\<lambda>fd.
           if fd < 0 then
             andthen (fileclose f) (andthen (iunlockput ip) (andthen end_op (ret fail)))
           else
             andthen (modify (upd_file f (\<lambda>y. if i_type x = T_DEVICE
                then y\<lparr>f_type := FD_DEVICE, f_major := i_major x\<rparr>
                else y\<lparr>f_type := FD_INODE, f_off := 0\<rparr>)))
             (andthen (modify (upd_file f (\<lambda>y. y\<lparr>f_ip := Some ip,
                f_readable := (omode AND O_WRONLY = 0),
                f_writable := (omode AND O_WRONLY \<noteq> 0 \<or> omode AND O_RDWR \<noteq> 0)\<rparr>)))
             (andthen (if omode AND O_TRUNC \<noteq> 0 \<and> i_type x = T_FILE then itrunc ip else skip)
             (andthen (iunlock (Some ip))
             (andthen end_op
             (ret (word_of_int fd)))))))))"

definition sys_open :: "64 word kernel" where
  "sys_open =
     bind (argint 1) (\<lambda>om.
     bind (argstr 0 MAXPATH) (\<lambda>(n, path).
     if n < 0 then ret fail else
     let omode = word_of_int om in
     andthen begin_op
     (if omode AND O_CREATE \<noteq> 0 then
        bind (create (cstring path) T_FILE 0 0) (\<lambda>oip. case oip of
          None \<Rightarrow> andthen end_op (ret fail)
        | Some ip \<Rightarrow> open_file ip omode)
      else
        bind (namei (cstring path)) (\<lambda>oip. case oip of
          None \<Rightarrow> andthen end_op (ret fail)
        | Some ip \<Rightarrow>
            andthen (ilock (Some ip))
            (bind (gets (\<lambda>w. i_type (itable w ! ip))) (\<lambda>ty.
             if ty = T_DIR \<and> omode \<noteq> O_RDONLY then
               andthen (iunlockput ip) (andthen end_op (ret fail))
             else open_file ip omode))))))"

definition sys_mkdir :: "64 word kernel" where
  "sys_mkdir =
     andthen begin_op
     (bind (argstr 0 MAXPATH) (\<lambda>(n, path).
      if n < 0 then andthen end_op (ret fail) else
      bind (create (cstring path) T_DIR 0 0) (\<lambda>oip. case oip of
        None \<Rightarrow> andthen end_op (ret fail)
      | Some ip \<Rightarrow> andthen (iunlockput ip) (andthen end_op (ret 0)))))"

definition sys_mknod :: "64 word kernel" where
  "sys_mknod =
     andthen begin_op
     (bind (argint 1) (\<lambda>maj.
      bind (argint 2) (\<lambda>mnr.
      bind (argstr 0 MAXPATH) (\<lambda>(n, path).
      if n < 0 then andthen end_op (ret fail) else
      bind (create (cstring path) T_DEVICE (word_of_int maj) (word_of_int mnr)) (\<lambda>oip. case oip of
        None \<Rightarrow> andthen end_op (ret fail)
      | Some ip \<Rightarrow> andthen (iunlockput ip) (andthen end_op (ret 0)))))))"

definition sys_chdir :: "64 word kernel" where
  "sys_chdir =
     bind curproc (\<lambda>p.
     andthen begin_op
     (bind (argstr 0 MAXPATH) (\<lambda>(n, path).
      if n < 0 then andthen end_op (ret fail) else
      bind (namei (cstring path)) (\<lambda>oip. case oip of
        None \<Rightarrow> andthen end_op (ret fail)
      | Some ip \<Rightarrow>
          andthen (ilock (Some ip))
          (bind (gets (\<lambda>w. i_type (itable w ! ip))) (\<lambda>ty.
           if ty \<noteq> T_DIR then andthen (iunlockput ip) (andthen end_op (ret fail)) else
           andthen (iunlock (Some ip))
           (bind (gets (\<lambda>w. p_cwd (procs w ! p))) (\<lambda>cwd.
            andthen (bind (deref cwd) iput)
            (andthen end_op
            (andthen (modify (upd_proc p (\<lambda>q. q\<lparr>p_cwd := Some ip\<rparr>)))
            (ret 0)))))))))))"

section \<open>exec and pipe\<close>

primrec exec_argv :: "nat \<Rightarrow> addr \<Rightarrow> nat \<Rightarrow> (addr \<times> byte list) list \<Rightarrow> (bool \<times> (addr \<times> byte list) list) kernel" where
  \<comment> \<open>the loop fetching the argument strings, each into a page of its own; \<open>False\<close> when it goes to \<open>bad\<close>\<close>
  "exec_argv 0 uargv i argv = ret (False, argv)"
| "exec_argv (Suc k) uargv i argv =
     bind (fetchaddr (uargv + 8 * of_nat i)) (\<lambda>(r, uarg).
     if r < 0 then ret (False, argv)
     else if uarg = 0 then ret (True, argv)
     else bind kalloc (\<lambda>page.
       if page = 0 then ret (False, argv) else
       bind (fetchstr uarg 4096) (\<lambda>(r, bs).
       andthen (modify (\<lambda>w. w\<lparr>mem := store_bytes (mem w) page bs\<rparr>))
       (if r < 0 then ret (False, argv @ [(page, bs)])
        else exec_argv k uargv (Suc i) (argv @ [(page, bs)])))))"

definition sys_exec :: "64 word kernel" where
  "sys_exec =
     bind (argaddr 1) (\<lambda>uargv.
     bind (argstr 0 MAXPATH) (\<lambda>(n, path).
     if n < 0 then ret fail else
     bind (exec_argv MAXARG uargv 0 []) (\<lambda>(ok, argv).
     if \<not> ok then
       andthen (for_each argv (\<lambda>(page, _). kfree page)) (ret fail)
     else
       bind (exec (cstring path) (map (\<lambda>(_, bs). cstring bs) argv)) (\<lambda>v.
       andthen (for_each argv (\<lambda>(page, _). kfree page))
       (ret (word_of_int v))))))"

definition sys_pipe :: "64 word kernel" where
  "sys_pipe =
     bind curproc (\<lambda>p.
     bind (argaddr 0) (\<lambda>fdarray.
     bind pipealloc (\<lambda>r. case r of None \<Rightarrow> ret fail | Some (rdf, wrf) \<Rightarrow>
     bind (fdalloc rdf) (\<lambda>fd0.
     if fd0 < 0 then andthen (fileclose rdf) (andthen (fileclose wrf) (ret fail)) else
     bind (fdalloc wrf) (\<lambda>fd1.
     if fd1 < 0 then
       andthen (set_ofile p (nat fd0) None)
       (andthen (fileclose rdf) (andthen (fileclose wrf) (ret fail)))
     else
       bind (gets (\<lambda>w. p_pagetable (procs w ! p))) (\<lambda>pt.
       bind (copyout pt fdarray (bytes_of 4 (word_of_int fd0 :: 32 word))) (\<lambda>r0.
       bind (if r0 < 0 then ret (- 1) else copyout pt (fdarray + 4) (bytes_of 4 (word_of_int fd1 :: 32 word))) (\<lambda>r1.
       if r1 < 0 then
         andthen (set_ofile p (nat fd0) None)
         (andthen (set_ofile p (nat fd1) None)
         (andthen (fileclose rdf) (andthen (fileclose wrf) (ret fail))))
       else ret 0))))))))"

end
