(* ===== verification/Syscall.thy ===== *)
theory Syscall
  imports Sysfile
begin

text \<open>
  The process system calls, \<open>kernel/sysproc.c\<close>, and the dispatch table of \<open>kernel/syscall.c\<close>.
\<close>

section \<open>sysproc.c\<close>

definition sys_exit :: "64 word kernel" where
  "sys_exit = bind (argint 0) (\<lambda>n. andthen (exit n) (ret 0))"

definition sys_getpid :: "64 word kernel" where
  "sys_getpid = bind curproc (\<lambda>p. gets (\<lambda>w. word_of_int (p_pid (procs w ! p))))"

definition sys_fork :: "64 word kernel" where
  "sys_fork = bind fork (\<lambda>v. ret (word_of_int v))"

definition sys_wait :: "64 word kernel" where
  "sys_wait = bind (argaddr 0) (\<lambda>a. bind (wait a) (\<lambda>v. ret (word_of_int v)))"

definition sys_sbrk :: "64 word kernel" where
  "sys_sbrk =
     bind (argint 0) (\<lambda>n.
     bind curproc (\<lambda>p.
     bind (gets (\<lambda>w. p_sz (procs w ! p))) (\<lambda>a.
     bind (growproc n) (\<lambda>r.
     if r < 0 then ret fail else ret a))))"

definition sys_sleep :: "64 word kernel" where
  "sys_sleep =
     bind (argint 0) (\<lambda>n0.
     let n = (if n0 < 0 then 0 else n0) in
     andthen (acquire Tickslock)
     (bind (gets ticks) (\<lambda>ticks0.
      loop (bind (gets ticks) (\<lambda>t.
        if t - ticks0 < word_of_int n then
          bind curproc (\<lambda>p.
          bind (killed p) (\<lambda>k.
          if k then andthen (release Tickslock) (ret (Some fail))
          else andthen (sleep Chan_ticks Tickslock) (ret None)))
        else andthen (release Tickslock) (ret (Some 0)))))))"

definition sys_kill :: "64 word kernel" where
  "sys_kill = bind (argint 0) (\<lambda>pid. bind (kill pid) (\<lambda>v. ret (word_of_int v)))"

definition sys_uptime :: "64 word kernel" where
  "sys_uptime =
     andthen (acquire Tickslock)
     (bind (gets ticks) (\<lambda>x.
      andthen (release Tickslock)
      (ret (ucast x))))"

section \<open>syscall.c\<close>

definition syscalls :: "64 word kernel list" where
  \<comment> \<open>entries 1 to 21 of the table, by the numbers of \<open>syscall.h\<close>\<close>
  "syscalls = [sys_fork, sys_exit, sys_wait, sys_pipe, sys_read, sys_kill, sys_exec, sys_fstat,
     sys_chdir, sys_dup, sys_getpid, sys_sbrk, sys_sleep, sys_uptime, sys_open, sys_write,
     sys_mknod, sys_unlink, sys_link, sys_mkdir, sys_close]"

definition syscall :: "unit kernel" where
  "syscall =
     bind curproc (\<lambda>p.
     bind (gets (\<lambda>w. p_trapframe (procs w ! p))) (\<lambda>tf.
     bind (gets (\<lambda>w. sint (ucast (trapframes w tf A7) :: 32 word))) (\<lambda>num.
     if num > 0 \<and> num \<le> int (length syscalls) then
       bind (syscalls ! (nat num - 1)) (\<lambda>v.
       bind (gets (\<lambda>w. p_trapframe (procs w ! p))) (\<lambda>tf. modify (upd_tf tf A0 v)))
     else
       bind (gets (\<lambda>w. procs w ! p)) (\<lambda>q.
       andthen (printf (''%d %s: unknown sys call %d'' @ newline)
          [Arg_int (word_of_int (p_pid q)), Arg_str (Some (name_string (p_name q))), Arg_int (word_of_int num)])
       (modify (upd_tf tf A0 (- 1)))))))"

end
