(* ===== verification/Trap.thy ===== *)
theory Trap
  imports Syscall Virtio
begin

unbundle bit_operations_syntax

text \<open>
  Traps and interrupts, \<open>kernel/trap.c\<close> and \<open>kernel/plic.c\<close>, and \<open>forkret\<close> of \<open>kernel/proc.c\<close>. Leaving
  for user space through the trampoline is \<open>stop (To_user satp)\<close>.
\<close>

section \<open>Registers (riscv.h)\<close>

definition r_sepc :: "64 word kernel" where "r_sepc = r_csr Sepc"
definition w_sepc :: "64 word \<Rightarrow> unit kernel" where "w_sepc = w_csr Sepc"
definition r_scause :: "64 word kernel" where "r_scause = r_csr Scause"
definition r_stval :: "64 word kernel" where "r_stval = r_csr Stval"
definition w_stvec :: "64 word \<Rightarrow> unit kernel" where "w_stvec = w_csr Stvec"
definition r_satp :: "64 word kernel" where "r_satp = r_csr Satp"
definition w_satp :: "64 word \<Rightarrow> unit kernel" where "w_satp = w_csr Satp"
definition r_time :: "64 word kernel" where "r_time = r_csr Time"
definition w_stimecmp :: "64 word \<Rightarrow> unit kernel" where "w_stimecmp = w_csr Stimecmp"
definition r_tp :: "64 word kernel" where "r_tp = gets (\<lambda>w. of_nat (hart w))"

section \<open>plic.c\<close>

definition PLIC_SENABLE :: "nat \<Rightarrow> addr" where "PLIC_SENABLE h = PLIC + 0x2080 + of_nat h * 0x100"
definition PLIC_SPRIORITY :: "nat \<Rightarrow> addr" where "PLIC_SPRIORITY h = PLIC + 0x201000 + of_nat h * 0x2000"
definition PLIC_SCLAIM :: "nat \<Rightarrow> addr" where "PLIC_SCLAIM h = PLIC + 0x201004 + of_nat h * 0x2000"

definition plicinit :: "unit kernel" where
  "plicinit =
     andthen (mmio_w (PLIC + word_of_int UART0_IRQ * 4) 1)
     (mmio_w (PLIC + word_of_int VIRTIO0_IRQ * 4) 1)"

definition plicinithart :: "unit kernel" where
  "plicinithart =
     bind cpuid (\<lambda>h.
     andthen (mmio_w (PLIC_SENABLE h) (push_bit (nat UART0_IRQ) 1 OR push_bit (nat VIRTIO0_IRQ) 1))
     (mmio_w (PLIC_SPRIORITY h) 0))"

definition plic_claim :: "int kernel" where
  "plic_claim = bind cpuid (\<lambda>h. bind (mmio_r (PLIC_SCLAIM h)) (\<lambda>irq. ret (sint irq)))"

definition plic_complete :: "int \<Rightarrow> unit kernel" where
  "plic_complete irq = bind cpuid (\<lambda>h. mmio_w (PLIC_SCLAIM h) (word_of_int irq))"

section \<open>trap.c\<close>

definition trapinit :: "unit kernel" where
  "trapinit = initlock Tickslock ''time''"

definition trapinithart :: "unit kernel" where
  "trapinithart = bind (gets (\<lambda>w. syms w Sym_kernelvec)) w_stvec"

definition clockintr :: "unit kernel" where
  "clockintr =
     bind cpuid (\<lambda>h.
     andthen (if h = 0 then
         andthen (acquire Tickslock)
         (andthen (modify (\<lambda>w. w\<lparr>ticks := ticks w + 1\<rparr>))
         (andthen (wakeup Chan_ticks)
         (release Tickslock)))
       else skip)
     (bind r_time (\<lambda>t. w_stimecmp (t + 1000000))))"

definition devintr :: "int kernel" where
  "devintr =
     bind r_scause (\<lambda>scause.
     if scause = 0x8000000000000009 then
       bind plic_claim (\<lambda>irq.
       andthen (if irq = UART0_IRQ then uartintr
          else if irq = VIRTIO0_IRQ then virtio_disk_intr
          else if irq \<noteq> 0 then andthen (printf (''unexpected interrupt irq=%d'' @ newline) [Arg_int (word_of_int irq)]) skip
          else skip)
       (andthen (if irq \<noteq> 0 then plic_complete irq else skip)
       (ret 1)))
     else if scause = 0x8000000000000005 then andthen clockintr (ret 2)
     else ret 0)"

definition usertrapret :: "unit kernel" where
  "usertrapret =
     bind curproc (\<lambda>p.
     andthen intr_off
     (bind (gets (\<lambda>w. TRAMPOLINE + (syms w Sym_uservec - trampoline w))) (\<lambda>uv.
      andthen (w_stvec uv)
      (bind (gets (\<lambda>w. p_trapframe (procs w ! p))) (\<lambda>tf.
       bind r_satp (\<lambda>ksatp.
       andthen (modify (upd_tf tf Kernel_satp ksatp))
       (andthen (modify (\<lambda>w. upd_tf tf Kernel_sp (p_kstack (procs w ! p) + PGSIZE) w))
       (andthen (modify (\<lambda>w. upd_tf tf Kernel_trap (syms w Sym_usertrap) w))
       (bind r_tp (\<lambda>tp.
        andthen (modify (upd_tf tf Kernel_hartid tp))
        (bind r_sstatus (\<lambda>x.
         andthen (w_sstatus ((x AND NOT SSTATUS_SPP) OR SSTATUS_SPIE))
         (bind (gets (\<lambda>w. trapframes w tf Epc)) (\<lambda>epc.
          andthen (w_sepc epc)
          (bind (gets (\<lambda>w. MAKE_SATP (p_pagetable (procs w ! p)))) (\<lambda>satp.
           stop (To_user satp)))))))))))))))))"

definition usertrap :: "unit kernel" where
  "usertrap =
     bind r_sstatus (\<lambda>ss.
     if ss AND SSTATUS_SPP \<noteq> 0 then panic ''usertrap: not from user mode'' else
     andthen (bind (gets (\<lambda>w. syms w Sym_kernelvec)) w_stvec)
     (bind curproc (\<lambda>p.
      bind (gets (\<lambda>w. p_trapframe (procs w ! p))) (\<lambda>tf.
      bind r_sepc (\<lambda>sepc.
      andthen (modify (upd_tf tf Epc sepc))
      (bind r_scause (\<lambda>scause.
       bind (if scause = 8 then
               andthen (bind (killed p) (\<lambda>k. if k then exit (- 1) else skip))
               (andthen (modify (\<lambda>w. upd_tf tf Epc (trapframes w tf Epc + 4) w))
               (andthen intr_on
               (andthen syscall
               (ret 0))))
             else
               bind devintr (\<lambda>which_dev.
               if which_dev \<noteq> 0 then ret which_dev else
               bind (gets (\<lambda>w. p_pid (procs w ! p))) (\<lambda>pid.
               andthen (printf (''usertrap(): unexpected scause 0x%lx pid=%d'' @ newline)
                  [Arg_long scause, Arg_int (word_of_int pid)])
               (bind r_sepc (\<lambda>sepc.
                bind r_stval (\<lambda>stval.
                andthen (printf (''            sepc=0x%lx stval=0x%lx'' @ newline) [Arg_long sepc, Arg_long stval])
                (andthen (setkilled p)
                (ret 0)))))))) (\<lambda>which_dev.
       andthen (bind (killed p) (\<lambda>k. if k then exit (- 1) else skip))
       (andthen (if which_dev = 2 then yield else skip)
       usertrapret)))))))))"

definition kerneltrap :: "unit kernel" where
  "kerneltrap =
     bind r_sepc (\<lambda>sepc.
     bind r_sstatus (\<lambda>sstatus.
     bind r_scause (\<lambda>scause.
     if sstatus AND SSTATUS_SPP = 0 then panic ''kerneltrap: not from supervisor mode'' else
     bind intr_get (\<lambda>on.
     if on then panic ''kerneltrap: interrupts enabled'' else
     bind devintr (\<lambda>which_dev.
     if which_dev = 0 then
       bind r_sepc (\<lambda>se.
       bind r_stval (\<lambda>sv.
       andthen (printf (''scause=0x%lx sepc=0x%lx stval=0x%lx'' @ newline) [Arg_long scause, Arg_long se, Arg_long sv])
       (panic ''kerneltrap'')))
     else
       andthen (if which_dev = 2 then bind myproc (\<lambda>me. if me \<noteq> None then yield else skip) else skip)
       (andthen (w_sepc sepc)
       (w_sstatus sstatus)))))))"

section \<open>forkret (proc.c)\<close>

definition forkret :: "unit kernel" where
  "forkret =
     bind curproc (\<lambda>p.
     andthen (release (Proc_lock p))
     (bind (gets first) (\<lambda>fst_time.
      andthen (if fst_time then
          andthen (fsinit ROOTDEV)
          (modify (\<lambda>w. w\<lparr>first := False\<rparr>))
        else skip)
      usertrapret)))"

end
