(* ===== verification/Boot.thy ===== *)
theory Boot
  imports Trap
begin

unbundle bit_operations_syntax

text \<open>
  Starting a hart: \<open>kernel/start.c\<close> in machine mode and \<open>kernel/main.c\<close>. The \<open>mret\<close> that ends \<open>start\<close> is
  its return; \<open>main n\<close> ends in the first \<open>n\<close> turns of the endless scheduler loop.
\<close>

section \<open>Machine-mode registers (riscv.h)\<close>

definition r_mstatus :: "64 word kernel" where "r_mstatus = r_csr Mstatus"
definition w_mstatus :: "64 word \<Rightarrow> unit kernel" where "w_mstatus = w_csr Mstatus"
definition w_mepc :: "64 word \<Rightarrow> unit kernel" where "w_mepc = w_csr Mepc"
definition r_sie :: "64 word kernel" where "r_sie = r_csr Sie"
definition w_sie :: "64 word \<Rightarrow> unit kernel" where "w_sie = w_csr Sie"
definition w_medeleg :: "64 word \<Rightarrow> unit kernel" where "w_medeleg = w_csr Medeleg"
definition w_mideleg :: "64 word \<Rightarrow> unit kernel" where "w_mideleg = w_csr Mideleg"
definition w_pmpaddr0 :: "64 word \<Rightarrow> unit kernel" where "w_pmpaddr0 = w_csr Pmpaddr0"
definition w_pmpcfg0 :: "64 word \<Rightarrow> unit kernel" where "w_pmpcfg0 = w_csr Pmpcfg0"
definition r_mie :: "64 word kernel" where "r_mie = r_csr Mie"
definition w_mie :: "64 word \<Rightarrow> unit kernel" where "w_mie = w_csr Mie"
definition r_menvcfg :: "64 word kernel" where "r_menvcfg = r_csr Menvcfg"
definition w_menvcfg :: "64 word \<Rightarrow> unit kernel" where "w_menvcfg = w_csr Menvcfg"
definition r_mcounteren :: "64 word kernel" where "r_mcounteren = r_csr Mcounteren"
definition w_mcounteren :: "64 word \<Rightarrow> unit kernel" where "w_mcounteren = w_csr Mcounteren"
definition r_mhartid :: "64 word kernel" where "r_mhartid = r_csr Mhartid"
definition w_tp :: "64 word \<Rightarrow> unit kernel" where "w_tp x = modify (\<lambda>w. w\<lparr>hart := unat x\<rparr>)"

definition MSTATUS_MPP_MASK :: "64 word" where [layout]: "MSTATUS_MPP_MASK = push_bit 11 3"
definition MSTATUS_MPP_S :: "64 word" where [layout]: "MSTATUS_MPP_S = push_bit 11 1"
definition SIE_SEIE :: "64 word" where [layout]: "SIE_SEIE = push_bit 9 1"
definition SIE_STIE :: "64 word" where [layout]: "SIE_STIE = push_bit 5 1"
definition SIE_SSIE :: "64 word" where [layout]: "SIE_SSIE = push_bit 1 1"
definition MIE_STIE :: "64 word" where [layout]: "MIE_STIE = push_bit 5 1"

section \<open>start.c\<close>

definition timerinit :: "unit kernel" where
  "timerinit =
     bind r_mie (\<lambda>x. andthen (w_mie (x OR MIE_STIE))
     (bind r_menvcfg (\<lambda>x. andthen (w_menvcfg (x OR push_bit 63 1))
     (bind r_mcounteren (\<lambda>x. andthen (w_mcounteren (x OR 2))
     (bind r_time (\<lambda>t. w_stimecmp (t + 1000000))))))))"

definition start :: "unit kernel" where
  "start =
     bind r_mstatus (\<lambda>x.
     andthen (w_mstatus ((x AND NOT MSTATUS_MPP_MASK) OR MSTATUS_MPP_S))
     (andthen (bind (gets (\<lambda>w. syms w Sym_main)) w_mepc)
     (andthen (w_satp 0)
     (andthen (w_medeleg 0xffff)
     (andthen (w_mideleg 0xffff)
     (bind r_sie (\<lambda>x.
      andthen (w_sie (x OR SIE_SEIE OR SIE_STIE OR SIE_SSIE))
      (andthen (w_pmpaddr0 0x3fffffffffffff)
      (andthen (w_pmpcfg0 0xf)
      (andthen timerinit
      (bind r_mhartid w_tp)))))))))))"

section \<open>main.c\<close>

definition main :: "nat \<Rightarrow> unit kernel" where
  "main n =
     bind cpuid (\<lambda>id.
     andthen (if id = 0 then
         andthen consoleinit
         (andthen printfinit
         (andthen (printf newline [])
         (andthen (printf (''xv6 kernel is booting'' @ newline) [])
         (andthen (printf newline [])
         (andthen kinit
         (andthen kvminit
         (andthen kvminithart
         (andthen procinit
         (andthen trapinit
         (andthen trapinithart
         (andthen plicinit
         (andthen plicinithart
         (andthen binit
         (andthen iinit
         (andthen fileinit
         (andthen virtio_disk_init
         (andthen userinit
         (modify (\<lambda>w. w\<lparr>started := True\<rparr>)))))))))))))))))))
       else
         bind (gets started) (\<lambda>st.
         if \<not> st then stop Diverged else
         andthen (printf (''hart %d starting'' @ newline) [Arg_int (of_nat id)])
         (andthen kvminithart
         (andthen trapinithart
         plicinithart))))
     (scheduler n))"

end
