(* ===== verification/Disk.thy ===== *)
theory Disk
  imports Virtio
begin

unbundle bit_operations_syntax

text \<open>
  What the disk driver achieves together with the device. The device is not part of the kernel: it is
  a parameter, a function \<open>dv\<close> on the state, of which only \<open>virtio_device dv\<close> is known. That is what
  the virtio specification (sections 2.7 and 5.2.6) promises: a device that has been notified of a
  well-formed block request carries it out, reports success in the status byte, and puts the chain
  in the used ring. \<open>disk_turn\<close> is what happens on an otherwise idle machine while a process sleeps for
  the disk: the scheduler lets go of the process, the device acts and interrupts, the handler wakes
  the process, and the scheduler picks it again. \<open>runs\<close> says that a routine returns when every sleep
  is followed by such a turn, whatever the device; the routines of the file system are specified by it.
\<close>

section \<open>The device\<close>

definition transfer :: "bool \<Rightarrow> nat \<Rightarrow> 32 word \<Rightarrow> world \<Rightarrow> world" where
  "transfer write b blk w =
     (if write then w\<lparr>ddisk := (ddisk w)(blk := b_data (bufs w ! b)), dwrites := dwrites w @ [(blk, b_data (bufs w ! b))]\<rparr>
      else w\<lparr>bufs := (bufs w)[b := (bufs w ! b)\<lparr>b_data := ddisk w blk\<rparr>]\<rparr>)"

definition block_request :: "vdisk \<Rightarrow> nat \<Rightarrow> bool \<Rightarrow> nat \<Rightarrow> nat \<Rightarrow> 32 word \<Rightarrow> bool" where
  \<comment> \<open>the chain at \<open>head\<close> asks for the transfer of a block (two sectors of 512 bytes): a 16-byte header
      for the device to read, the data for it to read or to write, and a status byte for it to write\<close>
  "block_request v head write b s blk \<longleftrightarrow>
     (let d0 = desc v ! head; i1 = unat (vd_next d0); d1 = desc v ! i1; i2 = unat (vd_next d1); d2 = desc v ! i2 in
      head < NUM \<and> i1 < NUM \<and> i2 < NUM \<and> distinct [head, i1, i2]
      \<and> (\<exists>r < NUM. vd_addr d0 = Vop r \<and> vops v ! r = \<lparr>vr_type = if write then VIRTIO_BLK_T_OUT else VIRTIO_BLK_T_IN,
           vr_reserved = 0, vr_sector = 2 * ucast blk\<rparr>)
      \<and> vd_len d0 = 16 \<and> vd_flags d0 = VRING_DESC_F_NEXT
      \<and> vd_addr d1 = Vdata b \<and> vd_len d1 = 1024
      \<and> vd_flags d1 = (if write then VRING_DESC_F_NEXT else VRING_DESC_F_NEXT OR VRING_DESC_F_WRITE)
      \<and> vd_addr d2 = Vstatus s \<and> vd_len d2 = 1 \<and> vd_flags d2 = VRING_DESC_F_WRITE)"

definition notified :: "world \<Rightarrow> bool" where
  \<comment> \<open>the driver has told the device of the next request, and has not touched its registers since\<close>
  "notified w \<longleftrightarrow> vkick (vdisk w) = vseen (vdisk w) + 1 \<and> dev_out w \<noteq> []
     \<and> last (dev_out w) = (VIRTIO0 + VIRTIO_MMIO_QUEUE_NOTIFY, 0)"

definition next_head :: "vdisk \<Rightarrow> nat" where
  "next_head v = unat (avail_ring v ! (unat (vseen v) mod NUM))"

definition completed :: "nat \<Rightarrow> nat \<Rightarrow> vdisk \<Rightarrow> vdisk" where
  "completed head s v = v\<lparr>info_status := (info_status v)[s := 0],
     used_ring := (used_ring v)[unat (used_idx_dev v) mod NUM := of_nat head],
     used_idx_dev := used_idx_dev v + 1, vseen := vseen v + 1\<rparr>"

definition virtio_device :: "(world \<Rightarrow> world) \<Rightarrow> bool" where
  "virtio_device dv \<longleftrightarrow> (\<forall>w write b s blk. notified w \<longrightarrow> block_request (vdisk w) (next_head (vdisk w)) write b s blk \<longrightarrow>
     dv w = upd_vdisk (completed (next_head (vdisk w)) s) (transfer write b blk w))"

definition turn :: "(world \<Rightarrow> world) \<Rightarrow> unit kernel" where
  "turn dv =
     bind (gets (\<lambda>w. the (c_proc (this_cpu w)))) (\<lambda>p.
     andthen (modify (upd_cpu (\<lambda>c. c\<lparr>c_proc := None\<rparr>)))
     (andthen (release (Proc_lock p))
     (andthen (modify dv)
     (andthen virtio_disk_intr
     (andthen (acquire (Proc_lock p))
     (andthen (modify (upd_proc p (\<lambda>q. q\<lparr>p_state := RUNNING\<rparr>)))
     (modify (upd_cpu (\<lambda>c. c\<lparr>c_proc := Some p\<rparr>)))))))))"

definition disk_turn :: "(world \<Rightarrow> world) \<Rightarrow> kstate \<Rightarrow> kstate" where
  "disk_turn dv k = (case turn dv (kstate.extend k (world.fields [])) of
     Ok _ w \<Rightarrow> kstate.truncate w | Stop _ _ \<Rightarrow> k)"

text \<open>There is such a device: one that looks at everything the specification mentions.\<close>

definition ideal_disk :: "world \<Rightarrow> world" where
  "ideal_disk w =
     (let v = vdisk w; head = next_head v; d0 = desc v ! head; d1 = desc v ! unat (vd_next d0); d2 = desc v ! unat (vd_next d1) in
      case (vd_addr d0, vd_addr d1, vd_addr d2) of
        (Vop r, Vdata b, Vstatus s) \<Rightarrow>
          (let write = vr_type (vops v ! r) = VIRTIO_BLK_T_OUT; blk = ucast (drop_bit 1 (vr_sector (vops v ! r))) in
           if notified w \<and> block_request v head write b s blk then upd_vdisk (completed head s) (transfer write b blk w) else w)
      | _ \<Rightarrow> w)"

lemma half_sector: "ucast (drop_bit (Suc 0) (2 * ucast (blk :: 32 word) :: 64 word)) = blk"
proof (rule bit_word_eqI)
  fix n assume "n < LENGTH(32)"
  moreover have "2 * ucast blk = push_bit (Suc 0) (ucast blk :: 64 word)" by (simp add: push_bit_eq_mult mult.commute)
  ultimately show "bit (ucast (drop_bit (Suc 0) (2 * ucast blk :: 64 word)) :: 32 word) n = bit blk n"
    by (simp add: bit_simps)
qed

lemma ideal_disk_ok: "virtio_device ideal_disk"
  unfolding virtio_device_def
proof (intro allI impI)
  fix w "write" b s blk assume n: "notified w" and q: "block_request (vdisk w) (next_head (vdisk w)) write b s blk"
  have "VIRTIO_BLK_T_IN \<noteq> VIRTIO_BLK_T_OUT" by (simp add: layout)
  then show "ideal_disk w = upd_vdisk (completed (next_head (vdisk w)) s) (transfer write b blk w)"
    using n q q [unfolded block_request_def Let_def] by (auto simp: ideal_disk_def Let_def half_sector)
qed

lemma resume_disk_turn:
  assumes "turn dv (w\<lparr>others := []\<rparr>) = Ok () w'"
  shows "resume (disk_turn dv) w = w'\<lparr>others := others w\<rparr>"
proof -
  have "kstate.extend (kstate.truncate w) (world.fields []) = w\<lparr>others := []\<rparr>"
    by (cases w) (simp add: kstate.defs world.defs)
  moreover have "kstate.extend (kstate.truncate w') (world.fields os) = w'\<lparr>others := os\<rparr>" for os
    by (cases w') (simp add: kstate.defs world.defs)
  ultimately show ?thesis using assms by (simp add: resume_def disk_turn_def)
qed

section \<open>An idle driver\<close>

definition vdisk_idle :: "vdisk \<Rightarrow> bool" where
  "vdisk_idle v \<longleftrightarrow> vfree v = replicate NUM True \<and> length (desc v) = NUM \<and> length (avail_ring v) = NUM
     \<and> length (used_ring v) = NUM \<and> length (info_b v) = NUM \<and> length (info_status v) = NUM
     \<and> length (vops v) = NUM \<and> used_idx v = used_idx_dev v \<and> vseen v = avail_idx v"

lemma NUM_upt: "[0..<NUM] = [0, 1, 2, 3, 4, 5, 6, 7]"
  by (simp add: NUM_def upt_rec)

lemma NUM_rep: "replicate NUM x = [x, x, x, x, x, x, x, x]"
  by (simp add: NUM_def numeral_eq_Suc)

lemma alloc3_idle:
  assumes "vdisk_idle (vdisk w)"
  shows "alloc3_desc w = Ok (Some [0, 1, 2])
     (upd_vdisk (\<lambda>v. v\<lparr>vfree := [False, False, False, True, True, True, True, True]\<rparr>) w)"
  using assms
  by (simp add: alloc3_desc_def alloc_desc_def numeral_3_eq_3 NUM_upt NUM_rep run_simps vdisk_idle_def
      upd_vdisk_def)

definition chained :: "nat \<Rightarrow> bool \<Rightarrow> 64 word \<Rightarrow> vdisk \<Rightarrow> vdisk" where
  \<comment> \<open>the driver's data after \<open>put_chain\<close> with descriptors 0, 1, 2\<close>
  "chained b write sector v = v\<lparr>
     vops := (vops v)[0 := \<lparr>vr_type = if write then VIRTIO_BLK_T_OUT else VIRTIO_BLK_T_IN, vr_reserved = 0, vr_sector = sector\<rparr>],
     desc := (desc v)[0 := \<lparr>vd_addr = Vop 0, vd_len = 16, vd_flags = VRING_DESC_F_NEXT, vd_next = 1\<rparr>,
       1 := \<lparr>vd_addr = Vdata b, vd_len = of_nat BSIZE, vd_flags = (if write then 0 else VRING_DESC_F_WRITE) OR VRING_DESC_F_NEXT, vd_next = 2\<rparr>,
       2 := \<lparr>vd_addr = Vstatus 0, vd_len = 1, vd_flags = VRING_DESC_F_WRITE, vd_next = 0\<rparr>],
     info_status := (info_status v)[0 := 0xff],
     info_b := (info_b v)[0 := Some b],
     avail_ring := (avail_ring v)[unat (avail_idx v) mod NUM := 0],
     avail_idx := avail_idx v + 1, vkick := avail_idx v + 1\<rparr>"

lemma chained_sel:
  "desc (chained b write sector v) = (desc v)[
     0 := \<lparr>vd_addr = Vop 0, vd_len = 16, vd_flags = VRING_DESC_F_NEXT, vd_next = 1\<rparr>,
     1 := \<lparr>vd_addr = Vdata b, vd_len = of_nat BSIZE, vd_flags = (if write then 0 else VRING_DESC_F_WRITE) OR VRING_DESC_F_NEXT, vd_next = 2\<rparr>,
     2 := \<lparr>vd_addr = Vstatus 0, vd_len = 1, vd_flags = VRING_DESC_F_WRITE, vd_next = 0\<rparr>]"
  "vops (chained b write sector v) = (vops v)[0 := \<lparr>vr_type = if write then VIRTIO_BLK_T_OUT
     else VIRTIO_BLK_T_IN, vr_reserved = 0, vr_sector = sector\<rparr>]"
  "vseen (chained b write sector v) = vseen v"
  "avail_idx (chained b write sector v) = avail_idx v + 1" "vkick (chained b write sector v) = avail_idx v + 1"
  by (simp_all add: chained_def)

lemma put_chain_run:
  "put_chain b write sector 0 1 2 w = Ok () (w\<lparr>
     bufs := (bufs w)[b := (bufs w ! b)\<lparr>b_disk := True\<rparr>],
     dev_out := dev_out w @ [(VIRTIO0 + VIRTIO_MMIO_QUEUE_NOTIFY, 0)],
     vdisk := chained b write sector (vdisk w)\<rparr>)"
  by (simp add: put_chain_def set_desc_def vdisk_w_def mmio_w_def upd_vdisk_def upd_defs chained_def layout)

section \<open>One turn\<close>

definition no_proc :: "world \<Rightarrow> world" where
  \<comment> \<open>the hart is in its scheduler\<close>
  "no_proc w = upd_cpu (\<lambda>c. c\<lparr>c_proc := None\<rparr>) w"

lemma cpu_orders:
  "c_proc_update g (noff_update f c) = noff_update f (c_proc_update g c)"
  "c_proc_update g (intena_update h c) = intena_update h (c_proc_update g c)"
  "cpus_update k (locks_update l w) = locks_update l (cpus_update k w)"
  by simp_all

lemma no_proc_hold:
  "hart w < length (cpus w) \<Longrightarrow> upd_cpu (\<lambda>c. c\<lparr>c_proc := None\<rparr>) (hold lk w) = hold lk (no_proc w)"
  "hart w < length (cpus w) \<Longrightarrow> upd_cpu (\<lambda>c. c\<lparr>c_proc := Some p\<rparr>) (hold lk w) = hold lk (upd_cpu (\<lambda>c. c\<lparr>c_proc := Some p\<rparr>) w)"
  by (simp_all add: no_proc_def hold_def upd_cpu_def sie_def cpu_orders)

lemma no_proc_facts:
  assumes "kctx p w"
  shows "calm (no_proc w)" "free_lock lk (no_proc w)" "c_proc (cpus (no_proc w) ! hart w) = None"
    "hart (no_proc w) = hart w"
proof -
  have "calm w" "free_lock lk w" using assms by simp_all
  then show "calm (no_proc w)" "free_lock lk (no_proc w)" "c_proc (cpus (no_proc w) ! hart w) = None"
    "hart (no_proc w) = hart w"
    by (auto simp: no_proc_def upd_cpu_def calm_def sie_def free_lock_def)
qed

definition ready :: "vdisk \<Rightarrow> bool" where
  \<comment> \<open>nothing in flight\<close>
  "ready v \<longleftrightarrow> length (desc v) = NUM \<and> length (avail_ring v) = NUM
     \<and> length (used_ring v) = NUM \<and> length (info_b v) = NUM \<and> length (info_status v) = NUM
     \<and> length (vops v) = NUM \<and> used_idx v = used_idx_dev v \<and> vseen v = avail_idx v"

lemma mod_NUM: "unat x mod NUM < NUM"
  by (simp add: NUM_def)

lemma device_chained:
  assumes "virtio_device dv" "ready v" "vdisk w = chained b write (2 * ucast blk) v"
    and "dev_out w = out @ [(VIRTIO0 + VIRTIO_MMIO_QUEUE_NOTIFY, 0)]"
  shows "dv w = upd_vdisk (completed 0 0) (transfer write b blk w)"
proof -
  let ?v = "chained b write (2 * ucast blk) v"
  have l: "0 < NUM" "1 < NUM" "2 < NUM" "Suc 0 < NUM" by (simp_all add: NUM_def)
  have d: "length (desc v) = NUM" "length (vops v) = NUM" "vseen v = avail_idx v"
    using assms(2) by (simp_all add: ready_def)
  have h: "next_head ?v = 0" using assms(2) by (simp add: next_head_def ready_def chained_def mod_NUM)
  have n: "notified w" using d(3) by (simp add: notified_def assms(3,4) chained_sel)
  have D: "desc ?v ! 0 = \<lparr>vd_addr = Vop 0, vd_len = 16, vd_flags = VRING_DESC_F_NEXT, vd_next = 1\<rparr>"
    "desc ?v ! 1 = \<lparr>vd_addr = Vdata b, vd_len = of_nat BSIZE, vd_flags = (if write then 0 else VRING_DESC_F_WRITE) OR VRING_DESC_F_NEXT, vd_next = 2\<rparr>"
    "desc ?v ! 2 = \<lparr>vd_addr = Vstatus 0, vd_len = 1, vd_flags = VRING_DESC_F_WRITE, vd_next = 0\<rparr>"
    "vops ?v ! 0 = \<lparr>vr_type = if write then VIRTIO_BLK_T_OUT else VIRTIO_BLK_T_IN, vr_reserved = 0, vr_sector = 2 * ucast blk\<rparr>"
    using l d(1,2) by (simp_all only: chained_sel) (simp_all add: nth_list_update)
  have u: "unat (1 :: 16 word) = 1" "unat (2 :: 16 word) = 2" by simp_all
  have "block_request ?v 0 write b 0 blk"
    unfolding block_request_def Let_def D virtq_desc.select_convs u
    using l D(4) by (auto simp: BSIZE_def or.commute)
  then show ?thesis using assms(1) n h unfolding virtio_device_def assms(3) [symmetric] by metis
qed

lemma intr_done:
  assumes "calm w" "\<And>lk. free_lock lk w" "length (procs w) = NPROC" "c_proc (this_cpu w) = None"
    and "ready v" "vdisk w = completed 0 0 (chained b write sector v)"
  shows "virtio_disk_intr w = Ok () (w\<lparr>
     procs := wake (Chan_buf b) None (procs w),
     bufs := (bufs w)[b := (bufs w ! b)\<lparr>b_disk := False\<rparr>],
     dev_out := dev_out w @ [(VIRTIO0 + VIRTIO_MMIO_INTERRUPT_ACK, dev_in w (VIRTIO0 + VIRTIO_MMIO_INTERRUPT_STATUS) AND 3)],
     vdisk := (vdisk w)\<lparr>used_idx := used_idx (vdisk w) + 1\<rparr>\<rparr>)"
proof -
  have n: "used_idx_dev (vdisk w) = used_idx (vdisk w) + 1" "used_idx (vdisk w) \<noteq> used_idx (vdisk w) + 1"
    using assms(5) by (simp_all add: assms(6) completed_def chained_def ready_def)
  define k :: nat where "k = 65534"
  have t: "2 ^ 16 = Suc (Suc k)" by (simp add: k_def)
  have id: "used_ring (vdisk w) ! (unat (used_idx (vdisk w)) mod NUM) = 0"
    "info_status (vdisk w) ! 0 = 0" "info_b (vdisk w) ! 0 = Some b" "0 < NUM"
    using assms(5) mod_NUM by (simp_all add: assms(6) completed_def chained_def ready_def NUM_def)
  have ne: "VIRTIO_MMIO_INTERRUPT_ACK \<noteq> VIRTIO_MMIO_QUEUE_NOTIFY"
    by (simp add: VIRTIO_MMIO_QUEUE_NOTIFY_def VIRTIO_MMIO_INTERRUPT_ACK_def)
  show ?thesis using assms(1-4) n id ne unfolding virtio_disk_intr_def t
    by (simp add: vdisk_r_def vdisk_w_def mmio_r_def mmio_w_def run_simps upd_defs upd_vdisk_def)
qed

definition served :: "nat \<Rightarrow> nat \<Rightarrow> bool \<Rightarrow> 32 word \<Rightarrow> world \<Rightarrow> world" where
  \<comment> \<open>what the turn makes of the state in which process \<open>p\<close> waits for its request\<close>
  "served p b write blk w = (let t = transfer write b blk w; ps = wake (Chan_buf b) None (procs w) in
     t\<lparr>procs := ps[p := (ps ! p)\<lparr>p_state := RUNNING\<rparr>],
       bufs := (bufs t)[b := (bufs t ! b)\<lparr>b_disk := False\<rparr>],
       dev_out := dev_out w @ [(VIRTIO0 + VIRTIO_MMIO_INTERRUPT_ACK, dev_in w (VIRTIO0 + VIRTIO_MMIO_INTERRUPT_STATUS) AND 3)],
       vdisk := (completed 0 0 (vdisk w))\<lparr>used_idx := used_idx (vdisk w) + 1\<rparr>\<rparr>)"

lemma transfer_sel [simp]:
  "procs (transfer write b blk w) = procs w" "dev_out (transfer write b blk w) = dev_out w"
  "dev_in (transfer write b blk w) = dev_in w" "vdisk (transfer write b blk w) = vdisk w"
  "cpus (transfer write b blk w) = cpus w" "hart (transfer write b blk w) = hart w"
  "calm (transfer write b blk w) = calm w" "free_lock lk (transfer write b blk w) = free_lock lk w"
  "kctx p (transfer write b blk w) = kctx p w" "others (transfer write b blk w) = others w"
  by (simp_all add: transfer_def)

lemma transfer_no_proc: "transfer write b blk (no_proc w) = no_proc (transfer write b blk w)"
  by (simp add: transfer_def no_proc_def upd_cpu_def)

lemma no_proc_sel [simp]:
  "procs (no_proc w) = procs w" "dev_out (no_proc w) = dev_out w" "dev_in (no_proc w) = dev_in w"
  "vdisk (no_proc w) = vdisk w" "bufs (no_proc w) = bufs w" "hart (no_proc w) = hart w"
  by (simp_all add: no_proc_def upd_cpu_def)

lemma turn_run:
  assumes "kctx p w" "ready v" "vdisk w = chained b write (2 * ucast blk) v"
    and "virtio_device dv" "dev_out w = out @ [(VIRTIO0 + VIRTIO_MMIO_QUEUE_NOTIFY, 0)]"
  shows "turn dv (hold (Proc_lock p) w) = Ok () (hold (Proc_lock p) (served p b write blk w))"
proof -
  let ?t = "transfer write b blk w"
  let ?d = "upd_vdisk (completed 0 0) (no_proc ?t)"
  have "calm w" using assms(1) by simp
  then have h: "hart w < length (cpus w)" by (simp add: calm_def)
  note np = no_proc_facts [of p ?t] and np0 = no_proc_facts [OF assms(1)]
  have d: "dv (no_proc w) = ?d"
    using device_chained [OF assms(4,2), of "no_proc w" b "write" blk out] assms(3,5) by (simp add: transfer_no_proc)
  have i: "virtio_disk_intr ?d = Ok () (?d\<lparr>
     procs := wake (Chan_buf b) None (procs w),
     bufs := (bufs ?t)[b := (bufs ?t ! b)\<lparr>b_disk := False\<rparr>],
     dev_out := dev_out w @ [(VIRTIO0 + VIRTIO_MMIO_INTERRUPT_ACK, dev_in w (VIRTIO0 + VIRTIO_MMIO_INTERRUPT_STATUS) AND 3)],
     vdisk := (completed 0 0 (vdisk w))\<lparr>used_idx := used_idx (vdisk w) + 1\<rparr>\<rparr>)"
    using intr_done [of ?d v b "write" "2 * ucast blk"] assms np
    by (simp add: upd_vdisk_def completed_def)
  let ?e = "?d\<lparr>
     procs := wake (Chan_buf b) None (procs w),
     bufs := (bufs ?t)[b := (bufs ?t ! b)\<lparr>b_disk := False\<rparr>],
     dev_out := dev_out w @ [(VIRTIO0 + VIRTIO_MMIO_INTERRUPT_ACK, dev_in w (VIRTIO0 + VIRTIO_MMIO_INTERRUPT_STATUS) AND 3)],
     vdisk := (completed 0 0 (vdisk w))\<lparr>used_idx := used_idx (vdisk w) + 1\<rparr>\<rparr>"
  have e: "calm ?e" "free_lock (Proc_lock p) ?e" "hart ?e = hart w" "cpus ?e = cpus (no_proc w)"
    using np assms(1) by (simp_all add: upd_vdisk_def no_proc_def upd_cpu_def)
  have h2: "hart w < length (cpus (no_proc w))" using h by (simp add: no_proc_def upd_cpu_def)
  have "p < length (procs w)" using assms(1) by simp
  then have "upd_cpu (\<lambda>c. c\<lparr>c_proc := Some p\<rparr>) (upd_proc p (\<lambda>q. q\<lparr>p_state := RUNNING\<rparr>) ?e) = served p b write blk w"
    using h assms(1) e(4)
    by (simp add: served_def Let_def upd_defs upd_vdisk_def no_proc_def)
  then show ?thesis
    using assms(1) h h2 e np0
    by (simp add: turn_def no_proc_hold run_simps d i upd_proc_def)
qed

lemma set_intr_same:
  assumes "calm w" "noff (this_cpu w) = 0"
  shows "set_intr (sie w) w = w"
proof -
  have "intena (this_cpu w) = sie w" "hart w < length (cpus w)" using assms by (simp_all add: calm_def)
  then have "(this_cpu w)\<lparr>intena := sie w\<rparr> = this_cpu w" by simp
  moreover have "sie w \<Longrightarrow> csrs w Sstatus OR SSTATUS_SIE = csrs w Sstatus"
    using SIE_restored [of "csrs w Sstatus"] by (simp add: sie_def) (metis or.assoc or.idem)
  moreover have "\<not> sie w \<Longrightarrow> csrs w Sstatus AND NOT SSTATUS_SIE = csrs w Sstatus"
    by (simp add: sie_def SIE_already_clear)
  ultimately show ?thesis by (simp add: set_intr_def)
qed

lemma served_sel [simp]:
  "kctx p w \<Longrightarrow> kctx p (served p b write blk w)"
  "csrs (served p b write blk w) = csrs w" "cpus (served p b write blk w) = cpus w"
  "hart (served p b write blk w) = hart w" "others (served p b write blk w) = others w"
  "vdisk (served p b write blk w) = (completed 0 0 (vdisk w))\<lparr>used_idx := used_idx (vdisk w) + 1\<rparr>"
  by (simp_all add: served_def Let_def transfer_def)

lemma served_others: "served p b write blk (w\<lparr>others := os\<rparr>) = (served p b write blk w)\<lparr>others := os\<rparr>"
  by (simp add: served_def Let_def transfer_def)

lemma resume_turn:
  assumes "kctx p w" "ready v" "vdisk w = chained b write (2 * ucast blk) v"
    and "virtio_device dv" "dev_out w = out @ [(VIRTIO0 + VIRTIO_MMIO_QUEUE_NOTIFY, 0)]"
  shows "resume (disk_turn dv) (hold (Proc_lock p) w) = hold (Proc_lock p) (served p b write blk w)"
proof -
  have t: "turn dv ((hold (Proc_lock p) w)\<lparr>others := []\<rparr>) = Ok () ((hold (Proc_lock p) (served p b write blk w))\<lparr>others := []\<rparr>)"
    using turn_run [of p "w\<lparr>others := []\<rparr>" v b "write" blk dv out] assms by (simp add: served_others)
  have eq: "(served p b write blk w)\<lparr>others := others w\<rparr> = served p b write blk w"
    by (rule world.equality) simp_all
  have "resume (disk_turn dv) (hold (Proc_lock p) w) = hold (Proc_lock p) ((served p b write blk w)\<lparr>others := others w\<rparr>)"
    using resume_disk_turn [OF t] by simp
  then show ?thesis by (simp only: eq)
qed

definition waiting :: "nat \<Rightarrow> nat \<Rightarrow> world \<Rightarrow> world" where
  \<comment> \<open>process \<open>p\<close> asleep on buffer \<open>b\<close>\<close>
  "waiting p b w = upd_proc p (\<lambda>q. q\<lparr>p_chan := Some (Chan_buf b), p_state := SLEEPING\<rparr>) w"

lemma waiting_sel [simp]:
  "vdisk (waiting p b w) = vdisk w" "kctx q (waiting p b w) = kctx q w"
  "csrs (waiting p b w) = csrs w" "cpus (waiting p b w) = cpus w" "hart (waiting p b w) = hart w"
  "bufs (waiting p b w) = bufs w" "others (waiting p b w) = others w"
  "ddisk (waiting p b w) = ddisk w" "dev_out (waiting p b w) = dev_out w" "dwrites (waiting p b w) = dwrites w"
  by (simp_all add: waiting_def upd_proc_def)

lemma wait_for_disk:
  assumes "kctx p w" "ready v" "vdisk w = chained b write (2 * ucast blk) v" "b_disk (bufs w ! b)" "b < length (bufs w)"
    and "others w = disk_turn dv # fs" "virtio_device dv" "dev_out w = out @ [(VIRTIO0 + VIRTIO_MMIO_QUEUE_NOTIFY, 0)]"
  shows "sleep_while (\<lambda>w. b_disk (bufs w ! b)) (Chan_buf b) Vdisk_lock (hold Vdisk_lock w) =
     Ok () (hold Vdisk_lock (upd_proc p (\<lambda>q. q\<lparr>p_chan := None\<rparr>)
       (served p b write blk (waiting p b (w\<lparr>others := fs\<rparr>)))))"
proof -
  let ?a = "waiting p b (w\<lparr>others := fs\<rparr>)" and ?w1 = "upd_proc p (\<lambda>q. q\<lparr>p_chan := Some (Chan_buf b), p_state := SLEEPING\<rparr>) w"
  let ?s = "served p b write blk ?a"
  have a: "kctx p ?a" "vdisk ?a = chained b write (2 * ucast blk) v" "dev_out ?a = out @ [(VIRTIO0 + VIRTIO_MMIO_QUEUE_NOTIFY, 0)]" using assms by simp_all
  have o: "?w1\<lparr>others := fs\<rparr> = ?a" by (simp add: waiting_def upd_proc_def)
  have k: "kctx p ?s" using a(1) by simp
  have "sie ?s = sie w" by (simp add: sie_def)
  then have i: "upd_cpu (\<lambda>c. c\<lparr>intena := sie w\<rparr>) (hold (Proc_lock p) ?s) = hold (Proc_lock p) ?s"
    using set_intr_hold [of ?s "sie ?s" "Proc_lock p"] set_intr_same [of ?s] kctxD(1,2) [OF k] by simp
  have b: "\<not> b_disk (bufs (upd_proc p (\<lambda>q. q\<lparr>p_chan := None\<rparr>) ?s) ! b)"
    using assms(5) by (simp add: served_def Let_def transfer_def upd_proc_def)
  have "sleep (Chan_buf b) Vdisk_lock (hold Vdisk_lock w) =
     Ok () (hold Vdisk_lock (upd_proc p (\<lambda>q. q\<lparr>p_chan := None\<rparr>) ?s))"
    using sleep_run [of w p Vdisk_lock "Chan_buf b"] assms(1,6) o resume_turn [OF a(1) assms(2) a(2) assms(7) a(3)] i
      kctxD(1,6) [OF k]
    by (simp add: Let_def run_simps upd_proc_def)
  then show ?thesis using assms(4) b by (simp add: sleep_while_unfold run_simps)
qed

section \<open>The driver's contract\<close>

definition strip :: "proc \<Rightarrow> proc" where
  "strip q = q\<lparr>p_state := UNUSED, p_chan := None\<rparr>"

definition sched_only :: "proc list \<Rightarrow> proc list \<Rightarrow> bool" where
  \<comment> \<open>the process table with at most the scheduling fields of its entries changed\<close>
  "sched_only ps ps' \<longleftrightarrow> map strip ps' = map strip ps"

lemma strip_upd [simp]: "strip (q\<lparr>p_state := st\<rparr>) = strip q" "strip (q\<lparr>p_chan := ch\<rparr>) = strip q"
  by (simp_all add: strip_def)

lemma strip_sel:
  "p_pid (strip q) = p_pid q" "p_cwd (strip q) = p_cwd q" "p_ofile (strip q) = p_ofile q"
  "p_pagetable (strip q) = p_pagetable q" "p_sz (strip q) = p_sz q" "p_trapframe (strip q) = p_trapframe q"
  "p_killed (strip q) = p_killed q" "p_parent (strip q) = p_parent q"
  by (simp_all add: strip_def)

lemma sched_only_refl [simp]: "sched_only ps ps"
  by (simp add: sched_only_def)

lemma sched_only_trans: "sched_only ps qs \<Longrightarrow> sched_only qs rs \<Longrightarrow> sched_only ps rs"
  by (simp add: sched_only_def)

lemma map_strip_upd: "strip q = strip (qs ! p) \<Longrightarrow> map strip (qs[p := q]) = map strip qs"
  by (cases "p < length qs") (simp_all add: map_update list_update_beyond)

lemma sched_only_upd:
  "sched_only ps qs \<Longrightarrow> sched_only ps (qs[p := (qs ! p)\<lparr>p_state := st\<rparr>])"
  "sched_only ps qs \<Longrightarrow> sched_only ps (qs[p := (qs ! p)\<lparr>p_chan := ch\<rparr>])"
  "sched_only ps qs \<Longrightarrow> sched_only ps (qs[p := (qs ! p)\<lparr>p_chan := ch, p_state := st\<rparr>])"
  by (simp_all add: sched_only_def map_strip_upd)

lemma sched_only_set: "sched_only ps qs \<Longrightarrow> strip x = strip (qs ! p) \<Longrightarrow> sched_only ps (qs[p := x])"
  by (simp add: sched_only_def map_strip_upd)

lemma sched_only_wake: "sched_only ps qs \<Longrightarrow> sched_only ps (wake ch me qs)"
proof -
  have "map strip (wake ch me qs) = map strip qs" by (rule nth_equalityI) (auto simp: wake_nth)
  then show "sched_only ps qs \<Longrightarrow> sched_only ps (wake ch me qs)" by (simp add: sched_only_def)
qed

lemmas sched_only_intros = sched_only_refl sched_only_set sched_only_upd sched_only_wake

lemma sched_only_sel:
  assumes "sched_only ps qs" "q < length ps"
  shows "p_pid (qs ! q) = p_pid (ps ! q)" "p_cwd (qs ! q) = p_cwd (ps ! q)" "p_ofile (qs ! q) = p_ofile (ps ! q)"
    "p_pagetable (qs ! q) = p_pagetable (ps ! q)" "p_sz (qs ! q) = p_sz (ps ! q)"
    "p_trapframe (qs ! q) = p_trapframe (ps ! q)" "p_killed (qs ! q) = p_killed (ps ! q)"
    "p_parent (qs ! q) = p_parent (ps ! q)" "length qs = length ps"
proof -
  have m: "map strip qs = map strip ps" using assms(1) by (simp only: sched_only_def)
  then have l: "length qs = length ps" by (rule map_eq_imp_length_eq)
  have "map strip qs ! q = map strip ps ! q" by (simp only: m)
  then have e: "strip (qs ! q) = strip (ps ! q)" using l assms(2) by simp
  show "p_pid (qs ! q) = p_pid (ps ! q)" "p_cwd (qs ! q) = p_cwd (ps ! q)" "p_ofile (qs ! q) = p_ofile (ps ! q)"
    "p_pagetable (qs ! q) = p_pagetable (ps ! q)" "p_sz (qs ! q) = p_sz (ps ! q)"
    "p_trapframe (qs ! q) = p_trapframe (ps ! q)" "p_killed (qs ! q) = p_killed (ps ! q)"
    "p_parent (qs ! q) = p_parent (ps ! q)" "length qs = length ps"
    using l arg_cong [OF e, of p_pid] arg_cong [OF e, of p_cwd] arg_cong [OF e, of p_ofile] arg_cong [OF e, of p_pagetable]
      arg_cong [OF e, of p_sz] arg_cong [OF e, of p_trapframe] arg_cong [OF e, of p_killed] arg_cong [OF e, of p_parent]
    by (simp_all add: strip_sel)
qed

lemma free_desc_run:
  assumes "kctx p w" "i < NUM" "\<not> vfree (vdisk w) ! i"
  shows "free_desc i (hold Vdisk_lock w) = Ok () (hold Vdisk_lock (w\<lparr>
     vdisk := (vdisk w)\<lparr>desc := (desc (vdisk w))[i := zero_desc], vfree := (vfree (vdisk w))[i := True]\<rparr>,
     procs := wake Chan_disk_free (Some p) (procs w)\<rparr>))"
  using assms by (simp add: free_desc_def set_desc_def run_simps upd_vdisk_def)

lemma free_chain_run:
  assumes "kctx p w" "length (desc (vdisk w)) = NUM" "vfree (vdisk w) = [False, False, False, True, True, True, True, True]"
    and "vd_flags (desc (vdisk w) ! 0) AND VRING_DESC_F_NEXT \<noteq> 0" "vd_next (desc (vdisk w) ! 0) = 1"
    and "vd_flags (desc (vdisk w) ! 1) AND VRING_DESC_F_NEXT \<noteq> 0" "vd_next (desc (vdisk w) ! 1) = 2"
    and "vd_flags (desc (vdisk w) ! 2) AND VRING_DESC_F_NEXT = 0"
  shows "free_chain 0 (hold Vdisk_lock w) = Ok () (hold Vdisk_lock (w\<lparr>
     vdisk := (vdisk w)\<lparr>desc := (desc (vdisk w))[0 := zero_desc, 1 := zero_desc, 2 := zero_desc], vfree := replicate NUM True\<rparr>,
     procs := wake Chan_disk_free (Some p) (wake Chan_disk_free (Some p) (wake Chan_disk_free (Some p) (procs w)))\<rparr>))"
proof -
  define n :: nat where "n = 6"
  have N: "Suc NUM = Suc (Suc (Suc n))" "(0::nat) < NUM" "1 < NUM" "2 < NUM" by (simp_all add: NUM_def n_def)
  show ?thesis using assms N(2-)
    by (simp add: free_chain_def N(1) run_simps free_desc_run NUM_rep)
qed

definition runs_on :: "(world \<Rightarrow> world) \<Rightarrow> 'a kernel \<Rightarrow> world \<Rightarrow> 'a \<Rightarrow> world \<Rightarrow> bool" where
  \<comment> \<open>given enough turns of the disk, \<open>m\<close> returns \<open>a\<close> and takes \<open>w\<close> to \<open>w'\<close>; \<open>others\<close> does not matter otherwise\<close>
  "runs_on dv m w a w' \<longleftrightarrow> (\<exists>k. \<forall>n. m (w\<lparr>others := replicate (k + n) (disk_turn dv)\<rparr>) =
     Ok a (w'\<lparr>others := replicate n (disk_turn dv)\<rparr>))"

definition runs :: "'a kernel \<Rightarrow> world \<Rightarrow> 'a \<Rightarrow> world \<Rightarrow> bool" where
  \<comment> \<open>with every device that keeps to the specification\<close>
  "runs m w a w' \<longleftrightarrow> (\<forall>dv. virtio_device dv \<longrightarrow> runs_on dv m w a w')"

lemma runs_on_bind:
  assumes "runs_on dv m w a w'" "runs_on dv (f a) w' b w''"
  shows "runs_on dv (bind m f) w b w''"
proof -
  obtain k where k: "\<And>n. m (w\<lparr>others := replicate (k + n) (disk_turn dv)\<rparr>) = Ok a (w'\<lparr>others := replicate n (disk_turn dv)\<rparr>)"
    using assms(1) by (auto simp: runs_on_def)
  obtain l where l: "\<And>n. f a (w'\<lparr>others := replicate (l + n) (disk_turn dv)\<rparr>) = Ok b (w''\<lparr>others := replicate n (disk_turn dv)\<rparr>)"
    using assms(2) by (auto simp: runs_on_def)
  have "bind m f (w\<lparr>others := replicate ((k + l) + n) (disk_turn dv)\<rparr>) = Ok b (w''\<lparr>others := replicate n (disk_turn dv)\<rparr>)" for n
    using k [of "l + n"] l [of n] by (simp add: bind_def add.assoc)
  then show ?thesis unfolding runs_on_def by blast
qed

lemma runs_bind: "runs m w a w' \<Longrightarrow> runs (f a) w' b w'' \<Longrightarrow> runs (bind m f) w b w''"
  by (auto simp: runs_def intro: runs_on_bind)

lemma runs_andthen: "runs m w a w' \<Longrightarrow> runs n w' b w'' \<Longrightarrow> runs (andthen m n) w b w''"
  unfolding andthen_def by (rule runs_bind)

lemma runs_eqI:
  \<comment> \<open>a routine that does not sleep\<close>
  assumes "\<And>os. m (w\<lparr>others := os\<rparr>) = Ok a (w'\<lparr>others := os\<rparr>)"
  shows "runs m w a w'"
  unfolding runs_def runs_on_def using assms by (intro allI impI exI [of _ 0]) simp

lemma runs_ret: "runs (ret a) w a w"
  by (rule runs_eqI) simp

lemma runs_gets: "(\<And>os. f (w\<lparr>others := os\<rparr>) = f w) \<Longrightarrow> runs (gets f) w (f w) w"
  by (rule runs_eqI) simp

lemma runs_modify: "(\<And>os. f (w\<lparr>others := os\<rparr>) = (f w)\<lparr>others := os\<rparr>) \<Longrightarrow> runs (modify f) w () (f w)"
  by (rule runs_eqI) simp

lemma runs_bind_gets:
  assumes "\<And>os. f (w\<lparr>others := os\<rparr>) = f w" "runs (g (f w)) w b w'"
  shows "runs (bind (gets f) g) w b w'"
  by (rule runs_bind [of "gets f" w "f w" w g]) (use assms in \<open>auto intro: runs_gets\<close>)

lemma runs_andthen_modify:
  assumes "\<And>os. f (w\<lparr>others := os\<rparr>) = (f w)\<lparr>others := os\<rparr>" "runs n (f w) b w'"
  shows "runs (andthen (modify f) n) w b w'"
  by (rule runs_andthen [of "modify f" w "()" "f w" n]) (use assms in \<open>auto intro: runs_modify\<close>)

lemma sector_of_block: "unat b < 2 ^ 31 \<Longrightarrow> ucast (b * 2 :: 32 word) = (2 * ucast b :: 64 word)"
proof -
  assume b: "unat b < 2 ^ 31"
  then have "unat (b * 2) = 2 * unat b" by (simp add: unat_word_ariths)
  moreover have "unat (2 * ucast b :: 64 word) = 2 * unat b" using b by (simp add: unat_word_ariths unat_ucast_up)
  ultimately show ?thesis by (simp add: word_unat_eq_iff unat_ucast_up)
qed

definition rw_vdisk :: "nat \<Rightarrow> bool \<Rightarrow> 64 word \<Rightarrow> vdisk \<Rightarrow> vdisk" where
  \<comment> \<open>the driver's data when the request has been completed and its descriptors are free again\<close>
  "rw_vdisk b write sector v =
     (let c = chained b write sector (v\<lparr>vfree := [False, False, False, True, True, True, True, True]\<rparr>);
          u = (completed 0 0 c)\<lparr>used_idx := used_idx v + 1, info_b := (info_b v)[0 := None]\<rparr> in
      u\<lparr>desc := (desc u)[0 := zero_desc, 1 := zero_desc, 2 := zero_desc], vfree := replicate NUM True\<rparr>)"

definition rw_procs :: "nat \<Rightarrow> nat \<Rightarrow> proc list \<Rightarrow> proc list" where
  "rw_procs p b ps =
     (let free = wake Chan_disk_free (Some p);
          slept = wake (Chan_buf b) None (ps[p := (ps ! p)\<lparr>p_chan := Some (Chan_buf b), p_state := SLEEPING\<rparr>]) in
      free (free (free (slept[p := (slept ! p)\<lparr>p_state := RUNNING, p_chan := None\<rparr>]))))"

definition rw_done :: "nat \<Rightarrow> nat \<Rightarrow> bool \<Rightarrow> world \<Rightarrow> world" where
  \<comment> \<open>the state after \<open>virtio_disk_rw\<close> called by process \<open>p\<close>\<close>
  "rw_done p b write w = (transfer write b (b_blockno (bufs w ! b)) w)\<lparr>
     dev_out := (dev_out w @ [(VIRTIO0 + VIRTIO_MMIO_QUEUE_NOTIFY, 0)]) @
       [(VIRTIO0 + VIRTIO_MMIO_INTERRUPT_ACK, dev_in w (VIRTIO0 + VIRTIO_MMIO_INTERRUPT_STATUS) AND 3)],
     vdisk := rw_vdisk b write (ucast (b_blockno (bufs w ! b) * 2)) (vdisk w),
     procs := rw_procs p b (procs w)\<rparr>"

lemma rw_done_idle: "vdisk_idle v \<Longrightarrow> vdisk_idle (rw_vdisk b write sector v)"
  by (simp add: rw_vdisk_def vdisk_idle_def completed_def chained_def Let_def)

lemma rw_done_procs: "sched_only ps (rw_procs p b ps)"
proof -
  let ?slept = "wake (Chan_buf b) None (ps[p := (ps ! p)\<lparr>p_chan := Some (Chan_buf b), p_state := SLEEPING\<rparr>])"
  have "sched_only ps ?slept" by (intro sched_only_wake sched_only_upd sched_only_refl)
  then have "sched_only ps (?slept[p := (?slept ! p)\<lparr>p_state := RUNNING, p_chan := None\<rparr>])"
    by (rule sched_only_set) simp
  then show ?thesis unfolding rw_procs_def Let_def by (intro sched_only_wake)
qed

lemma virtio_steps:
  assumes "kctx p w" "alloc3_desc (hold Vdisk_lock w) = Ok (Some [0, 1, 2]) w1"
    and "put_chain b write (ucast (b_blockno (bufs w ! b) * 2)) 0 1 2 w1 = Ok () w2"
    and "sleep_while (\<lambda>w. b_disk (bufs w ! b)) (Chan_buf b) Vdisk_lock w2 = Ok () (hold Vdisk_lock w3)"
    and "free_chain 0 (hold Vdisk_lock (upd_vdisk (\<lambda>v. v\<lparr>info_b := (info_b v)[0 := None]\<rparr>) w3)) = Ok () (hold Vdisk_lock w4)"
    and "kctx p w4"
  shows "virtio_disk_rw b write w = Ok () w4"
  using assms by (simp add: virtio_disk_rw_def run_simps loop_def upd_vdisk_def BSIZE_def)

lemma served_frame:
  assumes "\<not> b_disk (bufs w ! b)" "b < length (bufs w)"
  shows "(upd_proc p f (served p b write blk (waiting p b (w\<lparr>bufs := (bufs w)[b := (bufs w ! b)\<lparr>b_disk := True\<rparr>],
       dev_out := out, vdisk := v1, others := os\<rparr>))))\<lparr>vdisk := v, procs := ps\<rparr> =
     (transfer write b blk w)\<lparr>dev_out := out @ [(VIRTIO0 + VIRTIO_MMIO_INTERRUPT_ACK,
       dev_in w (VIRTIO0 + VIRTIO_MMIO_INTERRUPT_STATUS) AND 3)], vdisk := v, procs := ps, others := os\<rparr>"
proof -
  have "(bufs w ! b)\<lparr>b_disk := False\<rparr> = bufs w ! b" "(bufs w ! b)\<lparr>b_data := x, b_disk := False\<rparr> = (bufs w ! b)\<lparr>b_data := x\<rparr>" for x
    using assms(1) by (cases "bufs w ! b", simp)+
  then show ?thesis using assms(2)
    by (cases "write") (simp_all add: served_def Let_def waiting_def upd_proc_def transfer_def)
qed

lemma virtio_disk_rw_run:
  assumes k: "kctx p w" and i: "vdisk_idle (vdisk w)" and b: "b < length (bufs w)" "unat (b_blockno (bufs w ! b)) < 2 ^ 31"
    and d: "\<not> b_disk (bufs w ! b)" and o: "others w = disk_turn dv # os" and dv: "virtio_device dv"
  shows "virtio_disk_rw b write w = Ok () ((rw_done p b write w)\<lparr>others := os\<rparr>)"
proof -
  let ?bn = "b_blockno (bufs w ! b)" and ?v1 = "(vdisk w)\<lparr>vfree := [False, False, False, True, True, True, True, True]\<rparr>"
  let ?sec = "ucast (?bn * 2) :: 64 word"
  let ?w1 = "w\<lparr>bufs := (bufs w)[b := (bufs w ! b)\<lparr>b_disk := True\<rparr>],
     dev_out := dev_out w @ [(VIRTIO0 + VIRTIO_MMIO_QUEUE_NOTIFY, 0)], vdisk := chained b write ?sec ?v1\<rparr>"
  let ?w2 = "upd_proc p (\<lambda>q. q\<lparr>p_chan := None\<rparr>) (served p b write ?bn (waiting p b (?w1\<lparr>others := os\<rparr>)))"
  have r: "ready ?v1" using i by (simp add: vdisk_idle_def ready_def)
  have a: "alloc3_desc (hold Vdisk_lock w) = Ok (Some [0, 1, 2]) (hold Vdisk_lock (w\<lparr>vdisk := ?v1\<rparr>))"
    using alloc3_idle [of "hold Vdisk_lock w"] i by (simp add: upd_vdisk_def)
  have c: "put_chain b write ?sec 0 1 2 (hold Vdisk_lock (w\<lparr>vdisk := ?v1\<rparr>)) = Ok () (hold Vdisk_lock ?w1)"
    using put_chain_run [of b "write" ?sec "hold Vdisk_lock (w\<lparr>vdisk := ?v1\<rparr>)"] by simp
  have sw: "sleep_while (\<lambda>w. b_disk (bufs w ! b)) (Chan_buf b) Vdisk_lock (hold Vdisk_lock ?w1) = Ok () (hold Vdisk_lock ?w2)"
    using wait_for_disk [of p ?w1 ?v1 b "write" ?bn dv os "dev_out w"] k r b o dv sector_of_block [OF b(2)] by simp
  let ?v2 = "(completed 0 0 (chained b write ?sec ?v1))\<lparr>used_idx := used_idx (vdisk w) + 1, info_b := (info_b (vdisk w))[0 := None]\<rparr>"
  let ?w3 = "?w2\<lparr>vdisk := ?v2\<rparr>"
  have v2: "length (desc ?v2) = NUM" "vfree ?v2 = [False, False, False, True, True, True, True, True]"
    "vd_flags (desc ?v2 ! 0) AND VRING_DESC_F_NEXT \<noteq> 0" "vd_next (desc ?v2 ! 0) = 1"
    "vd_flags (desc ?v2 ! 1) AND VRING_DESC_F_NEXT \<noteq> 0" "vd_next (desc ?v2 ! 1) = 2"
    "vd_flags (desc ?v2 ! 2) AND VRING_DESC_F_NEXT = 0"
    using r by (simp_all add: completed_def chained_sel ready_def nth_list_update NUM_def VRING_DESC_F_NEXT_def VRING_DESC_F_WRITE_def)
      (simp_all add: chained_def)
  have k3: "kctx p ?w3" using k by (simp add: upd_proc_def)
  let ?ps = "wake Chan_disk_free (Some p) (wake Chan_disk_free (Some p) (wake Chan_disk_free (Some p) (procs ?w3)))"
  let ?v4 = "?v2\<lparr>desc := (desc ?v2)[0 := zero_desc, 1 := zero_desc, 2 := zero_desc], vfree := replicate NUM True\<rparr>"
  let ?w4 = "?w3\<lparr>vdisk := ?v4, procs := ?ps\<rparr>"
  have fc: "free_chain 0 (hold Vdisk_lock ?w3) = Ok () (hold Vdisk_lock ?w4)"
    using free_chain_run [OF k3] v2 by simp
  have "upd_vdisk (\<lambda>v. v\<lparr>info_b := (info_b v)[0 := None]\<rparr>) ?w2 = ?w3"
    by (simp add: upd_vdisk_def upd_proc_def completed_def chained_def)
  with fc have fc2: "free_chain 0 (hold Vdisk_lock (upd_vdisk (\<lambda>v. v\<lparr>info_b := (info_b v)[0 := None]\<rparr>) ?w2)) = Ok () (hold Vdisk_lock ?w4)"
    by (simp only:)
  have "kctx p ?w4" using k by (simp add: upd_proc_def)
  then have run: "virtio_disk_rw b write w = Ok () ?w4"
    by (rule virtio_steps [OF k a c sw fc2])
  have e: "?w4 = (transfer write b ?bn w)\<lparr>dev_out := (dev_out w @ [(VIRTIO0 + VIRTIO_MMIO_QUEUE_NOTIFY, 0)]) @
     [(VIRTIO0 + VIRTIO_MMIO_INTERRUPT_ACK, dev_in w (VIRTIO0 + VIRTIO_MMIO_INTERRUPT_STATUS) AND 3)],
     vdisk := ?v4, procs := ?ps, others := os\<rparr>"
    using served_frame [OF d b(1)] by simp
  have v: "?v4 = rw_vdisk b write ?sec (vdisk w)" by (simp only: rw_vdisk_def Let_def)
  have "p < length (procs w)" using k by simp
  then have q: "?ps = rw_procs p b (procs w)"
    by (simp add: rw_procs_def served_def Let_def waiting_def upd_proc_def)
  show ?thesis
    by (rule trans [OF trans [OF run arg_cong [OF e, of "Ok ()"]]]) (simp only: rw_done_def v q)
qed

lemma runs_virtio:
  assumes "kctx p w" "vdisk_idle (vdisk w)" "b < length (bufs w)" "unat (b_blockno (bufs w ! b)) < 2 ^ 31"
    and "\<not> b_disk (bufs w ! b)"
  shows "runs (virtio_disk_rw b write) w () (rw_done p b write w)"
  unfolding runs_def
proof (intro allI impI)
  fix dv assume dv: "virtio_device dv"
  have "virtio_disk_rw b write (w\<lparr>others := replicate (Suc 0 + n) (disk_turn dv)\<rparr>) =
     Ok () ((rw_done p b write w)\<lparr>others := replicate n (disk_turn dv)\<rparr>)" for n
    using virtio_disk_rw_run [of p "w\<lparr>others := replicate (Suc 0 + n) (disk_turn dv)\<rparr>" b dv "replicate n (disk_turn dv)" "write"] assms dv
    by (simp add: rw_done_def transfer_def)
  then show "runs_on dv (virtio_disk_rw b write) w () (rw_done p b write w)" unfolding runs_on_def by blast
qed

definition booted :: "(kstate \<Rightarrow> kstate) list \<Rightarrow> world" where
  \<comment> \<open>the state of \<open>one_running\<close> with the disk and the ring of buffers initialised, for witnesses\<close>
  "booted fs = (one_running fs)\<lparr>bufs := map (\<lambda>i. zero_buf\<lparr>b_prev := if i = NBUF then 0 else Suc i,
       b_next := if i = 0 then NBUF else i - 1\<rparr>) [0..<Suc NBUF],
     vdisk := (vdisk bss)\<lparr>vfree := replicate NUM True\<rparr>\<rparr>"

lemma booted_simps [simp]:
  "kctx 0 (booted fs)" "length (bufs (booted fs)) = Suc NBUF" "others (booted fs) = fs"
  "vdisk_idle (vdisk (booted fs))"
proof -
  have "kctx 0 (one_running fs)" by (simp add: kctx_def layout)
  then show "kctx 0 (booted fs)" by (simp add: booted_def del: upt_Suc)
  show "length (bufs (booted fs)) = Suc NBUF" "others (booted fs) = fs" by (simp_all add: booted_def del: upt_Suc)
  show "vdisk_idle (vdisk (booted fs))" by (simp add: booted_def vdisk_idle_def bss_def NUM_def del: upt_Suc)
qed

lemma booted_bufs:
  "i \<le> NBUF \<Longrightarrow> bufs (booted fs) ! i = zero_buf\<lparr>b_prev := if i = NBUF then 0 else Suc i,
     b_next := if i = 0 then NBUF else i - 1\<rparr>"
  by (simp add: booted_def del: upt_Suc)

text \<open>
  C8. The disk driver, with any device that keeps to the virtio specification (\<open>virtio_device\<close>: it
  serves a chain it was notified of if the chain has the layout, lengths and flags the specification
  asks for, and may do anything otherwise). With nothing in flight, \<open>virtio_disk_rw\<close> on a buffer
  allocates a chain of three descriptors, waits, and after one turn of the disk returns having
  transferred exactly one block: the buffer's bytes to the buffer's block of the disk, or the block's
  bytes to the buffer. Nothing else of the buffers or the disk changes, all descriptors are free
  again, and the processes have had at most their scheduling state changed.
\<close>

theorem virtio_disk_rw_transfers:
  assumes "kctx p w" "vdisk_idle (vdisk w)" "b < length (bufs w)" "unat (b_blockno (bufs w ! b)) < 2 ^ 31"
    and "\<not> b_disk (bufs w ! b)" "virtio_device dv" "others w = disk_turn dv # os"
  shows "\<exists>v out ps. virtio_disk_rw b write w =
     Ok () ((transfer write b (b_blockno (bufs w ! b)) w)\<lparr>dev_out := out, vdisk := v, procs := ps, others := os\<rparr>)
     \<and> vdisk_idle v \<and> sched_only (procs w) ps"
  using virtio_disk_rw_run [OF assms(1-5,7,6)] rw_done_idle [OF assms(2)] rw_done_procs [of "procs w" p b]
  by (simp only: rw_done_def) (rule exI conjI refl | assumption)+

theorem virtio_disk_rw_transfers_witness:
  "\<exists>v out ps. virtio_disk_rw 2 True (booted [disk_turn ideal_disk]) =
     Ok () ((transfer True 2 (b_blockno (bufs (booted [disk_turn ideal_disk]) ! 2)) (booted [disk_turn ideal_disk]))\<lparr>
       dev_out := out, vdisk := v, procs := ps, others := []\<rparr>)
     \<and> vdisk_idle v \<and> sched_only (procs (booted [disk_turn ideal_disk])) ps"
proof -
  have "(2::nat) \<le> NBUF" by (simp add: layout)
  then show ?thesis
    by (intro virtio_disk_rw_transfers [of 0 "booted [disk_turn ideal_disk]" 2 ideal_disk "[]" True])
      (simp_all add: booted_bufs zero_buf_def ideal_disk_ok)
qed

end
