(* ===== verification/Bcache.thy ===== *)
theory Bcache
  imports Log Disk
begin

text \<open>
  The buffer cache as a store of blocks. \<open>view\<close> is what a client sees of a block: the cached bytes,
  or the disk's. \<open>bcache_inv\<close> is the cache's invariant: the buffers form one ring, no block is cached
  twice, a buffer nobody refers to is unlocked and clean. The lemmas give \<open>bread\<close>, \<open>bwrite\<close> and
  \<open>brelse\<close> as operations on that store, for a process that shares the machine only with the disk.
\<close>

section \<open>The ring\<close>

primrec path :: "(nat \<Rightarrow> nat) \<Rightarrow> (nat \<Rightarrow> nat) \<Rightarrow> nat \<Rightarrow> nat list \<Rightarrow> nat \<Rightarrow> bool" where
  "path nx pv x [] z \<longleftrightarrow> nx x = z \<and> pv z = x"
| "path nx pv x (y # ys) z \<longleftrightarrow> nx x = y \<and> pv y = x \<and> path nx pv y ys z"

lemma path_append: "path nx pv x (ys @ y # zs) z \<longleftrightarrow> path nx pv x ys y \<and> path nx pv y zs z"
  by (induction ys arbitrary: x) auto

lemma path_cong:
  assumes "path nx pv x ys z" "\<And>a. a \<in> insert x (set ys) \<Longrightarrow> nx' a = nx a" "\<And>a. a \<in> insert z (set ys) \<Longrightarrow> pv' a = pv a"
  shows "path nx' pv' x ys z"
  using assms by (induction ys arbitrary: x) auto

lemma path_ends:
  assumes "path nx pv x ys z"
  shows "nx x = hd (ys @ [z])" "pv z = last (x # ys)"
  using assms by (induction ys arbitrary: x) auto

lemma path_unlink:
  assumes "path nx pv x us b" "path nx pv b vs z" "distinct (x # us @ b # vs)" "z \<notin> set (us @ b # vs)"
  shows "path (nx(pv b := nx b)) (pv(nx b := pv b)) x (us @ vs) z"
  using assms
proof (induction us arbitrary: x)
  case Nil
  show ?case
  proof (cases vs)
    case Nil
    then show ?thesis using Nil.prems by auto
  next
    case (Cons v ws)
    have e: "nx b = v" "pv b = x" using Nil.prems Cons by simp_all
    have "path (nx(x := v)) (pv(v := x)) v ws z"
      by (rule path_cong [of nx pv]) (use Nil.prems Cons in auto)
    then show ?thesis using Nil.prems unfolding Cons e by (simp add: fun_upd_def)
  qed
next
  case (Cons u us)
  have IH: "path (nx(pv b := nx b)) (pv(nx b := pv b)) u (us @ vs) z" by (rule Cons.IH) (use Cons.prems in auto)
  have "pv b \<in> set (u # us)" using path_ends(2) [of nx pv u us b] Cons.prems(1) by auto
  moreover have "nx b \<in> insert z (set vs)" using path_ends(1) [OF Cons.prems(2)] by (cases vs) auto
  ultimately have "pv b \<noteq> x" "nx b \<noteq> u" using Cons.prems(3,4) by auto
  with IH show ?case using Cons.prems(1) by (simp add: fun_upd_def)
qed

lemma path_link:
  assumes "path nx pv h ys h" "distinct (h # b # ys)"
  shows "path (nx(b := nx h, h := b)) ((pv(b := h))(nx h := b)) h (b # ys) h"
proof (cases ys)
  case Nil
  then show ?thesis using assms by auto
next
  case (Cons y zs)
  have n: "nx h = y" using assms(1) Cons by simp
  have "path (nx(b := y, h := b)) ((pv(b := h))(y := b)) y zs h"
    by (rule path_cong [of nx pv]) (use assms Cons in auto)
  then show ?thesis using assms unfolding n Cons by (simp add: fun_upd_def)
qed

definition ring :: "buf list \<Rightarrow> nat list \<Rightarrow> bool" where
  \<comment> \<open>the buffers in the order of the ring, most recently released first\<close>
  "ring bs order \<longleftrightarrow> length bs = Suc NBUF \<and> distinct order \<and> set order = {..<NBUF}
     \<and> path (\<lambda>i. b_next (bs ! i)) (\<lambda>i. b_prev (bs ! i)) NBUF order NBUF"

lemma ring_length: "ring bs order \<Longrightarrow> length order = NBUF"
  using distinct_card [of order] by (simp add: ring_def)

lemma ring_same_links:
  assumes "ring bs order" "length cs = length bs"
    and "\<And>i. i < length bs \<Longrightarrow> b_next (cs ! i) = b_next (bs ! i) \<and> b_prev (cs ! i) = b_prev (bs ! i)"
  shows "ring cs order"
  using assms unfolding ring_def by (auto intro!: path_cong [of "\<lambda>i. b_next (bs ! i)" "\<lambda>i. b_prev (bs ! i)" NBUF order])

lemma scan_cached:
  assumes "path (\<lambda>i. b_next (bufs w ! i)) pv x ys NBUF" "NBUF \<notin> set ys"
  shows "bget_cached (length ys) (b_next (bufs w ! x)) dev blk w =
     Ok (find (\<lambda>b. b_dev (bufs w ! b) = dev \<and> b_blockno (bufs w ! b) = blk) ys) w"
  using assms by (induction ys arbitrary: x) (auto simp: run_simps)

lemma scan_unused:
  assumes "path nx (\<lambda>i. b_prev (bufs w ! i)) NBUF (rev ys) x" "NBUF \<notin> set ys"
  shows "bget_unused (length ys) (b_prev (bufs w ! x)) w = Ok (find (\<lambda>b. b_refcnt (bufs w ! b) = 0) ys) w"
  using assms
proof (induction ys arbitrary: x)
  case (Cons y ys)
  then show ?case using path_append [of nx "\<lambda>i. b_prev (bufs w ! i)" NBUF "rev ys" y "[]" x]
    by (auto simp: run_simps)
qed (simp add: run_simps)

lemma bget_scans:
  assumes "ring (bufs w) order"
  shows "bget_cached NBUF (b_next (bufs w ! NBUF)) dev blk w =
      Ok (find (\<lambda>b. b_dev (bufs w ! b) = dev \<and> b_blockno (bufs w ! b) = blk) order) w"
    and "bget_unused NBUF (b_prev (bufs w ! NBUF)) w = Ok (find (\<lambda>b. b_refcnt (bufs w ! b) = 0) (rev order)) w"
  using scan_cached [of w "\<lambda>i. b_prev (bufs w ! i)" NBUF order dev blk]
    scan_unused [of "\<lambda>i. b_next (bufs w ! i)" w "rev order" NBUF] assms ring_length [OF assms]
  by (auto simp: ring_def)

definition set_prev :: "nat \<Rightarrow> nat \<Rightarrow> buf list \<Rightarrow> buf list" where
  "set_prev i p bs = bs[i := (bs ! i)\<lparr>b_prev := p\<rparr>]"

definition set_next :: "nat \<Rightarrow> nat \<Rightarrow> buf list \<Rightarrow> buf list" where
  "set_next i n bs = bs[i := (bs ! i)\<lparr>b_next := n\<rparr>]"

definition relink :: "nat \<Rightarrow> buf list \<Rightarrow> buf list" where
  \<comment> \<open>buffer \<open>b\<close> moved to the front of the ring, in the assignments of \<open>brelse\<close>\<close>
  "relink b bs0 =
     (let bs1 = set_prev (b_next (bs0 ! b)) (b_prev (bs0 ! b)) bs0;
          bs2 = set_next (b_prev (bs1 ! b)) (b_next (bs1 ! b)) bs1;
          bs3 = set_prev b NBUF (set_next b (b_next (bs2 ! NBUF)) bs2) in
      set_next NBUF b (set_prev (b_next (bs3 ! NBUF)) b bs3))"

definition core :: "buf \<Rightarrow> buf" where
  "core x = x\<lparr>b_prev := 0, b_next := 0\<rparr>"

lemma core_upd [simp]: "core (x\<lparr>b_prev := p\<rparr>) = core x" "core (x\<lparr>b_next := n\<rparr>) = core x"
  by (simp_all add: core_def)

lemma set_link_length [simp]: "length (set_prev i p bs) = length bs" "length (set_next i n bs) = length bs"
  by (simp_all add: set_prev_def set_next_def)

lemma core_update: "core x = core (bs ! i) \<Longrightarrow> core (bs[i := x] ! j) = core (bs ! j)"
  by (cases "i < length bs"; cases "i = j") (simp_all add: list_update_beyond)

lemma set_link_core [simp]:
  "core (set_prev i p bs ! j) = core (bs ! j)" "core (set_next i n bs ! j) = core (bs ! j)"
  by (simp_all add: set_prev_def set_next_def core_update)

lemma relink_core: "core (relink b bs ! j) = core (bs ! j)" "length (relink b bs) = length bs"
  by (simp_all add: relink_def Let_def del: list_update_beyond)

lemma link_sel:
  "i < length bs \<Longrightarrow> b_next (set_next i n bs ! j) = (if j = i then n else b_next (bs ! j))"
  "i < length bs \<Longrightarrow> b_prev (set_prev i p bs ! j) = (if j = i then p else b_prev (bs ! j))"
  "b_next (set_prev i p bs ! j) = b_next (bs ! j)" "b_prev (set_next i n bs ! j) = b_prev (bs ! j)"
  by (cases "i = j"; cases "i < length bs"; simp add: set_prev_def set_next_def list_update_beyond)+

lemma links_upd:
  "i < length bs \<Longrightarrow> (\<lambda>j. b_next (set_next i n bs ! j)) = (\<lambda>j. b_next (bs ! j))(i := n)"
  "i < length bs \<Longrightarrow> (\<lambda>j. b_prev (set_prev i p bs ! j)) = (\<lambda>j. b_prev (bs ! j))(i := p)"
  "(\<lambda>j. b_next (set_prev i p bs ! j)) = (\<lambda>j. b_next (bs ! j))"
  "(\<lambda>j. b_prev (set_next i n bs ! j)) = (\<lambda>j. b_prev (bs ! j))"
  by (simp_all add: link_sel fun_eq_iff)

lemma ring_ends:
  assumes "ring bs (us @ b # vs)"
  shows "b_next (bs ! b) \<in> insert NBUF (set vs)" "b_prev (bs ! b) \<in> insert NBUF (set us)"
    "b_next (bs ! NBUF) \<in> insert b (set us)" "NBUF \<notin> set (us @ b # vs)" "b < NBUF"
proof -
  let ?nx = "\<lambda>i. b_next (bs ! i)" and ?pv = "\<lambda>i. b_prev (bs ! i)"
  have p: "path ?nx ?pv NBUF us b" "path ?nx ?pv b vs NBUF" and s: "set (us @ b # vs) = {..<NBUF}"
    using assms by (simp_all add: ring_def path_append)
  show "b_next (bs ! b) \<in> insert NBUF (set vs)" using path_ends(1) [OF p(2)] by (cases vs) auto
  show "b_prev (bs ! b) \<in> insert NBUF (set us)" using path_ends(2) [OF p(1)] by (auto split: if_splits)
  show "b_next (bs ! NBUF) \<in> insert b (set us)" using path_ends(1) [OF p(1)] by (cases us) auto
  show "NBUF \<notin> set (us @ b # vs)" unfolding s by simp
  have "b \<in> set (us @ b # vs)" by simp
  then show "b < NBUF" unfolding s by simp
qed

lemma relink_ring:
  assumes r: "ring bs (us @ b # vs)"
  shows "ring (relink b bs) (b # us @ vs)"
proof -
  let ?nx = "\<lambda>i. b_next (bs ! i)" and ?pv = "\<lambda>i. b_prev (bs ! i)"
  let ?bs1 = "set_prev (b_next (bs ! b)) (b_prev (bs ! b)) bs"
  let ?bs2 = "set_next (b_prev (?bs1 ! b)) (b_next (?bs1 ! b)) ?bs1"
  let ?nx2 = "?nx(?pv b := ?nx b)" and ?pv2 = "?pv(?nx b := ?pv b)"
  have l: "length bs = Suc NBUF" "distinct (us @ b # vs)" and s: "set (us @ b # vs) = {..<NBUF}"
    using r by (simp_all add: ring_def)
  note e = ring_ends [OF r]
  have le: "i \<in> insert NBUF (set (us @ b # vs)) \<Longrightarrow> i < Suc NBUF" for i unfolding s by auto
  have bd: "?nx b < Suc NBUF" "?pv b < Suc NBUF" "?nx NBUF < Suc NBUF" using e le by auto
  have ne: "?nx b \<noteq> b" "?pv b \<noteq> b" using e(1,2,5) l(2) by auto
  have b1: "b_next (?bs1 ! b) = ?nx b" "b_prev (?bs1 ! b) = ?pv b" using ne bd l by (simp_all add: link_sel)
  have f2: "(\<lambda>j. b_next (?bs2 ! j)) = ?nx2" "(\<lambda>j. b_prev (?bs2 ! j)) = ?pv2"
    using bd l by (simp_all add: links_upd b1)
  have p2: "path ?nx2 ?pv2 NBUF (us @ vs) NBUF"
    by (rule path_unlink) (use r e in \<open>auto simp: ring_def path_append\<close>)
  have h: "b_next (?bs2 ! NBUF) = ?nx2 NBUF" by (rule fun_cong [OF f2(1)])
  have "?nx2 NBUF \<in> insert NBUF (set (us @ vs))" using path_ends(1) [OF p2] by (cases "us @ vs") auto
  then have hb: "?nx2 NBUF < Suc NBUF" by (rule le [OF subsetD, rotated]) auto
  let ?bs3 = "set_prev b NBUF (set_next b (b_next (?bs2 ! NBUF)) ?bs2)"
  have h3: "b_next (?bs3 ! NBUF) = ?nx2 NBUF" using e(5) l by (subst h [symmetric]) (simp add: link_sel)
  have "path (?nx2(b := ?nx2 NBUF, NBUF := b)) ((?pv2(b := NBUF))(?nx2 NBUF := b)) NBUF (b # us @ vs) NBUF"
    by (rule path_link [OF p2]) (use l e in auto)
  moreover have bd3: "NBUF < length bs" "b < length bs" "?nx2 NBUF < length bs" "?nx b < length bs" using hb bd(1) e(5) l(1) by simp_all
  have "(\<lambda>j. b_next (relink b bs ! j)) = ?nx2(b := ?nx2 NBUF, NBUF := b)"
    unfolding relink_def Let_def h3 by (simp only: links_upd set_link_length f2 h bd3)
  moreover have "(\<lambda>j. b_prev (relink b bs ! j)) = (?pv2(b := NBUF))(?nx2 NBUF := b)"
    unfolding relink_def Let_def h3 by (simp only: links_upd set_link_length f2 bd3)
  ultimately have "path (\<lambda>j. b_next (relink b bs ! j)) (\<lambda>j. b_prev (relink b bs ! j)) NBUF (b # us @ vs) NBUF"
    by (simp only:)
  then show ?thesis using l s by (auto simp: ring_def relink_core)
qed

section \<open>The store of blocks\<close>

definition holds :: "32 word \<Rightarrow> 32 word \<Rightarrow> buf list \<Rightarrow> nat \<Rightarrow> bool" where
  "holds dev blk bs b \<longleftrightarrow> b_dev (bs ! b) = dev \<and> b_blockno (bs ! b) = blk"

definition slot :: "32 word \<Rightarrow> 32 word \<Rightarrow> world \<Rightarrow> nat option" where
  \<comment> \<open>the buffer that caches the block\<close>
  "slot dev blk w = find (holds dev blk (bufs w)) [0..<NBUF]"

definition view :: "32 word \<Rightarrow> world \<Rightarrow> 32 word \<Rightarrow> byte list" where
  \<comment> \<open>the contents of a block as its users see it\<close>
  "view dev w blk = (case slot dev blk w of
     Some b \<Rightarrow> if b_valid (bufs w ! b) then b_data (bufs w ! b) else ddisk w blk
   | None \<Rightarrow> ddisk w blk)"

definition refs :: "32 word \<Rightarrow> world \<Rightarrow> 32 word \<Rightarrow> 32 word" where
  "refs dev w blk = (case slot dev blk w of Some b \<Rightarrow> b_refcnt (bufs w ! b) | None \<Rightarrow> 0)"

definition buf_ok :: "32 word \<Rightarrow> world \<Rightarrow> nat \<Rightarrow> bool" where
  \<comment> \<open>no request in flight; a buffer that nobody refers to is unlocked and, if valid, as on the disk\<close>
  "buf_ok dev w b \<longleftrightarrow> \<not> b_disk (bufs w ! b) \<and> length (b_data (bufs w ! b)) = BSIZE
     \<and> (b_dev (bufs w ! b) = dev \<or> b_dev (bufs w ! b) = 0 \<and> b_refcnt (bufs w ! b) = 0 \<and> \<not> b_valid (bufs w ! b))
     \<and> (b_refcnt (bufs w ! b) = 0 \<longrightarrow> \<not> sl_locked (slocks w (Buf_lock b))
         \<and> (b_valid (bufs w ! b) \<longrightarrow> b_data (bufs w ! b) = ddisk w (b_blockno (bufs w ! b))))"

definition bcache_inv :: "nat \<Rightarrow> 32 word \<Rightarrow> world \<Rightarrow> bool" where
  "bcache_inv p dev w \<longleftrightarrow> kctx p w \<and> vdisk_idle (vdisk w) \<and> (\<exists>order. ring (bufs w) order)
     \<and> (\<forall>b < NBUF. buf_ok dev w b)
     \<and> (\<forall>a < NBUF. \<forall>b < NBUF. b_dev (bufs w ! a) = dev \<and> b_dev (bufs w ! b) = dev
         \<and> b_blockno (bufs w ! a) = b_blockno (bufs w ! b) \<longrightarrow> a = b)
     \<and> (\<forall>blk. length (ddisk w blk) = BSIZE)"

definition strip_io :: "world \<Rightarrow> world" where
  "strip_io w = w\<lparr>slocks := slocks bss, procs := [], bufs := [], ddisk := ddisk bss, dwrites := [], dev_out := [],
     vdisk := vdisk bss, others := []\<rparr>"

definition io_same :: "world \<Rightarrow> world \<Rightarrow> bool" where
  \<comment> \<open>only the buffers, their locks, the disk and its driver differ, and the scheduling fields of processes\<close>
  "io_same w w' \<longleftrightarrow> strip_io w' = strip_io w \<and> sched_only (procs w) (procs w')
     \<and> (\<forall>lk. (\<forall>b. lk \<noteq> Buf_lock b) \<longrightarrow> slocks w' lk = slocks w lk)"

lemma io_same_refl [simp]: "io_same w w"
  by (simp add: io_same_def)

lemma io_same_trans: "io_same w w' \<Longrightarrow> io_same w' w'' \<Longrightarrow> io_same w w''"
  by (auto simp: io_same_def intro: sched_only_trans)

lemma io_same_upd [simp]:
  "io_same w (w'\<lparr>bufs := bs\<rparr>) = io_same w w'" "io_same w (w'\<lparr>ddisk := dd\<rparr>) = io_same w w'"
  "io_same w (w'\<lparr>dwrites := dw\<rparr>) = io_same w w'" "io_same w (w'\<lparr>dev_out := out\<rparr>) = io_same w w'"
  "io_same w (w'\<lparr>vdisk := v\<rparr>) = io_same w w'" "io_same w (w'\<lparr>others := os\<rparr>) = io_same w w'"
  by (simp_all add: io_same_def strip_io_def)

lemma io_same_slock [simp]: "io_same w (upd_slock (Buf_lock b) f w') = io_same w w'"
  by (auto simp: io_same_def strip_io_def upd_slock_def)

lemma io_same_procs: "io_same w w' \<Longrightarrow> sched_only (procs w') ps \<Longrightarrow> io_same w (w'\<lparr>procs := ps\<rparr>)"
  by (auto simp: io_same_def strip_io_def intro: sched_only_trans)

lemma rw_done_same: "io_same w w' \<Longrightarrow> io_same w (rw_done p b write w')"
  unfolding rw_done_def by (rule io_same_procs) (simp_all add: transfer_def rw_done_procs)

lemma io_same_sel:
  assumes "io_same w w'"
  shows "hart w' = hart w" "csrs w' = csrs w" "cpus w' = cpus w" "locks w' = locks w" "klog w' = klog w"
    "sb w' = sb w" "itable w' = itable w" "mem w' = mem w" "ftable w' = ftable w" "length (procs w') = length (procs w)"
proof -
  have s: "strip_io w' = strip_io w" using assms by (simp add: io_same_def)
  show "hart w' = hart w" "csrs w' = csrs w" "cpus w' = cpus w" "locks w' = locks w" "klog w' = klog w"
    "sb w' = sb w" "itable w' = itable w" "mem w' = mem w" "ftable w' = ftable w"
    using arg_cong [OF s, of hart] arg_cong [OF s, of csrs] arg_cong [OF s, of cpus] arg_cong [OF s, of locks]
      arg_cong [OF s, of klog] arg_cong [OF s, of sb] arg_cong [OF s, of itable] arg_cong [OF s, of mem]
      arg_cong [OF s, of ftable]
    by (simp_all add: strip_io_def)
  have "map strip (procs w') = map strip (procs w)" using assms by (simp add: io_same_def sched_only_def)
  then show "length (procs w') = length (procs w)" by (rule map_eq_imp_length_eq)
qed

lemma kctx_io_same:
  assumes "io_same w w'" "kctx p w"
  shows "kctx p w'"
  using assms(2) unfolding kctx_def calm_def running_def free_lock_def sie_def io_same_sel [OF assms(1)] .

lemma find_SomeD: "find P xs = Some x \<Longrightarrow> x \<in> set xs \<and> P x"
  by (induction xs) (auto split: if_splits)

lemma find_unique:
  assumes "distinct xs" "\<And>x y. x \<in> set xs \<Longrightarrow> y \<in> set xs \<Longrightarrow> P x \<Longrightarrow> P y \<Longrightarrow> x = y" "x \<in> set xs" "P x"
  shows "find P xs = Some x"
proof (cases "find P xs")
  case None
  then show ?thesis using assms(3,4) by (simp add: find_None_iff)
next
  case (Some y)
  then have "y \<in> set xs" "P y" by (auto dest: find_SomeD)
  then show ?thesis using assms Some by auto
qed

lemma slot_None: "slot dev blk w = None \<longleftrightarrow> (\<forall>b < NBUF. \<not> holds dev blk (bufs w) b)"
  by (auto simp: slot_def find_None_iff)

lemma slot_Some: "slot dev blk w = Some b \<Longrightarrow> b < NBUF \<and> holds dev blk (bufs w) b"
  by (auto simp: slot_def dest: find_SomeD)

lemma slotI:
  assumes "bcache_inv p dev w" "b < NBUF" "holds dev blk (bufs w) b"
  shows "slot dev blk w = Some b"
  unfolding slot_def by (rule find_unique) (use assms in \<open>auto simp: bcache_inv_def holds_def\<close>)

lemma slot_order:
  assumes "bcache_inv p dev w" "ring (bufs w) order"
  shows "find (\<lambda>b. b_dev (bufs w ! b) = dev \<and> b_blockno (bufs w ! b) = blk) order = slot dev blk w"
proof (cases "slot dev blk w")
  case None
  then have "\<forall>b < NBUF. \<not> holds dev blk (bufs w) b" by (simp only: slot_None)
  then show ?thesis unfolding None using assms(2) by (auto simp: find_None_iff ring_def holds_def)
next
  case (Some b)
  then have "b < NBUF" "holds dev blk (bufs w) b" by (auto dest: slot_Some)
  then show ?thesis unfolding Some
    by (intro find_unique) (use assms in \<open>auto simp: ring_def bcache_inv_def holds_def\<close>)
qed

definition locked_by :: "nat \<Rightarrow> nat \<Rightarrow> world \<Rightarrow> world" where
  "locked_by p b w = upd_slock (Buf_lock b) (\<lambda>l. l\<lparr>sl_locked := True, sl_pid := p_pid (procs w ! p)\<rparr>) w"

lemma bget_run:
  assumes "kctx p w" "ring (bufs w) order" "length (bufs w) = Suc NBUF"
  shows "find (\<lambda>b. b_dev (bufs w ! b) = dev \<and> b_blockno (bufs w ! b) = blk) order = Some b \<Longrightarrow>
      \<not> sl_locked (slocks w (Buf_lock b)) \<Longrightarrow>
      bget dev blk w = Ok b (locked_by p b (upd_buf b (\<lambda>x. x\<lparr>b_refcnt := b_refcnt x + 1\<rparr>) w))"
    and "find (\<lambda>b. b_dev (bufs w ! b) = dev \<and> b_blockno (bufs w ! b) = blk) order = None \<Longrightarrow>
      find (\<lambda>b. b_refcnt (bufs w ! b) = 0) (rev order) = Some b \<Longrightarrow> \<not> sl_locked (slocks w (Buf_lock b)) \<Longrightarrow>
      bget dev blk w = Ok b (locked_by p b (upd_buf b (\<lambda>x. x\<lparr>b_dev := dev, b_blockno := blk, b_valid := False, b_refcnt := 1\<rparr>) w))"
    and "find (\<lambda>b. b_dev (bufs w ! b) = dev \<and> b_blockno (bufs w ! b) = blk) order = None \<Longrightarrow>
      find (\<lambda>b. b_refcnt (bufs w ! b) = 0) (rev order) = None \<Longrightarrow>
      bget dev blk w = Stop (Panic ''bget: no buffers'') (hold Bcache_lock w)"
  using assms bget_scans [of "hold Bcache_lock w" order]
  by (simp_all add: bget_def run_simps acquiresleep_free locked_by_def upd_buf_def)

definition bget_done :: "nat \<Rightarrow> 32 word \<Rightarrow> 32 word \<Rightarrow> nat \<Rightarrow> world \<Rightarrow> world" where
  "bget_done p dev blk b w = locked_by p b (upd_buf b (\<lambda>x. if holds dev blk (bufs w) b
     then x\<lparr>b_refcnt := b_refcnt x + 1\<rparr>
     else x\<lparr>b_dev := dev, b_blockno := blk, b_valid := False, b_refcnt := 1\<rparr>) w)"

definition available :: "32 word \<Rightarrow> 32 word \<Rightarrow> world \<Rightarrow> bool" where
  \<comment> \<open>the block can be had: its buffer is not locked, or it has none and there is one to recycle\<close>
  "available dev blk w \<longleftrightarrow> (case slot dev blk w of
     Some b \<Rightarrow> \<not> sl_locked (slocks w (Buf_lock b)) | None \<Rightarrow> \<exists>b < NBUF. b_refcnt (bufs w ! b) = 0)"

definition chosen :: "32 word \<Rightarrow> 32 word \<Rightarrow> world \<Rightarrow> nat \<Rightarrow> bool" where
  "chosen dev blk w b \<longleftrightarrow> b < NBUF \<and> (slot dev blk w = Some b \<or> slot dev blk w = None \<and> b_refcnt (bufs w ! b) = 0)"

lemma bget_spec:
  assumes "bcache_inv p dev w" "available dev blk w"
  shows "\<exists>b. chosen dev blk w b \<and> runs (bget dev blk) w b (bget_done p dev blk b w)"
proof -
  obtain order where r: "ring (bufs w) order" using assms(1) by (auto simp: bcache_inv_def)
  have k: "kctx p w" "length (bufs w) = Suc NBUF" using assms(1) r by (simp_all add: bcache_inv_def ring_def)
  have o: "find (\<lambda>b. b_dev (bufs w ! b) = dev \<and> b_blockno (bufs w ! b) = blk) order = slot dev blk w"
    by (rule slot_order [OF assms(1) r])
  note g = bget_run [of p "w\<lparr>others := os\<rparr>" order dev blk for os]
  show ?thesis
  proof (cases "slot dev blk w")
    case (Some b)
    have "holds dev blk (bufs w) b" "b < NBUF" using slot_Some [OF Some] by auto
    moreover have "\<not> sl_locked (slocks w (Buf_lock b))" using assms(2) Some by (simp add: available_def)
    ultimately have "runs (bget dev blk) w b (bget_done p dev blk b w)"
      using k r o Some by (intro runs_eqI) (simp add: g(1) bget_done_def locked_by_def upd_slock_def upd_buf_def)
    then show ?thesis using Some \<open>b < NBUF\<close> by (auto simp: chosen_def)
  next
    case None
    then obtain c where c: "c < NBUF" "b_refcnt (bufs w ! c) = 0" using assms(2) by (auto simp: available_def)
    then have "find (\<lambda>b. b_refcnt (bufs w ! b) = 0) (rev order) \<noteq> None"
      using r by (auto simp: find_None_iff ring_def)
    then obtain b where b: "find (\<lambda>b. b_refcnt (bufs w ! b) = 0) (rev order) = Some b" by auto
    then have "b \<in> set (rev order)" "b_refcnt (bufs w ! b) = 0" by (auto dest: find_SomeD)
    then have b2: "b < NBUF" "b_refcnt (bufs w ! b) = 0" using r by (auto simp: ring_def)
    then have "\<not> sl_locked (slocks w (Buf_lock b))" using assms(1) by (auto simp: bcache_inv_def buf_ok_def)
    moreover have "\<not> holds dev blk (bufs w) b" using None b2(1) by (simp only: slot_None) auto
    ultimately have "runs (bget dev blk) w b (bget_done p dev blk b w)"
      using g(2) k r o None b by (intro runs_eqI) (simp add: bget_done_def locked_by_def upd_slock_def upd_buf_def)
    then show ?thesis using None b2 by (auto simp: chosen_def)
  qed
qed

definition bread_buf :: "32 word \<Rightarrow> 32 word \<Rightarrow> nat \<Rightarrow> world \<Rightarrow> buf" where
  \<comment> \<open>the buffer \<open>b\<close> after \<open>bread\<close>\<close>
  "bread_buf dev blk b w = (bufs w ! b)\<lparr>b_valid := True, b_dev := dev, b_blockno := blk,
     b_refcnt := refs dev w blk + 1, b_data := view dev w blk\<rparr>"

lemma bget_done_sel:
  assumes "b < NBUF" "length (bufs w) = Suc NBUF"
  shows "ddisk (bget_done p dev blk b w) = ddisk w" "dwrites (bget_done p dev blk b w) = dwrites w"
    "vdisk (bget_done p dev blk b w) = vdisk w" "procs (bget_done p dev blk b w) = procs w"
    "slocks (bget_done p dev blk b w) = (slocks w)(Buf_lock b := (slocks w (Buf_lock b))\<lparr>sl_locked := True, sl_pid := p_pid (procs w ! p)\<rparr>)"
    "io_same w (bget_done p dev blk b w)" "kctx q (bget_done p dev blk b w) = kctx q w"
    "bufs (bget_done p dev blk b w) = (bufs w)[b := if holds dev blk (bufs w) b
       then (bufs w ! b)\<lparr>b_refcnt := b_refcnt (bufs w ! b) + 1\<rparr>
       else (bufs w ! b)\<lparr>b_dev := dev, b_blockno := blk, b_valid := False, b_refcnt := 1\<rparr>]"
  using assms by (simp_all add: bget_done_def locked_by_def upd_slock_def upd_buf_def io_same_def strip_io_def)

lemma buf_hit:
  "b_valid x \<Longrightarrow> b_dev x = dev \<Longrightarrow> b_blockno x = blk \<Longrightarrow>
     x\<lparr>b_valid := True, b_dev := dev, b_blockno := blk, b_refcnt := n\<rparr> = x\<lparr>b_refcnt := n\<rparr>"
  by (cases x) simp

lemma buf_miss:
  "b_dev x = dev \<Longrightarrow> b_blockno x = blk \<Longrightarrow> x\<lparr>b_refcnt := n, b_data := d, b_valid := True\<rparr> =
     x\<lparr>b_valid := True, b_dev := dev, b_blockno := blk, b_refcnt := n, b_data := d\<rparr>"
  "x\<lparr>b_dev := dev, b_blockno := blk, b_valid := False, b_refcnt := n, b_data := d, b_valid := True\<rparr> =
     x\<lparr>b_valid := True, b_dev := dev, b_blockno := blk, b_refcnt := n, b_data := d\<rparr>"
  by (cases x, simp)+

lemma bget_buf_filled:
  assumes "b < NBUF" "length (bufs w) = Suc NBUF" "chosen dev blk w b"
    and "\<not> b_valid (bufs (bget_done p dev blk b w) ! b)" "holds dev blk (bufs w) b \<longleftrightarrow> slot dev blk w = Some b"
  shows "(bufs (bget_done p dev blk b w) ! b)\<lparr>b_data := ddisk w blk, b_valid := True\<rparr> = bread_buf dev blk b w"
proof (cases "slot dev blk w = Some b")
  case True
  then have "b_dev (bufs w ! b) = dev" "b_blockno (bufs w ! b) = blk" using slot_Some by (auto simp: holds_def)
  then show ?thesis using True assms
    by (simp add: bget_done_sel(8) bread_buf_def refs_def view_def buf_miss(1))
next
  case False
  then have "slot dev blk w = None" using assms(3) by (simp add: chosen_def)
  then show ?thesis using False assms(1,2,5)
    by (simp add: bget_done_sel(8) bread_buf_def refs_def view_def)
qed

lemma bread_spec:
  assumes i: "bcache_inv p dev w" and a: "available dev blk w" and u: "unat blk < 2 ^ 31"
  shows "\<exists>b w'. runs (bread dev blk) w b w' \<and> chosen dev blk w b \<and> io_same w w' \<and> vdisk_idle (vdisk w')
     \<and> bufs w' = (bufs w)[b := bread_buf dev blk b w] \<and> ddisk w' = ddisk w \<and> dwrites w' = dwrites w
     \<and> slocks w' = (slocks w)(Buf_lock b := (slocks w (Buf_lock b))\<lparr>sl_locked := True, sl_pid := p_pid (procs w ! p)\<rparr>)"
proof -
  obtain b where c: "chosen dev blk w b" and g: "runs (bget dev blk) w b (bget_done p dev blk b w)"
    using bget_spec [OF i a] by blast
  let ?w1 = "bget_done p dev blk b w"
  have k: "kctx p w" "length (bufs w) = Suc NBUF" "vdisk_idle (vdisk w)" "b < NBUF"
    using i c by (auto simp: bcache_inv_def ring_def chosen_def)
  note s = bget_done_sel [OF k(4,2), where p = p and dev = dev and blk = blk]
  have ok: "buf_ok dev w b" using i k(4) by (simp add: bcache_inv_def)
  have h: "holds dev blk (bufs w) b \<longleftrightarrow> slot dev blk w = Some b"
    using c slotI [OF i k(4)] slot_Some [of dev blk w b] by auto
  have b1: "b_blockno (bufs ?w1 ! b) = blk" "\<not> b_disk (bufs ?w1 ! b)" "b < length (bufs ?w1)"
    using k ok by (simp_all add: s(8) holds_def buf_ok_def)
  show ?thesis
  proof (cases "b_valid (bufs ?w1 ! b)")
    case True
    have rn: "runs (bread dev blk) w b ?w1" unfolding bread_def
      by (rule runs_bind [OF g]) (rule runs_bind_gets, use True in \<open>simp_all add: runs_ret\<close>)
    have hb: "holds dev blk (bufs w) b" using True k(2,4) by (simp add: s(8) split: if_splits)
    then have "b_dev (bufs w ! b) = dev" "b_blockno (bufs w ! b) = blk" by (simp_all only: holds_def)
    moreover have "slot dev blk w = Some b" using hb by (simp only: h)
    ultimately have "bufs ?w1 = (bufs w)[b := bread_buf dev blk b w]"
      using True hb k(2,4) by (simp add: s(8) bread_buf_def refs_def view_def buf_hit)
    with rn show ?thesis using c s k(3) by (intro exI [of _ b] exI [of _ ?w1]) simp
  next
    case False
    let ?w2 = "rw_done p b False ?w1"
    let ?w3 = "upd_buf b (\<lambda>x. x\<lparr>b_valid := True\<rparr>) ?w2"
    have v: "runs (virtio_disk_rw b False) ?w1 () ?w2"
      by (rule runs_virtio) (use b1 k s u in simp_all)
    have "runs (bread dev blk) w b ?w3" unfolding bread_def
      by (rule runs_bind [OF g], rule runs_bind_gets)
        (use False in \<open>simp_all add: upd_buf_def runs_ret runs_andthen_modify runs_andthen [OF v]\<close>)
    moreover have "bufs ?w3 = (bufs w)[b := (bufs ?w1 ! b)\<lparr>b_data := ddisk w blk, b_valid := True\<rparr>]"
      using k(2,4) b1(1) by (simp add: s(1,8) upd_buf_def rw_done_def transfer_def)
    moreover have "(bufs ?w1 ! b)\<lparr>b_data := ddisk w blk, b_valid := True\<rparr> = bread_buf dev blk b w"
      by (rule bget_buf_filled [OF k(4,2) c False h])
    moreover have "io_same w ?w3" using rw_done_same [OF s(6), of p b False] by (simp add: upd_buf_def)
    moreover have "ddisk ?w3 = ddisk w" "dwrites ?w3 = dwrites w" "slocks ?w3 = slocks ?w1" "vdisk ?w3 = vdisk ?w2"
      by (simp_all add: upd_buf_def rw_done_def transfer_def s(1,2))
    moreover have "vdisk_idle (vdisk ?w2)" using rw_done_idle k(3) by (simp add: rw_done_def s)
    ultimately show ?thesis using c s(5) by (intro exI [of _ b] exI [of _ ?w3]) simp
  qed
qed

section \<open>The abstract store\<close>

record store =
  s_view :: "32 word \<Rightarrow> byte list"
  s_disk :: "32 word \<Rightarrow> byte list"
  s_writes :: "(32 word \<times> byte list) list"
  s_refs :: "32 word \<Rightarrow> 32 word"
  s_locked :: "32 word \<Rightarrow> bool"

definition locked_block :: "32 word \<Rightarrow> world \<Rightarrow> 32 word \<Rightarrow> bool" where
  "locked_block dev w blk = (case slot dev blk w of Some b \<Rightarrow> sl_locked (slocks w (Buf_lock b)) | None \<Rightarrow> False)"

definition store_of :: "32 word \<Rightarrow> world \<Rightarrow> store" where
  "store_of dev w = \<lparr>s_view = view dev w, s_disk = ddisk w, s_writes = dwrites w, s_refs = refs dev w,
     s_locked = locked_block dev w\<rparr>"

definition st_get :: "32 word \<Rightarrow> store \<Rightarrow> store" where
  "st_get blk s = s\<lparr>s_refs := (s_refs s)(blk := s_refs s blk + 1), s_locked := (s_locked s)(blk := True)\<rparr>"

definition st_set :: "32 word \<Rightarrow> byte list \<Rightarrow> store \<Rightarrow> store" where
  "st_set blk d s = s\<lparr>s_view := (s_view s)(blk := d)\<rparr>"

definition st_write :: "32 word \<Rightarrow> store \<Rightarrow> store" where
  "st_write blk s = s\<lparr>s_disk := (s_disk s)(blk := s_view s blk), s_writes := s_writes s @ [(blk, s_view s blk)]\<rparr>"

definition st_ref :: "32 word \<Rightarrow> 32 word \<Rightarrow> store \<Rightarrow> store" where
  "st_ref blk n s = s\<lparr>s_refs := (s_refs s)(blk := s_refs s blk + n)\<rparr>"

definition st_put :: "32 word \<Rightarrow> store \<Rightarrow> store" where
  "st_put blk s = s\<lparr>s_refs := (s_refs s)(blk := s_refs s blk - 1), s_locked := (s_locked s)(blk := False)\<rparr>"

lemma slot_replace:
  assumes i: "bcache_inv p dev w" and c: "chosen dev blk w b" and X: "b_dev X = dev" "b_blockno X = blk"
    and w': "bufs w' = (bufs w)[b := X]"
  shows "slot dev blk' w' = (if blk' = blk then Some b else if slot dev blk' w = Some b then None else slot dev blk' w)"
proof -
  have b: "b < NBUF" "length (bufs w) = Suc NBUF" using i c by (auto simp: bcache_inv_def ring_def chosen_def)
  then have e: "holds dev blk' (bufs w') a \<longleftrightarrow> (if a = b then blk' = blk else holds dev blk' (bufs w) a)" if "a < NBUF" for a
    using X w' by (auto simp: holds_def)
  have u: "a = c" if "holds dev k (bufs w) a" "holds dev k (bufs w) c" "a < NBUF" "c < NBUF" for a c k
    using i that by (auto simp: bcache_inv_def holds_def)
  have n: "\<not> holds dev blk (bufs w) a" if "a < NBUF" "a \<noteq> b" for a
    using c slot_None [of dev blk w] slotI [OF i that(1), of blk] that by (auto simp: chosen_def)
  show ?thesis
  proof (cases "blk' = blk")
    case True
    have "slot dev blk' w' = Some b" unfolding slot_def
      by (rule find_unique) (use e n b True in \<open>auto split: if_splits\<close>)
    then show ?thesis using True by simp
  next
    case False
    show ?thesis
    proof (cases "slot dev blk' w")
      case None
      then have "slot dev blk' w' = None" unfolding slot_None using e False by (auto split: if_splits)
      then show ?thesis using None False by simp
    next
      case (Some a)
      then have a: "a < NBUF" "holds dev blk' (bufs w) a" by (auto dest: slot_Some)
      show ?thesis
      proof (cases "a = b")
        case True
        then have "slot dev blk' w' = None" unfolding slot_None using e False u [OF _ a(2) _ a(1)] by (auto split: if_splits)
        then show ?thesis using Some True False by simp
      next
        case neq: False
        have "slot dev blk' w' = Some a" unfolding slot_def
          by (rule find_unique) (use e a neq False u in \<open>auto split: if_splits\<close>)
        then show ?thesis using Some neq False by simp
      qed
    qed
  qed
qed

definition replaces :: "32 word \<Rightarrow> 32 word \<Rightarrow> nat \<Rightarrow> buf \<Rightarrow> world \<Rightarrow> world \<Rightarrow> bool" where
  \<comment> \<open>\<open>w'\<close> differs from \<open>w\<close> in buffer \<open>b\<close>, which holds block \<open>blk\<close>, its lock, and block \<open>blk\<close> of the disk\<close>
  "replaces dev blk b X w w' \<longleftrightarrow> chosen dev blk w b \<and> io_same w w' \<and> vdisk_idle (vdisk w')
     \<and> bufs w' = (bufs w)[b := X] \<and> b_dev X = dev \<and> b_blockno X = blk
     \<and> b_next X = b_next (bufs w ! b) \<and> b_prev X = b_prev (bufs w ! b)
     \<and> (\<forall>a. a \<noteq> b \<longrightarrow> slocks w' (Buf_lock a) = slocks w (Buf_lock a))
     \<and> (\<forall>k. k \<noteq> blk \<longrightarrow> ddisk w' k = ddisk w k) \<and> length (ddisk w' blk) = BSIZE"

lemma replaces_inv:
  assumes i: "bcache_inv p dev w" and r: "replaces dev blk b X w w'" and ok: "buf_ok dev w' b"
  shows "bcache_inv p dev w'"
proof -
  have c: "chosen dev blk w b" and d: "io_same w w'" "vdisk_idle (vdisk w')" "\<forall>a. a \<noteq> b \<longrightarrow> slocks w' (Buf_lock a) = slocks w (Buf_lock a)"
    and B: "bufs w' = (bufs w)[b := X]" "b_dev X = dev" "b_blockno X = blk"
      "b_next X = b_next (bufs w ! b)" "b_prev X = b_prev (bufs w ! b)"
    and D: "\<forall>k. k \<noteq> blk \<longrightarrow> ddisk w' k = ddisk w k" "length (ddisk w' blk) = BSIZE"
    using r by (auto simp: replaces_def)
  obtain order where o: "ring (bufs w) order" using i by (auto simp: bcache_inv_def)
  then have b: "b < NBUF" "length (bufs w) = Suc NBUF" using c by (simp_all add: ring_def chosen_def)
  have "ring (bufs w') order"
    by (rule ring_same_links [OF o]) (use B b in \<open>auto simp: nth_list_update\<close>)
  moreover have n: "b_dev (bufs w ! a) = dev \<longrightarrow> b_blockno (bufs w ! a) \<noteq> blk" if "a < NBUF" "a \<noteq> b" for a
    using c slot_None [of dev blk w] slotI [OF i that(1), of blk] that by (auto simp: chosen_def holds_def)
  have "buf_ok dev w' a" if "a < NBUF" for a
  proof (cases "a = b")
    case False
    then have "buf_ok dev w a" "b_dev (bufs w ! a) = dev \<longrightarrow> b_blockno (bufs w ! a) \<noteq> blk"
      using i n that by (simp_all add: bcache_inv_def)
    then show ?thesis using False B(1) d(3) D(1) by (auto simp: buf_ok_def)
  qed (use ok in simp)
  moreover have "a = c" if "a < NBUF" "c < NBUF" "b_dev (bufs w' ! a) = dev" "b_dev (bufs w' ! c) = dev"
    "b_blockno (bufs w' ! a) = b_blockno (bufs w' ! c)" for a c
  proof -
    have e: "bufs w' ! a = (if a = b then X else bufs w ! a)" for a using B(1) b by auto
    have "a = c" if "a \<noteq> b" "c \<noteq> b" using that \<open>a < NBUF\<close> \<open>c < NBUF\<close> i
        \<open>b_dev (bufs w' ! a) = dev\<close> \<open>b_dev (bufs w' ! c) = dev\<close> \<open>b_blockno (bufs w' ! a) = b_blockno (bufs w' ! c)\<close>
      by (simp add: e bcache_inv_def)
    moreover have "c = b" if "a = b" using n [of c] that \<open>c < NBUF\<close> \<open>b_dev (bufs w' ! c) = dev\<close>
        \<open>b_blockno (bufs w' ! a) = b_blockno (bufs w' ! c)\<close> B(3) by (cases "c = b") (simp_all add: e)
    moreover have "a = b" if "c = b" using n [of a] that \<open>a < NBUF\<close> \<open>b_dev (bufs w' ! a) = dev\<close>
        \<open>b_blockno (bufs w' ! a) = b_blockno (bufs w' ! c)\<close> B(3) by (cases "a = b") (simp_all add: e)
    ultimately show ?thesis by blast
  qed
  moreover have "length (ddisk w' k) = BSIZE" for k using i D by (cases "k = blk") (auto simp: bcache_inv_def)
  moreover have "kctx p w'" using kctx_io_same [OF d(1)] i by (simp only: bcache_inv_def)
  ultimately show ?thesis using d(2) unfolding bcache_inv_def by (intro conjI allI impI) (assumption | elim conjE | blast)+
qed

lemma replaces_store:
  assumes i: "bcache_inv p dev w" and r: "replaces dev blk b X w w'"
  shows "slot dev blk w' = Some b"
    and "view dev w' = (view dev w)(blk := if b_valid X then b_data X else ddisk w' blk)"
    and "refs dev w' = (refs dev w)(blk := b_refcnt X)"
    and "locked_block dev w' = (locked_block dev w)(blk := sl_locked (slocks w' (Buf_lock b)))"
    and "k \<noteq> blk \<Longrightarrow> refs dev w k \<noteq> 0 \<Longrightarrow> slot dev k w' = slot dev k w"
proof -
  have c: "chosen dev blk w b" and d: "\<And>a. a \<noteq> b \<Longrightarrow> slocks w' (Buf_lock a) = slocks w (Buf_lock a)"
    and B: "bufs w' = (bufs w)[b := X]" "b_dev X = dev" "b_blockno X = blk"
    and D: "\<And>k. k \<noteq> blk \<Longrightarrow> ddisk w' k = ddisk w k"
    using r by (auto simp: replaces_def)
  have l: "b < NBUF" "length (bufs w) = Suc NBUF" using i c by (auto simp: ring_def chosen_def bcache_inv_def)
  note s = slot_replace [OF i c B(2,3,1)]
  show 1: "slot dev blk w' = Some b" by (simp add: s)
  have ok: "buf_ok dev w b" using i l by (simp add: bcache_inv_def)
  have f: "b_refcnt (bufs w ! b) = 0" if "slot dev k w = Some b" "k \<noteq> blk" for k
    using c that slot_Some [of dev blk w b] slot_Some [of dev k w b] by (auto simp: chosen_def holds_def)
  have k: "b_blockno (bufs w ! b) = k" if "slot dev k w = Some b" for k using slot_Some [OF that] by (simp add: holds_def)
  have "view dev w' k = view dev w k \<and> refs dev w' k = refs dev w k \<and> locked_block dev w' k = locked_block dev w k"
    if "k \<noteq> blk" for k
    using that f [of k] k [of k] ok l B(1) d D [OF that]
    by (auto simp: view_def refs_def locked_block_def s buf_ok_def split: option.splits)
  then show "view dev w' = (view dev w)(blk := if b_valid X then b_data X else ddisk w' blk)"
    and "refs dev w' = (refs dev w)(blk := b_refcnt X)"
    and "locked_block dev w' = (locked_block dev w)(blk := sl_locked (slocks w' (Buf_lock b)))"
    using 1 l B(1) by (auto simp: fun_eq_iff view_def refs_def locked_block_def)
  show "k \<noteq> blk \<Longrightarrow> refs dev w k \<noteq> 0 \<Longrightarrow> slot dev k w' = slot dev k w"
    using f [of k] by (auto simp: s refs_def)
qed

definition handle :: "nat \<Rightarrow> 32 word \<Rightarrow> world \<Rightarrow> 32 word \<Rightarrow> nat \<Rightarrow> bool" where
  \<comment> \<open>process \<open>p\<close> has buffer \<open>b\<close> with block \<open>blk\<close> from \<open>bread\<close>\<close>
  "handle p dev w blk b \<longleftrightarrow> slot dev blk w = Some b \<and> b_valid (bufs w ! b) \<and> owned (Buf_lock b) p w
     \<and> b_refcnt (bufs w ! b) \<noteq> 0"

lemma handle_data: "handle p dev w blk b \<Longrightarrow> b_data (bufs w ! b) = s_view (store_of dev w) blk"
  by (simp add: handle_def store_of_def view_def)

lemma handleD:
  assumes "handle p dev w blk b" "bcache_inv p dev w"
  shows "chosen dev blk w b" "b < NBUF" "b < length (bufs w)" "b_dev (bufs w ! b) = dev" "b_blockno (bufs w ! b) = blk"
    "\<not> b_disk (bufs w ! b)" "length (b_data (bufs w ! b)) = BSIZE" "kctx p w" "vdisk_idle (vdisk w)"
    "view dev w blk = b_data (bufs w ! b)" "refs dev w blk = b_refcnt (bufs w ! b)" "locked_block dev w blk"
proof -
  have s: "slot dev blk w = Some b" "b_valid (bufs w ! b)" "sl_locked (slocks w (Buf_lock b))"
    using assms(1) by (simp_all add: handle_def owned_def)
  then have b: "b < NBUF" "holds dev blk (bufs w) b" by (auto dest: slot_Some)
  then show "chosen dev blk w b" "b < NBUF" "b < length (bufs w)" "b_dev (bufs w ! b) = dev" "b_blockno (bufs w ! b) = blk"
    using s assms(2) by (auto simp: chosen_def holds_def bcache_inv_def ring_def)
  have "buf_ok dev w b" using assms(2) b(1) by (simp add: bcache_inv_def)
  then show "\<not> b_disk (bufs w ! b)" "length (b_data (bufs w ! b)) = BSIZE" by (simp_all add: buf_ok_def)
  show "kctx p w" "vdisk_idle (vdisk w)" using assms(2) by (simp_all only: bcache_inv_def)
  show "view dev w blk = b_data (bufs w ! b)" "refs dev w blk = b_refcnt (bufs w ! b)" "locked_block dev w blk"
    using s by (simp_all add: view_def refs_def locked_block_def)
qed

lemma owned_same:
  assumes "io_same w w'" "slocks w' lk = slocks w lk" "p < length (procs w)"
  shows "owned lk p w' = owned lk p w"
  using assms sched_only_sel(1) [of "procs w" "procs w'" p] by (simp add: owned_def io_same_def)

lemma inv_proc:
  assumes "bcache_inv p dev w"
  shows "kctx p w" "p < length (procs w)"
proof -
  show "kctx p w" using assms by (simp only: bcache_inv_def)
  then show "p < length (procs w)" by simp
qed

lemma replaces_handle:
  assumes i: "bcache_inv p dev w" and r: "replaces dev blk b X w w'" and h: "handle p dev w k c" and n: "k \<noteq> blk"
  shows "handle p dev w' k c"
proof -
  have s: "slot dev k w = Some c" "b_refcnt (bufs w ! c) \<noteq> 0" using h by (simp_all add: handle_def)
  then have "refs dev w k \<noteq> 0" by (simp add: refs_def)
  then have s': "slot dev k w' = Some c" using replaces_store(5) [OF i r n] s by simp
  have "c \<noteq> b" using r s n slot_Some [of dev blk w b] slot_Some [of dev k w c]
    by (auto simp: replaces_def chosen_def holds_def)
  then have "bufs w' ! c = bufs w ! c" "slocks w' (Buf_lock c) = slocks w (Buf_lock c)" "io_same w w'"
    using r by (auto simp: replaces_def)
  then show ?thesis using h s' owned_same [of w w' "Buf_lock c" p] inv_proc(2) [OF i]
    by (simp add: handle_def)
qed

lemma upd_buf_replaces:
  \<comment> \<open>changes of a buffer the process has\<close>
  assumes "bcache_inv p dev w" "handle p dev w blk b"
    and "X = f (bufs w ! b)" "b_dev X = dev" "b_blockno X = blk" "b_next X = b_next (bufs w ! b)" "b_prev X = b_prev (bufs w ! b)"
  shows "replaces dev blk b X w (upd_buf b f w)"
  using assms handleD [OF assms(2,1)] by (simp add: replaces_def upd_buf_def bcache_inv_def)

lemma upd_buf_sel: "ddisk (upd_buf b f w) = ddisk w" "slocks (upd_buf b f w) = slocks w" "procs (upd_buf b f w) = procs w"
  "dwrites (upd_buf b f w) = dwrites w" "bufs (upd_buf b f w) = (bufs w)[b := f (bufs w ! b)]"
  by (simp_all add: upd_buf_def)

lemma handle_after:
  assumes "replaces dev blk b X w w'" "bcache_inv p dev w" "owned (Buf_lock b) p w'" "b_valid X" "b_refcnt X \<noteq> 0"
  shows "handle p dev w' blk b"
  using assms replaces_store(1) [OF assms(2,1)]
  by (auto simp: handle_def replaces_def chosen_def bcache_inv_def ring_def)

lemma upd_buf_spec:
  assumes i: "bcache_inv p dev w" and h: "handle p dev w blk b" and X: "X = f (bufs w ! b)"
    and c: "b_dev X = dev" "b_blockno X = blk" "b_next X = b_next (bufs w ! b)" "b_prev X = b_prev (bufs w ! b)"
      "b_valid X" "\<not> b_disk X" "b_refcnt X \<noteq> 0" "length (b_data X) = BSIZE"
  shows "bcache_inv p dev (upd_buf b f w)" "handle p dev (upd_buf b f w) k a \<longleftrightarrow> handle p dev w k a"
    "store_of dev (upd_buf b f w) = (store_of dev w)\<lparr>s_view := (view dev w)(blk := b_data X),
       s_refs := (refs dev w)(blk := b_refcnt X)\<rparr>"
proof -
  have r: "replaces dev blk b X w (upd_buf b f w)" by (rule upd_buf_replaces [where f = f, OF i h X c(1-4)])
  note d = handleD [OF h i]
  show i': "bcache_inv p dev (upd_buf b f w)"
    by (rule replaces_inv [OF i r]) (use c d(3) X in \<open>simp add: buf_ok_def upd_buf_sel\<close>)
  have o: "owned (Buf_lock b) p w" "b_refcnt (bufs w ! b) \<noteq> 0" using h by (simp_all add: handle_def)
  have h': "handle p dev (upd_buf b f w) blk b"
    by (rule handle_after [OF r i _ c(5,7)]) (use o in \<open>simp add: owned_def upd_buf_sel\<close>)
  have s: "slot dev k (upd_buf b f w) = slot dev k w" if "k \<noteq> blk" for k
    using slot_replace [OF i d(1) c(1,2), of "upd_buf b f w" k] that X d(5) slot_Some [of dev k w b]
    by (auto simp: upd_buf_sel holds_def)
  show "handle p dev (upd_buf b f w) k a \<longleftrightarrow> handle p dev w k a"
  proof (cases "k = blk")
    case True
    then show ?thesis using h h' by (auto simp: handle_def)
  next
    case False
    have "a \<noteq> b" if "slot dev k w = Some a" using slot_Some [OF that] False d(5) by (auto simp: holds_def)
    then have "bufs (upd_buf b f w) ! a = bufs w ! a" if "slot dev k w = Some a" using that by (simp add: upd_buf_sel)
    then show ?thesis using s [OF False] by (auto simp: handle_def owned_def upd_buf_sel)
  qed
  show "store_of dev (upd_buf b f w) = (store_of dev w)\<lparr>s_view := (view dev w)(blk := b_data X),
       s_refs := (refs dev w)(blk := b_refcnt X)\<rparr>"
    using replaces_store(2-4) [OF i r] c(5) o d(12)
    by (simp add: store_of_def upd_buf_sel owned_def fun_upd_idem)
qed

lemma upd_data_spec:
  assumes "bcache_inv p dev w" "handle p dev w blk b" "length (f (view dev w blk)) = BSIZE"
  shows "\<exists>w'. runs (upd_data b f) w () w' \<and> bcache_inv p dev w' \<and> io_same w w'
     \<and> (\<forall>k a. handle p dev w' k a \<longleftrightarrow> handle p dev w k a) \<and> store_of dev w' = st_set blk (f (view dev w blk)) (store_of dev w)"
proof -
  let ?g = "\<lambda>x. x\<lparr>b_data := f (b_data x)\<rparr>"
  note d = handleD [OF assms(2,1)]
  have u: "bcache_inv p dev (upd_buf b ?g w)" "\<And>k a. handle p dev (upd_buf b ?g w) k a \<longleftrightarrow> handle p dev w k a"
    "store_of dev (upd_buf b ?g w) = (store_of dev w)\<lparr>s_view := (view dev w)(blk := f (b_data (bufs w ! b))),
       s_refs := (refs dev w)(blk := b_refcnt (bufs w ! b))\<rparr>"
    using upd_buf_spec [OF assms(1,2) refl, of ?g] d assms by (simp_all add: handle_def)
  have "runs (upd_data b f) w () (upd_buf b ?g w)"
    unfolding upd_data_def by (rule runs_modify) (simp add: upd_buf_def)
  moreover have "io_same w (upd_buf b ?g w)" by (simp add: upd_buf_def)
  moreover have "(refs dev w)(blk := b_refcnt (bufs w ! b)) = refs dev w" using d(11) by (simp add: fun_upd_idem)
  then have "store_of dev (upd_buf b ?g w) = st_set blk (f (view dev w blk)) (store_of dev w)"
    using u(3) d(10) by (simp add: st_set_def store_of_def)
  ultimately show ?thesis using u by blast
qed

lemma pin_runs:
  assumes "kctx p w"
  shows "runs (bpin b) w () (upd_buf b (\<lambda>x. x\<lparr>b_refcnt := b_refcnt x + 1\<rparr>) w)"
    "runs (bunpin b) w () (upd_buf b (\<lambda>x. x\<lparr>b_refcnt := b_refcnt x - 1\<rparr>) w)"
  using assms by (auto intro!: runs_eqI simp: bpin_def bunpin_def run_simps upd_buf_def)

lemma pin_spec:
  assumes "bcache_inv p dev w" "handle p dev w blk b"
  shows "s_refs (store_of dev w) blk \<noteq> - 1 \<Longrightarrow> \<exists>w'. runs (bpin b) w () w' \<and> bcache_inv p dev w' \<and> io_same w w'
       \<and> (\<forall>k a. handle p dev w' k a \<longleftrightarrow> handle p dev w k a) \<and> store_of dev w' = st_ref blk 1 (store_of dev w)"
    and "s_refs (store_of dev w) blk \<noteq> 1 \<Longrightarrow> \<exists>w'. runs (bunpin b) w () w' \<and> bcache_inv p dev w' \<and> io_same w w'
       \<and> (\<forall>k a. handle p dev w' k a \<longleftrightarrow> handle p dev w k a) \<and> store_of dev w' = st_ref blk (- 1) (store_of dev w)"
proof -
  note d = handleD [OF assms(2,1)]
  have v: "(view dev w)(blk := b_data (bufs w ! b)) = view dev w" using d(10) by (simp add: fun_upd_idem)
  have g: "bcache_inv p dev (upd_buf b f w) \<and> (\<forall>k a. handle p dev (upd_buf b f w) k a \<longleftrightarrow> handle p dev w k a)
      \<and> store_of dev (upd_buf b f w) = st_ref blk n (store_of dev w)"
    if "f = (\<lambda>x. x\<lparr>b_refcnt := b_refcnt x + n\<rparr>)" "s_refs (store_of dev w) blk \<noteq> - n" for f n
  proof -
    have "b_refcnt (f (bufs w ! b)) \<noteq> 0" using that d(11) by (auto simp: store_of_def eq_neg_iff_add_eq_0)
    then show ?thesis
      using upd_buf_spec [where f = f, OF assms refl] d that(1) v assms(2)
      by (simp add: handle_def st_ref_def store_of_def)
  qed
  have i: "io_same w (upd_buf b f w)" for f by (simp add: upd_buf_def)
  show "s_refs (store_of dev w) blk \<noteq> - 1 \<Longrightarrow> \<exists>w'. runs (bpin b) w () w' \<and> bcache_inv p dev w' \<and> io_same w w'
       \<and> (\<forall>k a. handle p dev w' k a \<longleftrightarrow> handle p dev w k a) \<and> store_of dev w' = st_ref blk 1 (store_of dev w)"
    using g [OF refl, of 1] pin_runs(1) [OF d(8)] i by blast
  have m: "(\<lambda>x. x\<lparr>b_refcnt := b_refcnt x - 1\<rparr>) = (\<lambda>x. x\<lparr>b_refcnt := b_refcnt x + (- 1)\<rparr>)" by simp
  show "s_refs (store_of dev w) blk \<noteq> 1 \<Longrightarrow> \<exists>w'. runs (bunpin b) w () w' \<and> bcache_inv p dev w' \<and> io_same w w'
       \<and> (\<forall>k a. handle p dev w' k a \<longleftrightarrow> handle p dev w k a) \<and> store_of dev w' = st_ref blk (- 1) (store_of dev w)"
    using g [OF m] pin_runs(2) [OF d(8)] i by (simp only: minus_minus) blast
qed

lemma bwrite_spec:
  assumes i: "bcache_inv p dev w" and h: "handle p dev w blk b" and u: "unat blk < 2 ^ 31"
  shows "\<exists>w'. runs (bwrite b) w () w' \<and> bcache_inv p dev w' \<and> io_same w w'
     \<and> (\<forall>k a. handle p dev w k a \<longrightarrow> handle p dev w' k a) \<and> store_of dev w' = st_write blk (store_of dev w)"
proof -
  let ?w = "rw_done p b True w"
  note d = handleD [OF h i]
  have o: "owned (Buf_lock b) p w" "b_valid (bufs w ! b)" "b_refcnt (bufs w ! b) \<noteq> 0" using h by (simp_all add: handle_def)
  have v: "runs (virtio_disk_rw b True) w () ?w" by (rule runs_virtio) (use d u in simp_all)
  have hs: "runs (holdingsleep (Buf_lock b)) w True w"
    by (rule runs_eqI) (use d(8) o(1) in \<open>simp add: run_simps owned_def\<close>)
  have "runs (bwrite b) w () ?w" unfolding bwrite_def by (rule runs_bind [OF hs]) (use v in simp)
  moreover have io: "io_same w ?w" by (rule rw_done_same) simp
  have s: "bufs ?w = bufs w" "slocks ?w = slocks w" "ddisk ?w = (ddisk w)(blk := b_data (bufs w ! b))"
    "dwrites ?w = dwrites w @ [(blk, b_data (bufs w ! b))]"
    by (simp_all add: rw_done_def transfer_def d(5))
  have vi: "vdisk_idle (vdisk ?w)" using rw_done_idle [OF d(9)] by (simp add: rw_done_def)
  have r: "replaces dev blk b (bufs w ! b) w ?w"
    using d io s vi by (simp add: replaces_def)
  moreover have "bcache_inv p dev ?w"
    by (rule replaces_inv [OF i r]) (use d o in \<open>simp add: buf_ok_def s\<close>)
  moreover have "owned (Buf_lock b) p ?w" using owned_same [OF io _ inv_proc(2) [OF i]] o(1) s(2) by simp
  then have hb: "handle p dev ?w blk b" by (rule handle_after [OF r i _ o(2,3)])
  have "handle p dev ?w k a" if "handle p dev w k a" for k a
    using replaces_handle [OF i r that] that hb h by (cases "k = blk") (auto simp: handle_def)
  moreover have "store_of dev ?w = st_write blk (store_of dev w)"
    using replaces_store(2-4) [OF i r] d(10-12) o s
    by (simp add: store_of_def st_write_def owned_def fun_upd_idem)
  ultimately show ?thesis using io by blast
qed

lemma unused_exists:
  assumes i: "bcache_inv p dev w" and n: "card {k. refs dev w k \<noteq> 0} < NBUF"
  shows "\<exists>b < NBUF. b_refcnt (bufs w ! b) = 0"
proof (rule ccontr)
  assume "\<not> ?thesis"
  then have all: "b_refcnt (bufs w ! b) \<noteq> 0" if "b < NBUF" for b using that by blast
  have dv: "b_dev (bufs w ! b) = dev" if "b < NBUF" for b
    using i that all [OF that] by (auto simp: bcache_inv_def buf_ok_def)
  have inj: "inj_on (\<lambda>b. b_blockno (bufs w ! b)) {..<NBUF}"
    using i dv by (auto simp: inj_on_def bcache_inv_def)
  have "(\<lambda>b. b_blockno (bufs w ! b)) ` {..<NBUF} \<subseteq> {k. refs dev w k \<noteq> 0}"
  proof (rule image_subsetI)
    fix b assume "b \<in> {..<NBUF}"
    then have "slot dev (b_blockno (bufs w ! b)) w = Some b" "b_refcnt (bufs w ! b) \<noteq> 0"
      using slotI [OF i, of b] dv all by (auto simp: holds_def)
    then show "b_blockno (bufs w ! b) \<in> {k. refs dev w k \<noteq> 0}" by (simp add: refs_def)
  qed
  then have "card ((\<lambda>b. b_blockno (bufs w ! b)) ` {..<NBUF}) \<le> card {k. refs dev w k \<noteq> 0}"
    by (rule card_mono [rotated]) simp
  then show False using n card_image [OF inj] by simp
qed

lemma bread_store:
  assumes i: "bcache_inv p dev w" and u: "unat blk < 2 ^ 31" and l: "\<not> s_locked (store_of dev w) blk"
    and c: "s_refs (store_of dev w) blk \<noteq> 0 \<or> card {k. s_refs (store_of dev w) k \<noteq> 0} < NBUF"
    and m: "s_refs (store_of dev w) blk \<noteq> - 1"
  shows "\<exists>b w'. runs (bread dev blk) w b w' \<and> bcache_inv p dev w' \<and> io_same w w' \<and> handle p dev w' blk b
     \<and> (\<forall>k a. k \<noteq> blk \<longrightarrow> handle p dev w k a \<longrightarrow> handle p dev w' k a) \<and> store_of dev w' = st_get blk (store_of dev w)"
proof -
  have "available dev blk w"
  proof (cases "slot dev blk w")
    case None
    then show ?thesis using c unused_exists [OF i] by (simp add: available_def store_of_def refs_def)
  next
    case (Some b)
    then show ?thesis using l by (simp add: available_def store_of_def locked_block_def)
  qed
  then obtain b w' where r: "runs (bread dev blk) w b w'" and ch: "chosen dev blk w b" and io: "io_same w w'"
    and vi: "vdisk_idle (vdisk w')" and B: "bufs w' = (bufs w)[b := bread_buf dev blk b w]"
    and D: "ddisk w' = ddisk w" "dwrites w' = dwrites w"
    and S: "slocks w' = (slocks w)(Buf_lock b := (slocks w (Buf_lock b))\<lparr>sl_locked := True, sl_pid := p_pid (procs w ! p)\<rparr>)"
    using bread_spec [OF i _ u] by blast
  let ?X = "bread_buf dev blk b w"
  have bl: "b < NBUF" "b < length (bufs w)" using ch i by (auto simp: chosen_def bcache_inv_def ring_def)
  have len: "\<And>k. length (ddisk w k) = BSIZE" and ok: "\<And>a. a < NBUF \<Longrightarrow> buf_ok dev w a" using i by (simp_all add: bcache_inv_def)
  have rp: "replaces dev blk b ?X w w'"
    using ch io vi B D(1) S len by (simp add: replaces_def bread_buf_def)
  have nz: "b_refcnt ?X \<noteq> 0" using m by (auto simp: bread_buf_def store_of_def eq_neg_iff_add_eq_0)
  have "length (view dev w blk) = BSIZE"
    using len ok slot_Some [of dev blk w] by (auto simp: view_def buf_ok_def split: option.split)
  then have i': "bcache_inv p dev w'"
    by (intro replaces_inv [OF i rp]) (use bl ok [OF bl(1)] nz in \<open>simp add: buf_ok_def B, simp add: bread_buf_def\<close>)
  have "p_pid (procs w' ! p) = p_pid (procs w ! p)"
    using io inv_proc(2) [OF i] sched_only_sel(1) by (simp add: io_same_def)
  then have "handle p dev w' blk b"
    by (intro handle_after [OF rp i _ _ nz]) (simp_all add: owned_def S bread_buf_def)
  moreover have "store_of dev w' = st_get blk (store_of dev w)"
    using replaces_store(2-4) [OF i rp] D by (simp add: store_of_def st_get_def bread_buf_def S)
  ultimately show ?thesis using r i' io replaces_handle [OF i rp] by blast
qed

definition put_done :: "nat \<Rightarrow> nat \<Rightarrow> world \<Rightarrow> world" where
  \<comment> \<open>\<open>brelse\<close> without the change of the ring\<close>
  "put_done p b w = upd_buf b (\<lambda>x. x\<lparr>b_refcnt := b_refcnt x - 1\<rparr>)
     ((upd_slock (Buf_lock b) (\<lambda>l. l\<lparr>sl_locked := False, sl_pid := 0\<rparr>) w)
       \<lparr>procs := wake (Chan_sleeplock (Buf_lock b)) (Some p) (procs w)\<rparr>)"

definition brelse_done :: "nat \<Rightarrow> nat \<Rightarrow> world \<Rightarrow> world" where
  "brelse_done p b w = (if b_refcnt (bufs w ! b) = 1 then (put_done p b w)\<lparr>bufs := relink b (bufs (put_done p b w))\<rparr>
     else put_done p b w)"

lemma relink_steps:
  "andthen (modify (\<lambda>w. upd_buf (b_next (bufs w ! b)) (\<lambda>x. x\<lparr>b_prev := b_prev (bufs w ! b)\<rparr>) w))
     (andthen (modify (\<lambda>w. upd_buf (b_prev (bufs w ! b)) (\<lambda>x. x\<lparr>b_next := b_next (bufs w ! b)\<rparr>) w))
     (andthen (modify (\<lambda>w. upd_buf b (\<lambda>x. x\<lparr>b_next := b_next (bufs w ! NBUF)\<rparr>) w))
     (andthen (modify (upd_buf b (\<lambda>x. x\<lparr>b_prev := NBUF\<rparr>)))
     (andthen (modify (\<lambda>w. upd_buf (b_next (bufs w ! NBUF)) (\<lambda>x. x\<lparr>b_prev := b\<rparr>) w))
     (modify (upd_buf NBUF (\<lambda>h. h\<lparr>b_next := b\<rparr>))))))) = modify (\<lambda>w. w\<lparr>bufs := relink b (bufs w)\<rparr>)"
  by (rule ext, simp only: run_simps modify_def upd_buf_def relink_def Let_def set_prev_def set_next_def) simp

lemma put_done_sel:
  "bufs (put_done p b w) = (bufs w)[b := (bufs w ! b)\<lparr>b_refcnt := b_refcnt (bufs w ! b) - 1\<rparr>]"
  "slocks (put_done p b w) = (slocks w)(Buf_lock b := (slocks w (Buf_lock b))\<lparr>sl_locked := False, sl_pid := 0\<rparr>)"
  "ddisk (put_done p b w) = ddisk w" "dwrites (put_done p b w) = dwrites w" "vdisk (put_done p b w) = vdisk w"
  "put_done p b (w\<lparr>others := os\<rparr>) = (put_done p b w)\<lparr>others := os\<rparr>"
  by (simp_all add: put_done_def upd_buf_def upd_slock_def)

lemma brelse_runs:
  assumes "kctx p w" "owned (Buf_lock b) p w" "b < length (bufs w)"
  shows "runs (brelse b) w () (brelse_done p b w)"
proof (rule runs_eqI)
  fix os
  let ?w = "w\<lparr>others := os\<rparr>"
  have k: "kctx p ?w" "owned (Buf_lock b) p ?w" using assms(1,2) by (simp_all add: owned_def)
  have e: "brelse_done p b ?w = (brelse_done p b w)\<lparr>others := os\<rparr>"
    by (simp add: brelse_done_def put_done_sel)
  have "brelse b ?w = Ok () (brelse_done p b ?w)"
    using k assms(3) unfolding brelse_def relink_steps
    by (simp add: releasesleep_run run_simps brelse_done_def put_done_def upd_defs)
  then show "brelse b ?w = Ok () ((brelse_done p b w)\<lparr>others := os\<rparr>)" by (simp only: e)
qed

lemma relink_sel:
  "b_dev (relink b bs ! j) = b_dev (bs ! j)" "b_blockno (relink b bs ! j) = b_blockno (bs ! j)"
  "b_refcnt (relink b bs ! j) = b_refcnt (bs ! j)" "b_valid (relink b bs ! j) = b_valid (bs ! j)"
  "b_disk (relink b bs ! j) = b_disk (bs ! j)" "b_data (relink b bs ! j) = b_data (bs ! j)"
  using arg_cong [OF relink_core(1) [of b bs j], of b_dev] arg_cong [OF relink_core(1) [of b bs j], of b_blockno]
    arg_cong [OF relink_core(1) [of b bs j], of b_refcnt] arg_cong [OF relink_core(1) [of b bs j], of b_valid]
    arg_cong [OF relink_core(1) [of b bs j], of b_disk] arg_cong [OF relink_core(1) [of b bs j], of b_data]
  by (simp_all add: core_def)

lemma relink_spec:
  fixes w :: world and b :: nat
  defines "w' \<equiv> w\<lparr>bufs := relink b (bufs w)\<rparr>"
  assumes "b < NBUF"
  shows "bcache_inv p dev w \<Longrightarrow> bcache_inv p dev w'" "store_of dev w' = store_of dev w"
    "handle p dev w' k a \<longleftrightarrow> handle p dev w k a"
proof -
  have s: "slot dev k w' = slot dev k w" for k by (simp add: w'_def slot_def holds_def [abs_def] relink_sel)
  have f: "slocks w' = slocks w" "ddisk w' = ddisk w" "dwrites w' = dwrites w" "procs w' = procs w" "vdisk w' = vdisk w"
    "bufs w' = relink b (bufs w)" by (simp_all add: w'_def)
  then show "store_of dev w' = store_of dev w"
    by (auto simp: store_of_def view_def refs_def locked_block_def s relink_sel fun_eq_iff split: option.split)
  show "handle p dev w' k a \<longleftrightarrow> handle p dev w k a" using f by (simp add: handle_def owned_def s relink_sel)
  assume i: "bcache_inv p dev w"
  then obtain order where "ring (bufs w) order" by (auto simp: bcache_inv_def)
  moreover from this have "b \<in> set order" using assms(2) by (simp add: ring_def)
  ultimately obtain us vs where "ring (bufs w) (us @ b # vs)" by (auto simp: in_set_conv_decomp)
  then have "\<exists>order. ring (bufs w') order" unfolding f by (blast intro: relink_ring)
  then show "bcache_inv p dev w'" using i f unfolding bcache_inv_def buf_ok_def by (simp add: relink_sel w'_def)
qed

lemma brelse_done_spec:
  assumes i: "bcache_inv p dev w" and h: "handle p dev w blk b"
    and c: "s_refs (store_of dev w) blk = 1 \<Longrightarrow> s_view (store_of dev w) blk = s_disk (store_of dev w) blk"
  shows "runs (brelse b) w () (brelse_done p b w) \<and> bcache_inv p dev (brelse_done p b w) \<and> io_same w (brelse_done p b w)
     \<and> (\<forall>k a. k \<noteq> blk \<longrightarrow> handle p dev w k a \<longrightarrow> handle p dev (brelse_done p b w) k a)
     \<and> store_of dev (brelse_done p b w) = st_put blk (store_of dev w)"
proof -
  let ?w = "put_done p b w"
  let ?X = "(bufs w ! b)\<lparr>b_refcnt := b_refcnt (bufs w ! b) - 1\<rparr>"
  note d = handleD [OF h i]
  have o: "owned (Buf_lock b) p w" "b_valid (bufs w ! b)" "b_refcnt (bufs w ! b) \<noteq> 0" using h by (simp_all add: handle_def)
  have io: "io_same w ?w" unfolding put_done_def upd_buf_def
    by (simp, rule io_same_procs) (simp_all add: sched_only_wake upd_slock_def io_same_def strip_io_def)
  have rp: "replaces dev blk b ?X w ?w"
    using d io i by (simp add: replaces_def put_done_sel bcache_inv_def)
  have z: "b_refcnt ?X = 0 \<longleftrightarrow> b_refcnt (bufs w ! b) = 1" by simp
  have ok: "buf_ok dev ?w b"
    using d c by (simp add: buf_ok_def put_done_sel store_of_def)
  have i': "bcache_inv p dev ?w" by (rule replaces_inv [OF i rp ok])
  have hs: "\<forall>k a. k \<noteq> blk \<longrightarrow> handle p dev w k a \<longrightarrow> handle p dev ?w k a" using replaces_handle [OF i rp] by blast
  have st: "store_of dev ?w = st_put blk (store_of dev w)"
    using replaces_store(2-4) [OF i rp] o(2) d(10,11) by (simp add: store_of_def st_put_def put_done_sel fun_upd_idem)
  have r: "runs (brelse b) w () (brelse_done p b w)" by (rule brelse_runs [OF d(8) o(1) d(3)])
  show ?thesis
  proof (cases "b_refcnt (bufs w ! b) = 1")
    case True
    have "io_same w (?w\<lparr>bufs := relink b (bufs ?w)\<rparr>)" using io by simp
    then show ?thesis using r relink_spec [OF d(2), where w = ?w] i' hs st True unfolding brelse_done_def by auto
  next
    case False
    then show ?thesis using r i' hs st io unfolding brelse_done_def by auto
  qed
qed

lemma brelse_spec:
  assumes "bcache_inv p dev w" "handle p dev w blk b"
    and "s_refs (store_of dev w) blk = 1 \<Longrightarrow> s_view (store_of dev w) blk = s_disk (store_of dev w) blk"
  shows "\<exists>w'. runs (brelse b) w () w' \<and> bcache_inv p dev w' \<and> io_same w w'
     \<and> (\<forall>k a. k \<noteq> blk \<longrightarrow> handle p dev w k a \<longrightarrow> handle p dev w' k a) \<and> store_of dev w' = st_put blk (store_of dev w)"
  using brelse_done_spec [OF assms] by blast

section \<open>Initialisation\<close>

lemma init_link:
  assumes "path (\<lambda>i. b_next (bs ! i)) (\<lambda>i. b_prev (bs ! i)) NBUF order NBUF" "length bs = Suc NBUF"
    and "distinct (b # order)" "set (b # order) \<subseteq> {..<NBUF}"
  defines "bs1 \<equiv> set_prev b NBUF (set_next b (b_next (bs ! NBUF)) bs)"
  defines "cs \<equiv> set_next NBUF b (set_prev (b_next (bs1 ! NBUF)) b bs1)"
  shows "path (\<lambda>i. b_next (cs ! i)) (\<lambda>i. b_prev (cs ! i)) NBUF (b # order) NBUF"
proof -
  let ?nx = "\<lambda>i. b_next (bs ! i)" and ?pv = "\<lambda>i. b_prev (bs ! i)"
  have b: "b < NBUF" "NBUF \<noteq> b" "NBUF \<notin> set order" using assms(4) by auto
  have "?nx NBUF \<in> insert NBUF (set order)" using path_ends(1) [OF assms(1)] by (cases order) auto
  then have h: "?nx NBUF < length bs" using assms(2,4) by auto
  have bd: "NBUF < length bs" "b < length bs" using assms(2) b(1) by simp_all
  have n1: "b_next (bs1 ! NBUF) = ?nx NBUF" using b bd by (simp add: bs1_def link_sel)
  have "(\<lambda>j. b_next (cs ! j)) = ?nx(b := ?nx NBUF, NBUF := b)"
    unfolding cs_def n1 unfolding bs1_def by (simp only: links_upd set_link_length bd)
  moreover have "(\<lambda>j. b_prev (cs ! j)) = (?pv(b := NBUF))(?nx NBUF := b)"
    unfolding cs_def n1 unfolding bs1_def by (simp only: links_upd set_link_length bd h)
  ultimately show ?thesis using path_link [OF assms(1), of b] assms(3) b by (simp only: distinct.simps set_simps) blast
qed

lemma init_body:
  "\<exists>w'. binit_one b w = Ok () w' \<and> (let bs = set_prev b NBUF (set_next b (b_next (bufs w ! NBUF)) (bufs w)) in
      bufs w' = set_next NBUF b (set_prev (b_next (bs ! NBUF)) b bs))
    \<and> slocks w' = (slocks w)(Buf_lock b := (slocks w (Buf_lock b))\<lparr>sl_name := ''buffer'', sl_locked := False, sl_pid := 0\<rparr>)"
  by (simp add: binit_one_def run_simps initsleeplock_def initlock_def upd_defs set_prev_def set_next_def Let_def)

lemma init_loop:
  assumes "n \<le> NBUF" "length (bufs w) = Suc NBUF" "b_next (bufs w ! NBUF) = NBUF" "b_prev (bufs w ! NBUF) = NBUF"
  shows "\<exists>w'. for_each [0..<n] binit_one w = Ok () w'
     \<and> length (bufs w') = Suc NBUF \<and> path (\<lambda>i. b_next (bufs w' ! i)) (\<lambda>i. b_prev (bufs w' ! i)) NBUF (rev [0..<n]) NBUF
     \<and> (\<forall>b < n. \<not> sl_locked (slocks w' (Buf_lock b)))"
  using assms(1)
proof (induction n)
  case 0
  then show ?case using assms(2-4) by simp
next
  case (Suc n)
  from Suc.IH [OF Suc_leD [OF Suc.prems]]
  obtain w1 where 1: "for_each [0..<n] binit_one w = Ok () w1" "length (bufs w1) = Suc NBUF"
    "path (\<lambda>i. b_next (bufs w1 ! i)) (\<lambda>i. b_prev (bufs w1 ! i)) NBUF (rev [0..<n]) NBUF"
    "\<forall>b < n. \<not> sl_locked (slocks w1 (Buf_lock b))" by blast
  obtain w2 where 2: "binit_one n w1 = Ok () w2"
    "let bs = set_prev n NBUF (set_next n (b_next (bufs w1 ! NBUF)) (bufs w1)) in
      bufs w2 = set_next NBUF n (set_prev (b_next (bs ! NBUF)) n bs)"
    "slocks w2 = (slocks w1)(Buf_lock n := (slocks w1 (Buf_lock n))\<lparr>sl_name := ''buffer'', sl_locked := False, sl_pid := 0\<rparr>)"
    using init_body [of n w1] by blast
  have "distinct (n # rev [0..<n])" "set (n # rev [0..<n]) \<subseteq> {..<NBUF}" using Suc.prems by auto
  from init_link [OF 1(3,2) this]
  have "path (\<lambda>i. b_next (bufs w2 ! i)) (\<lambda>i. b_prev (bufs w2 ! i)) NBUF (n # rev [0..<n]) NBUF"
    using 2(2) by (simp only: Let_def)
  moreover have "length (bufs w2) = Suc NBUF" using 2(2) 1(2) by (simp add: Let_def)
  moreover have "for_each [0..<Suc n] binit_one w = Ok () w2" using 1(1) 2(1) by (simp add: for_each_append andthen_def bind_def)
  ultimately show ?case using 1(4) 2(3) by (auto simp: less_Suc_eq)
qed

text \<open>
  C17. \<open>binit\<close> links the buffers into one ring through the head, the last one first, whatever the memory
  held before, and leaves every buffer's lock free.
\<close>

theorem binit_makes_ring:
  assumes "length (bufs w) = Suc NBUF"
  shows "\<exists>w'. binit w = Ok () w' \<and> ring (bufs w') (rev [0..<NBUF]) \<and> (\<forall>b < NBUF. \<not> sl_locked (slocks w' (Buf_lock b)))"
proof -
  let ?w = "upd_buf NBUF (\<lambda>h. h\<lparr>b_next := NBUF\<rparr>) (upd_buf NBUF (\<lambda>h. h\<lparr>b_prev := NBUF\<rparr>)
     (w\<lparr>locks := (locks w)(Bcache_lock := \<lparr>locked = False, lk_name = ''bcache'', lk_cpu = None\<rparr>)\<rparr>))"
  have w: "length (bufs ?w) = Suc NBUF" "b_next (bufs ?w ! NBUF) = NBUF" "b_prev (bufs ?w ! NBUF) = NBUF"
    using assms by (simp_all add: upd_buf_def)
  have "set (rev [0..<NBUF]) = {..<NBUF}" by auto
  then show ?thesis using init_loop [OF order_refl w]
    by (simp add: binit_def run_simps initlock_def upd_lock_def ring_def)
qed

theorem binit_makes_ring_witness:
  "\<exists>w'. binit bss = Ok () w' \<and> ring (bufs w') (rev [0..<NBUF]) \<and> (\<forall>b < NBUF. \<not> sl_locked (slocks w' (Buf_lock b)))"
  by (rule binit_makes_ring) (simp add: bss_def)

lemma booted_path: "n \<le> NBUF \<Longrightarrow> path (\<lambda>i. b_next (bufs (booted fs) ! i)) (\<lambda>i. b_prev (bufs (booted fs) ! i)) n (rev [0..<n]) NBUF"
  by (induction n) (auto simp: booted_bufs)

lemma booted_inv:
  assumes "dev \<noteq> 0"
  shows "bcache_inv 0 dev (booted fs)" "slot dev k (booted fs) = None"
proof -
  have "ring (bufs (booted fs)) (rev [0..<NBUF])" using booted_path [of NBUF fs] by (auto simp: ring_def)
  moreover have "length (ddisk (booted fs) k) = BSIZE" for k by (simp add: booted_def one_running_def bss_def)
  moreover have "buf_ok dev (booted fs) b" if "b < NBUF" for b
  proof -
    have "slocks (booted fs) = slocks bss" by (simp add: booted_def one_running_def)
    then show ?thesis using that by (simp add: buf_ok_def booted_bufs zero_buf_def bss_def)
  qed
  moreover have "b_dev (bufs (booted fs) ! b) \<noteq> dev" if "b < NBUF" for b
    using that assms by (simp add: booted_bufs zero_buf_def)
  ultimately show "bcache_inv 0 dev (booted fs)" "slot dev k (booted fs) = None"
    by (auto simp: bcache_inv_def slot_None holds_def)
qed


section \<open>The contracts of bread, brelse and bget\<close>

text \<open>
  C6. \<open>bread\<close> implements reading a block of the store: it returns a buffer, locked by the caller, whose
  bytes are the block's current contents, be they cached or on the disk. What any user sees of any
  block stays the same (a recycled buffer was clean), no block is cached twice, and the rest of the
  kernel is untouched.
\<close>

theorem bread_refines_store:
  assumes "bcache_inv p dev w" "unat blk < 2 ^ 31" "\<not> s_locked (store_of dev w) blk"
    and "s_refs (store_of dev w) blk \<noteq> 0 \<or> card {k. s_refs (store_of dev w) k \<noteq> 0} < NBUF"
    and "s_refs (store_of dev w) blk \<noteq> - 1"
  shows "\<exists>b w'. runs (bread dev blk) w b w' \<and> bcache_inv p dev w' \<and> io_same w w' \<and> store_of dev w' = st_get blk (store_of dev w)
     \<and> owned (Buf_lock b) p w' \<and> b_blockno (bufs w' ! b) = blk \<and> b_data (bufs w' ! b) = view dev w blk"
proof -
  obtain b w' where w: "runs (bread dev blk) w b w'" "bcache_inv p dev w'" "io_same w w'" "handle p dev w' blk b"
    "store_of dev w' = st_get blk (store_of dev w)" using bread_store [OF assms(1-5)] by blast
  moreover have "b_data (bufs w' ! b) = view dev w blk" using handle_data [OF w(4)] unfolding w(5) by (simp add: st_get_def store_of_def)
  moreover have "owned (Buf_lock b) p w'" using w(4) by (simp add: handle_def)
  ultimately show ?thesis using handleD(5) [OF w(4,2)] by blast
qed

theorem bread_refines_store_witness:
  "\<exists>b w'. runs_on ideal_disk (bread 1 100) (booted []) b w' \<and> bcache_inv 0 1 w' \<and> io_same (booted []) w'
     \<and> store_of 1 w' = st_get 100 (store_of 1 (booted []))
     \<and> owned (Buf_lock b) 0 w' \<and> b_blockno (bufs w' ! b) = 100 \<and> b_data (bufs w' ! b) = view 1 (booted []) 100"
proof -
  have "\<exists>b w'. runs (bread 1 100) (booted []) b w' \<and> bcache_inv 0 1 w' \<and> io_same (booted []) w'
     \<and> store_of 1 w' = st_get 100 (store_of 1 (booted []))
     \<and> owned (Buf_lock b) 0 w' \<and> b_blockno (bufs w' ! b) = 100 \<and> b_data (bufs w' ! b) = view 1 (booted []) 100"
    by (rule bread_refines_store)
      (simp_all add: booted_inv store_of_def refs_def locked_block_def, simp add: layout)
  then show ?thesis using ideal_disk_ok unfolding runs_def by blast
qed

text \<open>
  C18. \<open>brelse\<close> gives the buffer up: if the caller's reference was the last, the buffer moves to the
  front of the ring, so that \<open>bget\<close>, which scans from the back, recycles it last. The contents of
  every block stay as they were and the invariant of the cache is kept.
\<close>

theorem brelse_moves_to_front:
  assumes "bcache_inv p dev w" "handle p dev w blk b" "ring (bufs w) (us @ b # vs)"
    and "b_refcnt (bufs w ! b) = 1" "view dev w blk = ddisk w blk"
  shows "\<exists>w'. runs (brelse b) w () w' \<and> bcache_inv p dev w' \<and> ring (bufs w') (b # us @ vs)
     \<and> view dev w' = view dev w \<and> \<not> sl_locked (slocks w' (Buf_lock b)) \<and> b_refcnt (bufs w' ! b) = 0"
proof -
  note d = handleD [OF assms(2,1)]
  let ?w = "brelse_done p b w" and ?c = "(bufs w)[b := (bufs w ! b)\<lparr>b_refcnt := 0\<rparr>]"
  have B: "bufs ?w = relink b ?c" and S: "slocks ?w = slocks (put_done p b w)"
    using assms(4) by (simp_all add: brelse_done_def put_done_sel)
  have "ring ?c (us @ b # vs)"
    by (rule ring_same_links [OF assms(3)]) (use d(3) in \<open>auto simp: nth_list_update\<close>)
  then have "ring (bufs ?w) (b # us @ vs)" unfolding B by (rule relink_ring)
  moreover have "runs (brelse b) w () ?w \<and> bcache_inv p dev ?w \<and> store_of dev ?w = st_put blk (store_of dev w)"
    using brelse_done_spec [OF assms(1,2)] assms(5) by (simp add: store_of_def)
  moreover from this have "view dev ?w = view dev w" by (simp add: store_of_def st_put_def)
  moreover have "\<not> sl_locked (slocks ?w (Buf_lock b))" "b_refcnt (bufs ?w ! b) = 0"
    using d(3) by (simp_all add: S put_done_sel B relink_sel)
  ultimately show ?thesis by blast
qed

definition demo_held :: world where
  \<comment> \<open>process 0 has block 100 in buffer 0\<close>
  "demo_held = (booted [])\<lparr>slocks := (slocks bss)(Buf_lock 0 := \<lparr>sl_locked = True, sl_name = [], sl_pid = 1\<rparr>),
     bufs := (bufs (booted []))[0 := (bufs (booted []) ! 0)\<lparr>b_valid := True, b_dev := 1, b_blockno := 100, b_refcnt := 1,
       b_data := replicate BSIZE 0\<rparr>]\<rparr>"

lemma demo_held_ok:
  "bcache_inv 0 1 demo_held" "handle 0 1 demo_held 100 0" "ring (bufs demo_held) (rev [1..<NBUF] @ 0 # [])"
  "b_refcnt (bufs demo_held ! 0) = 1" "view 1 demo_held 100 = ddisk demo_held 100"
proof -
  let ?X = "(bufs (booted []) ! 0)\<lparr>b_valid := True, b_dev := 1, b_blockno := 100, b_refcnt := 1, b_data := replicate BSIZE 0\<rparr>"
  have b: "bcache_inv 0 1 (booted [])" "\<And>k. slot 1 k (booted []) = None" by (simp_all add: booted_inv)
  have N: "0 < NBUF" by (simp add: layout)
  have s: "slocks (booted []) = slocks bss" "ddisk (booted []) = (\<lambda>_. replicate BSIZE 0)" "p_pid (procs (booted []) ! 0) = 1"
    by (simp_all add: booted_def one_running_def bss_def layout)
  have f: "bufs demo_held = (bufs (booted []))[0 := ?X]" "ddisk demo_held = ddisk (booted [])" "procs demo_held = procs (booted [])"
    "slocks demo_held = (slocks bss)(Buf_lock 0 := \<lparr>sl_locked = True, sl_name = [], sl_pid = 1\<rparr>)" "vdisk demo_held = vdisk (booted [])"
    by (simp_all add: demo_held_def)
  have "io_same (booted []) demo_held" using s(1) by (auto simp: io_same_def strip_io_def demo_held_def)
  then have r: "replaces 1 100 0 ?X (booted []) demo_held"
    using b(2) N f s by (auto simp: replaces_def chosen_def booted_bufs zero_buf_def)
  show i: "bcache_inv 0 1 demo_held"
    by (rule replaces_inv [OF b(1) r]) (use f N in \<open>simp add: buf_ok_def booted_bufs zero_buf_def\<close>)
  show "handle 0 1 demo_held 100 0"
    by (rule handle_after [OF r b(1)]) (use f s in \<open>simp_all add: owned_def\<close>)
  have "ring (bufs (booted [])) (rev [0..<NBUF])" using booted_path [of NBUF "[]"] by (auto simp: ring_def)
  then have "ring (bufs demo_held) (rev [0..<NBUF])"
    by (rule ring_same_links) (use f(1) in \<open>auto simp: nth_list_update\<close>)
  moreover have "rev [0..<NBUF] = rev [1..<NBUF] @ 0 # []" using N by (simp add: upt_conv_Cons)
  ultimately show "ring (bufs demo_held) (rev [1..<NBUF] @ 0 # [])" by simp
  show "b_refcnt (bufs demo_held ! 0) = 1" using f(1) by simp
  show "view 1 demo_held 100 = ddisk demo_held 100" using replaces_store(2) [OF b(1) r] f(2) s(2) by simp
qed

theorem brelse_moves_to_front_witness:
  "\<exists>w'. runs (brelse 0) demo_held () w' \<and> bcache_inv 0 1 w' \<and> ring (bufs w') (0 # rev [1..<NBUF] @ [])
     \<and> view 1 w' = view 1 demo_held \<and> \<not> sl_locked (slocks w' (Buf_lock 0)) \<and> b_refcnt (bufs w' ! 0) = 0"
  by (rule brelse_moves_to_front [OF demo_held_ok])

text \<open>
  C31. When the block is not cached and every buffer is in use, \<open>bget\<close> panics; it never takes a buffer
  somebody refers to.
\<close>

theorem bget_no_buffers:
  assumes "bcache_inv p dev w" "slot dev blk w = None" "\<forall>b < NBUF. b_refcnt (bufs w ! b) \<noteq> 0"
  shows "bget dev blk w = Stop (Panic ''bget: no buffers'') (hold Bcache_lock w)"
proof -
  obtain order where r: "ring (bufs w) order" using assms(1) by (auto simp: bcache_inv_def)
  have "find (\<lambda>b. b_refcnt (bufs w ! b) = 0) (rev order) = None" using r assms(3) by (auto simp: find_None_iff ring_def)
  moreover have "length (bufs w) = Suc NBUF" using r by (simp add: ring_def)
  ultimately show ?thesis
    using bget_run(3) [OF inv_proc(1) [OF assms(1)] r, of dev blk] slot_order [OF assms(1) r, of blk] assms(2) by simp
qed

definition demo_full :: world where
  \<comment> \<open>buffer \<open>i\<close> holds block \<open>i\<close> and is in use\<close>
  "demo_full = (booted [])\<lparr>bufs := map (\<lambda>i. (bufs (booted []) ! i)\<lparr>b_dev := 1, b_blockno := of_nat i, b_refcnt := 1\<rparr>) [0..<Suc NBUF]\<rparr>"

lemma demo_full_bufs: "i \<le> NBUF \<Longrightarrow> bufs demo_full ! i = (bufs (booted []) ! i)\<lparr>b_dev := 1, b_blockno := of_nat i, b_refcnt := 1\<rparr>"
  by (simp add: demo_full_def del: upt_Suc)

lemma demo_full_ok:
  "bcache_inv 0 1 demo_full" "slot 1 100 demo_full = None" "\<forall>b < NBUF. b_refcnt (bufs demo_full ! b) \<noteq> 0"
proof -
  have inj: "(of_nat i :: 32 word) = of_nat j \<longleftrightarrow> i = j" if "i \<le> 200" "j \<le> 200" for i j
    using that by (auto simp: word_unat_eq_iff unat_of_nat)
  have b: "bcache_inv 0 1 (booted [])" by (simp add: booted_inv)
  have "ring (bufs (booted [])) (rev [0..<NBUF])" using booted_path [of NBUF "[]"] by (auto simp: ring_def)
  then have "ring (bufs demo_full) (rev [0..<NBUF])"
    by (rule ring_same_links) (simp_all add: demo_full_bufs less_Suc_eq_le, simp add: demo_full_def del: upt_Suc)
  moreover have "buf_ok 1 demo_full k" if "k < NBUF" for k using b that by (simp add: bcache_inv_def buf_ok_def demo_full_bufs)
  moreover have "k = j" if "k < NBUF" "j < NBUF" "b_blockno (bufs demo_full ! k) = b_blockno (bufs demo_full ! j)" for k j
    using that inj [of k j] by (simp add: demo_full_bufs layout)
  moreover have "kctx 0 demo_full" "vdisk demo_full = vdisk (booted [])" "ddisk demo_full = ddisk (booted [])"
    by (simp_all add: demo_full_def del: upt_Suc)
  ultimately show "bcache_inv 0 1 demo_full" using b unfolding bcache_inv_def by auto
  have "(of_nat i :: 32 word) \<noteq> 100" if "i < NBUF" for i using inj [of i 100] that by (simp add: layout)
  then show "slot 1 100 demo_full = None" by (auto simp: slot_None holds_def demo_full_bufs)
  show "\<forall>b < NBUF. b_refcnt (bufs demo_full ! b) \<noteq> 0" by (simp add: demo_full_bufs)
qed

theorem bget_no_buffers_witness:
  "bget 1 100 demo_full = Stop (Panic ''bget: no buffers'') (hold Bcache_lock demo_full)"
  by (rule bget_no_buffers [OF demo_full_ok])

end
