(* ===== verification/Wal.thy ===== *)
theory Wal
  imports Bcache "HOL-Library.Sublist"
begin

text \<open>
  The write-ahead log as a client of the block store: what \<open>commit\<close> and \<open>recover_from_log\<close> do to the
  disk, and that a crash between any two block writes of a commit, followed by recovery, leaves
  either none or all of the transaction's writes.
\<close>

section \<open>The header block\<close>

lemma length_splice [simp]: "off + length cs \<le> length bs \<Longrightarrow> length (splice bs off cs) = length bs"
  by (simp add: splice_def)

lemma splice_same: "off \<le> length bs \<Longrightarrow> take (length cs) (drop off (splice bs off cs)) = cs"
  by (simp add: splice_def)

lemma splice_before: "k + n \<le> off \<Longrightarrow> off \<le> length bs \<Longrightarrow> take n (drop k (splice bs off cs)) = take n (drop k bs)"
  by (rule nth_equalityI) (auto simp: splice_def nth_append)

lemma splice_after:
  "off + length cs \<le> k \<Longrightarrow> off + length cs \<le> length bs \<Longrightarrow> drop k (splice bs off cs) = drop k bs"
  by (simp add: splice_def)

lemma length_put32 [simp]: "4 * i + 4 \<le> length bs \<Longrightarrow> length (put32 bs i v) = length bs"
  by (simp add: put32_def)

lemma get32_put32:
  assumes "4 * i + 4 \<le> length bs"
  shows "get32 (put32 bs i v) j = (if j = i then v else get32 bs j)"
proof -
  consider "j = i" | "j < i" | "i < j" by linarith
  then show ?thesis
  proof cases
    case 1
    have "take 4 (drop (4 * i) (put32 bs i v)) = bytes_of 4 v"
      using splice_same [of "4 * i" bs "bytes_of 4 v"] assms by (simp add: put32_def)
    then show ?thesis using 1 by (simp add: get32_def word_of_bytes_of)
  next
    case 2
    then show ?thesis using assms by (simp add: get32_def put32_def splice_before)
  next
    case 3
    then show ?thesis using assms by (simp add: get32_def put32_def splice_after)
  qed
qed

definition header :: "32 word list \<Rightarrow> nat \<Rightarrow> byte list \<Rightarrow> byte list" where
  \<comment> \<open>the header block \<open>write_head\<close> makes\<close>
  "header hs n d = fold (\<lambda>i d. put32 d (Suc i) (hs ! i)) [0..<n] (put32 d 0 (of_nat n))"

lemma header_fold:
  assumes "4 * Suc n \<le> length d"
  shows "length (fold (\<lambda>i d. put32 d (Suc i) (hs ! i)) [0..<n] d) = length d"
    "get32 (fold (\<lambda>i d. put32 d (Suc i) (hs ! i)) [0..<n] d) j =
       (if 0 < j \<and> j \<le> n then hs ! (j - 1) else get32 d j)"
  using assms by (induction n) (auto simp: get32_put32 le_Suc_eq)

lemma length_header: "4 * Suc n \<le> length d \<Longrightarrow> length (header hs n d) = length d"
  by (simp add: header_def header_fold)

lemma get32_header:
  assumes "4 * Suc n \<le> length d"
  shows "get32 (header hs n d) 0 = of_nat n" "i < n \<Longrightarrow> get32 (header hs n d) (Suc i) = hs ! i"
  using assms by (simp_all add: header_def header_fold get32_put32)

section \<open>Loops of routines that sleep\<close>

lemma runs_for_each:
  assumes "\<And>i w. m \<le> i \<Longrightarrow> i < n \<Longrightarrow> I i w \<Longrightarrow> \<exists>w'. runs (f i) w () w' \<and> I (Suc i) w'" "I m w" "m \<le> n"
  shows "\<exists>w'. runs (for_each [m..<n] f) w () w' \<and> I n w'"
  using assms
proof (induction "n - m" arbitrary: m w)
  case 0
  then show ?case using runs_ret [of "()" w] by auto
next
  case (Suc k)
  then obtain w1 where w1: "runs (f m) w () w1" "I (Suc m) w1" by (metis le_refl zero_less_Suc zero_less_diff)
  have "\<exists>w'. runs (for_each [Suc m..<n] f) w1 () w' \<and> I n w'"
    by (rule Suc.hyps(1)) (use Suc.hyps(2) Suc.prems(1) w1(2) in auto)
  then obtain w' where "runs (for_each [Suc m..<n] f) w1 () w'" "I n w'" by blast
  moreover have "[m..<n] = m # [Suc m..<n]" using Suc.hyps(2) by (simp add: upt_conv_Cons)
  ultimately show ?case using runs_bind [OF w1(1), of "\<lambda>_. for_each [Suc m..<n] f"] by auto
qed

lemma runs_bind_gets2:
  assumes "\<And>os. f (w\<lparr>others := os\<rparr>) = x" "\<exists>w'. runs (g x) w () w' \<and> Q w'"
  shows "\<exists>w'. runs (bind (gets f) g) w () w' \<and> Q w'"
proof -
  have "f w = x" using assms(1) [of "others w"] by simp
  then show ?thesis using assms runs_bind_gets [of f w g] by auto
qed

section \<open>Disks and crashes\<close>

type_synonym disk = "32 word \<Rightarrow> byte list"

definition log_slot :: "32 word \<Rightarrow> nat \<Rightarrow> 32 word" where
  \<comment> \<open>the block of the log that holds the \<open>i\<close>-th logged block\<close>
  "log_slot ls i = ls + of_nat i + 1"

definition log_area :: "32 word \<Rightarrow> nat \<Rightarrow> 32 word set" where
  \<comment> \<open>the blocks of the log: its header and \<open>m\<close> more\<close>
  "log_area ls m = insert ls (log_slot ls ` {..<m})"

definition after_writes :: "(32 word \<times> byte list) list \<Rightarrow> disk \<Rightarrow> disk" where
  "after_writes ws = fold (\<lambda>(k, d) D. D(k := d)) ws"

definition installed :: "32 word \<Rightarrow> 32 word list \<Rightarrow> disk \<Rightarrow> disk" where
  \<comment> \<open>the logged blocks copied to their homes\<close>
  "installed ls hs D = fold (\<lambda>i D. D(hs ! i := D (log_slot ls i))) [0..<length hs] D"

definition logged :: "32 word \<Rightarrow> disk \<Rightarrow> 32 word list" where
  \<comment> \<open>the home blocks the header on the disk names\<close>
  "logged ls D = map (\<lambda>i. get32 (D ls) (Suc i)) [0..<nat (sint (get32 (D ls) 0))]"

definition recovered :: "32 word \<Rightarrow> disk \<Rightarrow> disk" where
  "recovered ls D = installed ls (logged ls D) D"

definition commit_writes :: "32 word \<Rightarrow> 32 word list \<Rightarrow> disk \<Rightarrow> byte list \<Rightarrow> (32 word \<times> byte list) list" where
  \<comment> \<open>the block writes of a commit: the log, the header, the homes, the cleared header\<close>
  "commit_writes ls hs V d =
     map (\<lambda>i. (log_slot ls i, V (hs ! i))) [0..<length hs] @ [(ls, header hs (length hs) d)] @
     map (\<lambda>h. (h, V h)) hs @ [(ls, header hs 0 (header hs (length hs) d))]"

definition loggable :: "32 word \<Rightarrow> nat \<Rightarrow> 32 word list \<Rightarrow> bool" where
  "loggable ls m hs \<longleftrightarrow> length hs \<le> m \<and> m \<le> LOGSIZE \<and> distinct hs \<and> set hs \<inter> log_area ls m = {}
     \<and> (\<forall>h \<in> set hs. unat h < 2 ^ 31) \<and> unat ls + LOGSIZE < 2 ^ 31"

lemma unat_log_slot:
  assumes "unat ls + LOGSIZE < 2 ^ 31" "i < LOGSIZE"
  shows "unat (log_slot ls i) = unat ls + i + 1"
proof -
  have "word_of_nat (unat ls + i + 1) = log_slot ls i" by (simp add: log_slot_def)
  moreover have "(2::nat) ^ 31 < 2 ^ LENGTH(32)" by simp
  then have "unat ls + i + 1 < 2 ^ LENGTH(32)" using assms by linarith
  ultimately show ?thesis by (rule of_nat_inverse)
qed

lemma log_slot_facts:
  assumes "unat ls + LOGSIZE < 2 ^ 31"
  shows "i < LOGSIZE \<Longrightarrow> log_slot ls i \<noteq> ls" "i < LOGSIZE \<Longrightarrow> j < LOGSIZE \<Longrightarrow> log_slot ls i = log_slot ls j \<longleftrightarrow> i = j"
    "i < LOGSIZE \<Longrightarrow> unat (log_slot ls i) < 2 ^ 31" "unat ls < 2 ^ 31"
proof -
  note u = unat_log_slot [OF assms]
  show "i < LOGSIZE \<Longrightarrow> log_slot ls i \<noteq> ls" using u [of i] by auto
  show "i < LOGSIZE \<Longrightarrow> j < LOGSIZE \<Longrightarrow> log_slot ls i = log_slot ls j \<longleftrightarrow> i = j"
    by (metis add_left_cancel add_right_cancel u)
  show "i < LOGSIZE \<Longrightarrow> unat (log_slot ls i) < 2 ^ 31" using u [of i] assms by simp
  show "unat ls < 2 ^ 31" using assms by simp
qed

lemma after_writes_append [simp]: "after_writes (ws @ ws') D = after_writes ws' (after_writes ws D)"
  by (simp add: after_writes_def)

lemma after_writes_Cons [simp]: "after_writes ((k, d) # ws) D = after_writes ws (D(k := d))"
  "after_writes [] D = D"
  by (simp_all add: after_writes_def)

lemma after_writes_other: "k \<notin> fst ` set ws \<Longrightarrow> after_writes ws D k = D k"
  by (induction ws arbitrary: D) (auto simp: after_writes_def)

lemma after_writes_map:
  "distinct (map f xs) \<Longrightarrow> x \<in> set xs \<Longrightarrow> after_writes (map (\<lambda>x. (f x, g x)) xs) D (f x) = g x"
proof (induction xs arbitrary: D)
  case (Cons y ys)
  then show ?case using after_writes_other [of "f x" "map (\<lambda>x. (f x, g x)) ys" "D(f y := g y)"]
    by (auto simp: after_writes_def image_iff)
qed simp

lemma installed_upto:
  assumes "loggable ls m hs" "n \<le> length hs"
  shows "fold (\<lambda>i D. D(hs ! i := D (log_slot ls i))) [0..<n] D k =
     (if k \<in> set (take n hs) then D (log_slot ls (length (takeWhile (\<lambda>h. h \<noteq> k) hs))) else D k)"
  using assms(2)
proof (induction n arbitrary: k)
  case (Suc n)
  let ?E = "fold (\<lambda>i D. D(hs ! i := D (log_slot ls i))) [0..<n] D"
  have n: "n < length hs" "n < m" using Suc.prems assms(1) by (auto simp: loggable_def)
  have d: "distinct hs" "set hs \<inter> log_area ls m = {}" using assms(1) by (simp_all add: loggable_def)
  have "log_slot ls n \<in> log_area ls m" using n(2) by (auto simp: log_area_def)
  then have "log_slot ls n \<notin> set (take n hs)" using d(2) set_take_subset [of n hs] by auto
  then have e: "?E (log_slot ls n) = D (log_slot ls n)" using Suc.IH [of "log_slot ls n"] Suc.prems by (simp del: fun_upd_apply)
  have t: "length (takeWhile (\<lambda>h. h \<noteq> hs ! n) hs) = n"
  proof -
    have "takeWhile (\<lambda>h. h \<noteq> hs ! n) hs = take n hs"
      by (rule takeWhile_eq_take_P_nth) (use d(1) n(1) in \<open>auto simp: nth_eq_iff_index_eq\<close>)
    then show ?thesis using n(1) by simp
  qed
  have "take (Suc n) hs = take n hs @ [hs ! n]" using n(1) by (simp add: take_Suc_conv_app_nth)
  moreover have "hs ! n \<notin> set (take n hs)" using d(1) n(1) by (auto simp: in_set_conv_nth nth_eq_iff_index_eq)
  moreover have "?E k = (if k \<in> set (take n hs) then D (log_slot ls (length (takeWhile (\<lambda>h. h \<noteq> k) hs))) else D k)"
    using Suc.IH [of k] Suc.prems by (simp del: fun_upd_apply)
  ultimately show ?case using e t by (simp del: fun_upd_apply) (auto simp: fun_upd_def)
qed simp

lemma writes_installed:
  assumes "loggable ls m hs" "n \<le> length hs"
  shows "after_writes (map (\<lambda>j. (hs ! j, D (log_slot ls j))) [0..<n]) D = fold (\<lambda>i D. D(hs ! i := D (log_slot ls i))) [0..<n] D"
  using assms(2)
proof (induction n)
  case (Suc n)
  have "n < length hs" "n < m" using Suc.prems assms(1) by (auto simp: loggable_def)
  then have "log_slot ls n \<in> log_area ls m" by (auto simp: log_area_def)
  then have "log_slot ls n \<notin> set hs" using assms(1) by (auto simp: loggable_def)
  then have "log_slot ls n \<notin> fst ` set (map (\<lambda>j. (hs ! j, D (log_slot ls j))) [0..<n])" using Suc.prems by force
  then have "after_writes (map (\<lambda>j. (hs ! j, D (log_slot ls j))) [0..<n]) D (log_slot ls n) = D (log_slot ls n)"
    by (rule after_writes_other)
  then show ?case using Suc by (simp del: fun_upd_apply)
qed simp

lemma installed_same:
  assumes "loggable ls m hs" "\<And>i. i < length hs \<Longrightarrow> D (log_slot ls i) = V (hs ! i)"
  shows "installed ls hs D k = (if k \<in> set hs then V k else D k)"
proof (cases "k \<in> set hs")
  case True
  let ?i = "length (takeWhile (\<lambda>h. h \<noteq> k) hs)"
  have "?i < length hs \<and> hs ! ?i = k" using True by (induction hs) auto
  then show ?thesis using True assms installed_upto [OF assms(1) order_refl, of D k] by (simp add: installed_def)
next
  case False
  then show ?thesis using installed_upto [OF assms(1) order_refl, of D k] by (simp add: installed_def)
qed

lemma sint_small: "n \<le> LOGSIZE \<Longrightarrow> sint (word_of_nat n :: 32 word) = int n"
  by (simp add: signed_of_nat layout signed_take_bit_int_eq_self)

lemma header_fits: "n \<le> LOGSIZE \<Longrightarrow> length d = BSIZE \<Longrightarrow> 4 * Suc n \<le> length d"
  by (simp add: layout)

lemma logged_header:
  assumes "D ls = header hs n d" "n \<le> LOGSIZE" "length d = BSIZE"
  shows "logged ls D = map (\<lambda>i. hs ! i) [0..<n]"
  using assms get32_header [OF header_fits [OF assms(2,3)], where hs = hs] sint_small [OF assms(2)]
  by (simp add: logged_def)

lemma recovered_cleared: "get32 (D ls) 0 = 0 \<Longrightarrow> recovered ls D = D"
  by (simp add: recovered_def logged_def installed_def)

lemma loggableD:
  assumes "loggable ls m hs"
  shows "i < length hs \<Longrightarrow> i < LOGSIZE" "ls \<notin> set hs" "i < length hs \<Longrightarrow> log_slot ls i \<notin> set hs" "i < LOGSIZE \<Longrightarrow> log_slot ls i \<noteq> ls"
    "distinct (map (log_slot ls) [0..<length hs])" "distinct hs" "k \<in> set hs \<Longrightarrow> k \<notin> log_area ls m" "length hs \<le> LOGSIZE"
    "i < length hs \<Longrightarrow> i < m"
proof -
  have l: "length hs \<le> LOGSIZE" "set hs \<inter> log_area ls m = {}" "unat ls + LOGSIZE < 2 ^ 31" "length hs \<le> m"
    using assms by (simp_all add: loggable_def)
  show "i < length hs \<Longrightarrow> i < m" using l(4) by simp
  show "i < length hs \<Longrightarrow> i < LOGSIZE" "length hs \<le> LOGSIZE" using l(1) by simp_all
  show "ls \<notin> set hs" "i < length hs \<Longrightarrow> log_slot ls i \<notin> set hs" "k \<in> set hs \<Longrightarrow> k \<notin> log_area ls m"
    using l(2,4) by (auto simp: log_area_def)
  show "i < LOGSIZE \<Longrightarrow> log_slot ls i \<noteq> ls" by (rule log_slot_facts(1) [OF l(3)])
  show "distinct (map (log_slot ls) [0..<length hs])"
    using l(1) log_slot_facts(2) [OF l(3)] by (auto simp: distinct_map inj_on_def)
  show "distinct hs" using assms by (simp add: loggable_def)
qed

lemma commit_prefix_cases:
  assumes "prefix ws (commit_writes ls hs V d)"
  obtains (log) "prefix ws (map (\<lambda>i. (log_slot ls i, V (hs ! i))) [0..<length hs])"
    | (home) us where "ws = map (\<lambda>i. (log_slot ls i, V (hs ! i))) [0..<length hs] @ (ls, header hs (length hs) d) # us"
        "prefix us (map (\<lambda>h. (h, V h)) hs)"
    | (all) "ws = commit_writes ls hs V d"
  using assms by (auto simp: commit_writes_def prefix_append prefix_Cons)

lemma crash_header:
  assumes l: "loggable ls m hs" and d: "length (D ls) = BSIZE" "get32 (D ls) 0 = 0"
    and p: "prefix ws (commit_writes ls hs V (D ls))"
  shows "after_writes ws D ls = header hs (length hs) (D ls) \<or> get32 (after_writes ws D ls) 0 = 0"
  using p
proof (cases rule: commit_prefix_cases)
  case log
  then have "fst ` set ws \<subseteq> log_slot ls ` {..<length hs}" by (force dest!: set_mono_prefix)
  moreover have "ls \<notin> log_slot ls ` {..<length hs}" using loggableD(1,4) [OF l] by force
  ultimately have "after_writes ws D ls = D ls" by (intro after_writes_other) blast
  then show ?thesis using d(2) by simp
next
  case (home us)
  have "fst ` set us \<subseteq> set hs" using set_mono_prefix [OF home(2)] by auto
  then have "ls \<notin> fst ` set us" using loggableD(2) [OF l] by blast
  then show ?thesis by (simp add: home(1) after_writes_other)
next
  case all
  have "length (header hs (length hs) (D ls)) = BSIZE"
    using length_header [OF header_fits [OF loggableD(8) [OF l] d(1)]] d(1) by simp
  then show ?thesis using all get32_header(1) [of 0 "header hs (length hs) (D ls)" hs]
    by (simp add: commit_writes_def layout)
qed

lemma crash_before:
  \<comment> \<open>the header has not been written\<close>
  assumes l: "loggable ls m hs" and d: "get32 (D ls) 0 = 0"
    and p: "prefix ws (map (\<lambda>i. (log_slot ls i, V (hs ! i))) [0..<length hs])"
  shows "ls \<notin> fst ` set ws" "k \<notin> log_area ls m \<Longrightarrow> recovered ls (after_writes ws D) k = D k"
proof -
  note L = loggableD [OF l]
  have s: "fst ` set ws \<subseteq> log_slot ls ` {..<length hs}" using p by (force dest!: set_mono_prefix)
  have "ls \<notin> log_slot ls ` {..<length hs}" using L(1,4) by force
  then show n: "ls \<notin> fst ` set ws" using s by blast
  then have "recovered ls (after_writes ws D) = after_writes ws D" using d by (simp add: recovered_cleared after_writes_other)
  moreover have "log_slot ls ` {..<length hs} \<subseteq> log_area ls m" using L(9) by (auto simp: log_area_def)
  then have "after_writes ws D k = D k" if "k \<notin> log_area ls m" using s that by (intro after_writes_other) blast
  ultimately show "k \<notin> log_area ls m \<Longrightarrow> recovered ls (after_writes ws D) k = D k" by simp
qed

lemma crash_between:
  \<comment> \<open>the header has been written, and some of the blocks are home\<close>
  assumes l: "loggable ls m hs" and d: "length (D ls) = BSIZE"
    and w: "ws = map (\<lambda>i. (log_slot ls i, V (hs ! i))) [0..<length hs] @ (ls, header hs (length hs) (D ls)) # us"
    and p: "prefix us (map (\<lambda>h. (h, V h)) hs)" and k: "k \<notin> log_area ls m"
  shows "recovered ls (after_writes ws D) k = (if k \<in> set hs then V k else D k)"
proof -
  let ?n = "length hs" and ?h = "header hs (length hs) (D ls)" and ?D = "after_writes ws D"
  let ?A = "map (\<lambda>i. (log_slot ls i, V (hs ! i))) [0..<?n]"
  note L = loggableD [OF l]
  have A: "after_writes ?A D k = D k" by (rule after_writes_other) (use k L(9) in \<open>auto simp: log_area_def\<close>)
  have As: "after_writes ?A D (log_slot ls i) = V (hs ! i)" if "i < ?n" for i
    using after_writes_map [of "log_slot ls" "[0..<?n]" i "\<lambda>i. V (hs ! i)" D] L(5) that by simp
  have u: "fst ` set us \<subseteq> set hs" using set_mono_prefix [OF p] by auto
  have e: "?D k = ((after_writes ?A D)(ls := ?h)) k" if "k \<notin> set hs" for k
  proof -
    have "k \<notin> fst ` set us" using u that by blast
    then show ?thesis unfolding w by (simp add: after_writes_other)
  qed
  have "?D ls = ?h" using e L(2) by simp
  then have "logged ls ?D = hs" using logged_header [OF _ L(8) d] by (simp add: map_nth)
  moreover have "?D (log_slot ls i) = V (hs ! i)" if "i < ?n" for i
    using e [OF L(3)] As that L(1,4) by simp
  ultimately have "recovered ls ?D k = (if k \<in> set hs then V k else ?D k)"
    using installed_same [OF l, of ?D V k] by (simp add: recovered_def)
  moreover have "?D k = D k" if "k \<notin> set hs" using e [OF that] A k by (auto simp: log_area_def)
  ultimately show ?thesis by simp
qed

lemma commit_writes_all:
  assumes "loggable ls m hs" "k \<notin> log_area ls m"
  shows "after_writes (commit_writes ls hs V d) D k = (if k \<in> set hs then V k else D k)"
proof -
  let ?A = "map (\<lambda>i. (log_slot ls i, V (hs ! i))) [0..<length hs]" and ?B = "map (\<lambda>h. (h, V h)) hs"
  note L = loggableD [OF assms(1)]
  have k: "k \<noteq> ls" "k \<notin> fst ` set ?A" using assms(2) L(9) by (auto simp: log_area_def)
  then have "after_writes (commit_writes ls hs V d) D k = after_writes ?B ((after_writes ?A D)(ls := header hs (length hs) d)) k"
    by (simp add: commit_writes_def)
  moreover have "after_writes ?B E k = V k" if "k \<in> set hs" for E
    using after_writes_map [of "\<lambda>h. h" hs k V E] that L(6) by simp
  moreover have "after_writes ?B E k = E k" if "k \<notin> set hs" for E
    by (rule after_writes_other) (use that in \<open>simp add: image_image\<close>)
  moreover have "after_writes ?A D k = D k" by (rule after_writes_other [OF k(2)])
  ultimately show ?thesis using k(1) by simp
qed

lemma crash_recovers:
  assumes l: "loggable ls m hs" and d: "length (D ls) = BSIZE" "get32 (D ls) 0 = 0"
    and p: "prefix ws (commit_writes ls hs V (D ls))" and k: "k \<notin> log_area ls m"
  shows "recovered ls (after_writes ws D) k = (if ls \<in> fst ` set ws \<and> k \<in> set hs then V k else D k)"
  using p
proof (cases rule: commit_prefix_cases)
  case log
  then show ?thesis using crash_before [OF l _ log, of D] d(2) k by simp
next
  case (home us)
  then have "ls \<in> fst ` set ws" by force
  then show ?thesis using crash_between [of ls m hs D ws V us k] l home d(1) k by simp
next
  case all
  let ?h = "header hs (length hs) (D ls)"
  have "length ?h = BSIZE" using length_header [OF header_fits [OF loggableD(8) [OF l] d(1)]] d(1) by simp
  moreover have "after_writes ws D ls = header hs 0 ?h" using all by (simp add: commit_writes_def)
  ultimately have "recovered ls (after_writes ws D) = after_writes ws D"
    using get32_header(1) [of 0 ?h hs] by (simp add: recovered_cleared layout)
  moreover have "ls \<in> fst ` set ws" using all by (force simp: commit_writes_def)
  ultimately show ?thesis using commit_writes_all [OF l k, of V "D ls" D] all by simp
qed

lemma crash_loggable:
  assumes "loggable ls m hs" "length d = BSIZE"
    and "D ls = header hs (length hs) d \<or> get32 (D ls) 0 = 0"
  shows "\<exists>n. get32 (D ls) 0 = of_nat n \<and> n \<le> LOGSIZE \<and> loggable ls m (logged ls D)"
  using assms(3)
proof
  assume h: "D ls = header hs (length hs) d"
  note f = header_fits [OF loggableD(8) [OF assms(1)] assms(2)]
  have "logged ls D = hs" using logged_header [of D ls hs "length hs" d] h loggableD(8) [OF assms(1)] assms(2) by (simp add: map_nth)
  moreover have "get32 (D ls) 0 = of_nat (length hs)" unfolding h by (rule get32_header(1) [OF f])
  ultimately show ?thesis using assms(1) loggableD(8) [OF assms(1)] by auto
next
  assume z: "get32 (D ls) 0 = 0"
  then have "logged ls D = []" by (simp add: logged_def)
  then show ?thesis using z assms(1) by (intro exI [of _ 0]) (simp add: loggable_def layout)
qed

section \<open>The log as a client of the block store\<close>

definition one_more :: "store \<Rightarrow> 32 word \<Rightarrow> bool" where
  \<comment> \<open>the block can be read: it is not locked, and it is in use or not all buffers are\<close>
  "one_more s blk \<longleftrightarrow> unat blk < 2 ^ 31 \<and> \<not> s_locked s blk \<and> s_refs s blk \<noteq> - 1
     \<and> (s_refs s blk \<noteq> 0 \<or> card {k. s_refs s k \<noteq> 0} < NBUF)"

definition log_ok :: "32 word \<Rightarrow> 32 word \<Rightarrow> nat \<Rightarrow> 32 word list \<Rightarrow> logst \<Rightarrow> bool" where
  \<comment> \<open>the log in memory: \<open>hs\<close> are the home blocks of the transaction, and the log has room for \<open>m\<close>\<close>
  "log_ok dev ls m hs l \<longleftrightarrow> log_dev l = dev \<and> log_start l = ls \<and> lh_n (log_lh l) = int (length hs)
     \<and> take (length hs) (lh_block (log_lh l)) = hs \<and> loggable ls m hs"

definition pinned :: "32 word set \<Rightarrow> store \<Rightarrow> bool" where
  \<comment> \<open>the blocks of the transaction, and no others, are in use, each once; none is locked\<close>
  "pinned H s \<longleftrightarrow> (\<forall>k. s_refs s k = (if k \<in> H then 1 else 0)) \<and> (\<forall>k. \<not> s_locked s k)"

definition st_writes :: "(32 word \<times> byte list) list \<Rightarrow> store \<Rightarrow> store" where
  "st_writes ws s = s\<lparr>s_view := after_writes ws (s_view s), s_disk := after_writes ws (s_disk s), s_writes := s_writes s @ ws\<rparr>"

lemma st_writes_simps:
  "st_writes [] s = s" "st_writes ws' (st_writes ws s) = st_writes (ws @ ws') s"
  "st_write a (st_set a d s) = st_writes [(a, d)] s"
  "s_refs (st_writes ws s) = s_refs s" "s_locked (st_writes ws s) = s_locked s" "s_view (st_writes ws s) = after_writes ws (s_view s)"
  "s_disk (st_writes ws s) = after_writes ws (s_disk s)" "s_writes (st_writes ws s) = s_writes s @ ws"
  by (simp_all add: st_writes_def st_write_def st_set_def)

lemma log_ok_block: "log_ok dev ls m hs l \<Longrightarrow> i < length hs \<Longrightarrow> lh_block (log_lh l) ! i = hs ! i"
  by (metis log_ok_def nth_take)

lemma pinned_one_more:
  assumes "pinned H s" "finite H" "card H < NBUF" "unat k < 2 ^ 31"
  shows "one_more s k"
proof -
  have "{k. s_refs s k \<noteq> 0} = H" using assms(1) by (auto simp: pinned_def)
  then show ?thesis using assms by (simp add: one_more_def pinned_def)
qed

lemma pinned_one_more2:
  assumes "pinned H s" "finite H" "Suc (card H) < NBUF" "unat k < 2 ^ 31" "a \<noteq> k"
  shows "one_more (st_get a s) k"
proof -
  have e: "{k. s_refs (st_get a s) k \<noteq> 0} = insert a H" using assms(1) by (auto simp: pinned_def st_get_def)
  have "card (insert a H) < NBUF" using assms(2,3) by (simp add: card_insert_if)
  moreover have "\<not> s_locked (st_get a s) k" "s_refs (st_get a s) k \<noteq> - 1" using assms by (simp_all add: pinned_def st_get_def)
  ultimately show ?thesis unfolding one_more_def e using assms(4) by blast
qed

lemma pinned_writes [simp]: "pinned H (st_writes ws s) = pinned H s"
  by (simp add: pinned_def st_writes_simps)

locale block_store =
  fixes inv :: "world \<Rightarrow> bool" and st :: "world \<Rightarrow> store" and hdl :: "world \<Rightarrow> 32 word \<Rightarrow> nat \<Rightarrow> bool" and dev :: "32 word"
  assumes bread_law: "inv w \<Longrightarrow> one_more (st w) blk \<Longrightarrow>
      \<exists>b w'. runs (bread dev blk) w b w' \<and> inv w' \<and> io_same w w' \<and> hdl w' blk b
        \<and> (\<forall>k a. k \<noteq> blk \<longrightarrow> hdl w k a \<longrightarrow> hdl w' k a) \<and> st w' = st_get blk (st w)"
    and upd_law: "inv w \<Longrightarrow> hdl w blk b \<Longrightarrow> length (f (s_view (st w) blk)) = BSIZE \<Longrightarrow>
      \<exists>w'. runs (upd_data b f) w () w' \<and> inv w' \<and> io_same w w' \<and> (\<forall>k a. hdl w k a \<longrightarrow> hdl w' k a)
        \<and> st w' = st_set blk (f (s_view (st w) blk)) (st w)"
    and bwrite_law: "inv w \<Longrightarrow> hdl w blk b \<Longrightarrow> unat blk < 2 ^ 31 \<Longrightarrow>
      \<exists>w'. runs (bwrite b) w () w' \<and> inv w' \<and> io_same w w' \<and> (\<forall>k a. hdl w k a \<longrightarrow> hdl w' k a)
        \<and> st w' = st_write blk (st w)"
    and brelse_law: "inv w \<Longrightarrow> hdl w blk b \<Longrightarrow> (s_refs (st w) blk = 1 \<Longrightarrow> s_view (st w) blk = s_disk (st w) blk) \<Longrightarrow>
      \<exists>w'. runs (brelse b) w () w' \<and> inv w' \<and> io_same w w' \<and> (\<forall>k a. k \<noteq> blk \<longrightarrow> hdl w k a \<longrightarrow> hdl w' k a)
        \<and> st w' = st_put blk (st w)"
    and bunpin_law: "inv w \<Longrightarrow> hdl w blk b \<Longrightarrow> s_refs (st w) blk \<noteq> 1 \<Longrightarrow>
      \<exists>w'. runs (bunpin b) w () w' \<and> inv w' \<and> io_same w w' \<and> (\<forall>k a. hdl w k a \<longrightarrow> hdl w' k a)
        \<and> st w' = st_ref blk (- 1) (st w)"
    and data_law: "hdl w blk b \<Longrightarrow> b_data (bufs w ! b) = s_view (st w) blk"
    and length_law: "inv w \<Longrightarrow> length (s_view (st w) k) = BSIZE"
    and clean_law: "inv w \<Longrightarrow> s_refs (st w) k = 0 \<Longrightarrow> s_view (st w) k = s_disk (st w) k"
    and klog_law: "inv (w\<lparr>klog := l\<rparr>) = inv w" "st (w\<lparr>klog := l\<rparr>) = st w" "hdl (w\<lparr>klog := l\<rparr>) = hdl w"
begin

lemma read_two:
  assumes "inv w" "one_more (st w) a" "one_more (st_get a (st w)) h" "a \<noteq> h"
  obtains x w1 y w2 where "runs (bread dev a) w x w1" "runs (bread dev h) w1 y w2" "io_same w w1" "io_same w w2"
    "inv w2" "hdl w2 a x" "hdl w2 h y" "st w2 = st_get h (st_get a (st w))"
proof -
  obtain x w1 where 1: "runs (bread dev a) w x w1" "inv w1" "io_same w w1" "hdl w1 a x" "st w1 = st_get a (st w)"
    using bread_law [OF assms(1,2)] by blast
  moreover obtain y w2 where "runs (bread dev h) w1 y w2" "inv w2" "io_same w1 w2" "hdl w2 h y" "hdl w2 a x"
    "st w2 = st_get h (st w1)"
    using bread_law [OF 1(2), of h] 1(4,5) assms(3,4) by (metis (no_types))
  ultimately show ?thesis using that [of x w1 y w2] io_same_trans [OF 1(3)] by simp
qed

lemma write_block:
  assumes "inv w" "hdl w a x" "hdl w h y" "length d = BSIZE" "unat a < 2 ^ 31"
  obtains w' where "runs (andthen (upd_data x (\<lambda>_. d)) (bwrite x)) w () w'" "inv w'" "io_same w w'" "hdl w' a x" "hdl w' h y"
    "st w' = st_write a (st_set a d (st w))"
proof -
  obtain w1 where 1: "runs (upd_data x (\<lambda>_. d)) w () w1" "inv w1" "io_same w w1" "hdl w1 a x" "hdl w1 h y"
    "st w1 = st_set a d (st w)"
    using upd_law [OF assms(1,2), of "\<lambda>_. d"] assms(2-4) by blast
  obtain w2 where 2: "runs (bwrite x) w1 () w2" "inv w2" "io_same w1 w2" "hdl w2 a x" "hdl w2 h y" "st w2 = st_write a (st w1)"
    using bwrite_law [OF 1(2,4) assms(5)] 1(4,5) by blast
  show ?thesis by (rule that [of w2]) (use 1 2 runs_andthen [OF 1(1) 2(1)] io_same_trans [OF 1(3) 2(3)] in simp_all)
qed

lemma release_two:
  assumes "inv w" "hdl w a x" "hdl w h y" "a \<noteq> h"
    and "s_refs (st w) a = 1 \<Longrightarrow> s_view (st w) a = s_disk (st w) a" "s_refs (st w) h = 1 \<Longrightarrow> s_view (st w) h = s_disk (st w) h"
  obtains w' where "runs (andthen (brelse x) (brelse y)) w () w'" "inv w'" "io_same w w'" "st w' = st_put h (st_put a (st w))"
proof -
  obtain w1 where 1: "runs (brelse x) w () w1" "inv w1" "io_same w w1" "hdl w1 h y" "st w1 = st_put a (st w)"
    using brelse_law [OF assms(1,2,5)] assms(3) assms(4) [symmetric] by blast
  have "s_refs (st w1) h = 1 \<Longrightarrow> s_view (st w1) h = s_disk (st w1) h" using assms(4,6) by (simp add: 1(5) st_put_def)
  then obtain w2 where 2: "runs (brelse y) w1 () w2" "inv w2" "io_same w1 w2" "st w2 = st_put h (st w1)"
    using brelse_law [OF 1(2,4)] by blast
  show ?thesis by (rule that [of w2]) (use 1 2 runs_andthen [OF 1(1) 2(1)] io_same_trans [OF 1(3) 2(3)] in simp_all)
qed

lemma maybe_unpin:
  assumes "inv w" "hdl w h y" "hdl w a x" "s_refs (st w) h \<noteq> 1 \<or> recovering"
  obtains w' where "runs (if \<not> recovering then bunpin y else skip) w () w'" "inv w'" "io_same w w'" "hdl w' h y" "hdl w' a x"
    "st w' = (if recovering then st w else st_ref h (- 1) (st w))"
proof (cases recovering)
  case True
  then show ?thesis using that [of w] assms runs_ret [of "()" w] by simp
next
  case False
  then obtain w' where "runs (bunpin y) w () w' \<and> inv w' \<and> io_same w w' \<and> (\<forall>k a. hdl w k a \<longrightarrow> hdl w' k a)
      \<and> st w' = st_ref h (- 1) (st w)" using bunpin_law [OF assms(1,2)] assms(4) by blast
  then show ?thesis using that [of w'] assms(2,3) False by simp
qed

lemmas store_ops = st_get_def st_set_def st_write_def st_put_def st_ref_def

lemma andthen_assoc: "andthen m (andthen n k) = andthen (andthen m n) k"
  by (rule ext) (simp add: andthen_def bind_def split: res.split)

lemma copy_block:
  \<comment> \<open>the body of the loop of \<open>write_log\<close>\<close>
  assumes i: "inv w" and a: "one_more (st w) a" "s_refs (st w) a = 0" and h: "one_more (st w) h" "s_refs (st w) h \<noteq> 0"
    and ne: "a \<noteq> h" and l: "log_dev (klog w) = dev" "log_start (klog w) + of_nat t + 1 = a" "lh_block (log_lh (klog w)) ! t = h"
  shows "\<exists>w'. runs (write_one t) w () w' \<and> inv w' \<and> io_same w w' \<and> st w' = st_write a (st_set a (s_view (st w) h) (st w))"
proof -
  let ?d = "s_view (st w) h"
  have "one_more (st_get a (st w)) h" using h ne by (simp add: one_more_def st_get_def)
  then obtain to w1 src w2 where 2: "runs (bread dev a) w to w1" "runs (bread dev h) w1 src w2" "io_same w w1" "io_same w w2"
    "inv w2" "hdl w2 a to" "hdl w2 h src" "st w2 = st_get h (st_get a (st w))"
    using read_two [OF i a(1) _ ne] by blast
  have d: "b_data (bufs w2 ! src) = ?d" using data_law [OF 2(7)] by (simp add: 2(8) st_get_def)
  obtain w4 where 4: "runs (andthen (upd_data to (\<lambda>_. ?d)) (bwrite to)) w2 () w4" "inv w4" "io_same w2 w4"
    "hdl w4 a to" "hdl w4 h src" "st w4 = st_write a (st_set a ?d (st w2))"
    using write_block [OF 2(5-7), of ?d] length_law [OF i] a(1) unfolding one_more_def by blast
  have "s_refs (st w4) h \<noteq> 1" "s_view (st w4) a = s_disk (st w4) a" using ne h(2) by (simp_all add: 4(6) 2(8) store_ops)
  then obtain w6 where 6: "runs (andthen (brelse src) (brelse to)) w4 () w6" "inv w6" "io_same w4 w6"
    "st w6 = st_put a (st_put h (st w4))"
    using release_two [OF 4(2,5,4) ne [symmetric]] by blast
  have "runs (write_one t) w () w6"
    unfolding write_one_def log_block_def andthen_assoc [of "upd_data _ _"]
    apply (rule runs_bind_gets, simp)
    apply (rule runs_bind [of _ w to w1], use 2(1) l in simp)
    apply (rule runs_bind_gets, simp)
    apply (rule runs_bind [of _ w1 src w2], use 2(2) l io_same_sel(5) [OF 2(3)] in simp)
    by (rule runs_bind_gets, simp) (use runs_andthen [OF 4(1) 6(1)] d in simp)
  moreover have "st w6 = st_write a (st_set a ?d (st w))" using a ne h
    by (auto simp: 6(4) 4(6) 2(8) store_ops one_more_def fun_eq_iff intro!: store.equality)
  ultimately show ?thesis using 6(2) io_same_trans [OF 2(4) io_same_trans [OF 4(3) 6(3)]] by blast
qed

lemma install_block:
  \<comment> \<open>the body of the loop of \<open>install_trans\<close>\<close>
  assumes i: "inv w" and a: "one_more (st w) a" "s_refs (st w) a = 0" and h: "one_more (st_get a (st w)) h"
    and r: "s_refs (st w) h = (if recovering then 0 else 1)"
    and ne: "a \<noteq> h" and l: "log_dev (klog w) = dev" "log_start (klog w) + of_nat t + 1 = a" "lh_block (log_lh (klog w)) ! t = h"
  shows "\<exists>w'. runs (install_one recovering t) w () w' \<and> inv w' \<and> io_same w w'
     \<and> st w' = (st_write h (st_set h (s_view (st w) a) (st w)))\<lparr>s_refs := (s_refs (st w))(h := 0)\<rparr>"
proof -
  let ?d = "s_view (st w) a"
  obtain lb w1 db w2 where 2: "runs (bread dev a) w lb w1" "runs (bread dev h) w1 db w2" "io_same w w1" "io_same w w2"
    "inv w2" "hdl w2 a lb" "hdl w2 h db" "st w2 = st_get h (st_get a (st w))"
    using read_two [OF i a(1) h ne] by blast
  have d: "b_data (bufs w2 ! lb) = ?d" using data_law [OF 2(6)] by (simp add: 2(8) st_get_def)
  obtain w4 where 4: "runs (andthen (upd_data db (\<lambda>_. ?d)) (bwrite db)) w2 () w4" "inv w4" "io_same w2 w4"
    "hdl w4 h db" "hdl w4 a lb" "st w4 = st_write h (st_set h ?d (st w2))"
    using write_block [OF 2(5,7,6), of ?d] length_law [OF i] h unfolding one_more_def by blast
  have "s_refs (st w4) h \<noteq> 1 \<or> recovering" using ne r by (simp add: 4(6) 2(8) store_ops)
  then obtain w5 where 5: "runs (if \<not> recovering then bunpin db else skip) w4 () w5" "inv w5" "io_same w4 w5" "hdl w5 h db" "hdl w5 a lb"
    "st w5 = (if recovering then st w4 else st_ref h (- 1) (st w4))"
    using maybe_unpin [OF 4(2,4,5)] by blast
  have "s_view (st w5) a = s_disk (st w5) a" "s_view (st w5) h = s_disk (st w5) h" using ne clean_law [OF i a(2)]
    by (simp_all add: 5(6) 4(6) 2(8) store_ops)
  then obtain w7 where 7: "runs (andthen (brelse lb) (brelse db)) w5 () w7" "inv w7" "io_same w5 w7"
    "st w7 = st_put h (st_put a (st w5))"
    using release_two [OF 5(2,5,4) ne] by blast
  have "runs (install_one recovering t) w () w7"
    unfolding install_one_def log_block_def andthen_assoc [of "upd_data _ _"]
    apply (rule runs_bind_gets, simp)
    apply (rule runs_bind [of _ w lb w1], use 2(1) l in simp)
    apply (rule runs_bind_gets, simp)
    apply (rule runs_bind [of _ w1 db w2], use 2(2) l io_same_sel(5) [OF 2(3)] in simp)
    by (rule runs_bind_gets, simp) (use runs_andthen [OF 4(1) runs_andthen [OF 5(1) 7(1)]] d in simp)
  moreover have "st w7 = (st_write h (st_set h ?d (st w)))\<lparr>s_refs := (s_refs (st w))(h := 0)\<rparr>" using a ne h r
    by (auto simp: 7(4) 5(6) 4(6) 2(8) store_ops one_more_def fun_eq_iff intro!: store.equality)
  ultimately show ?thesis using 7(2) io_same_trans [OF 2(4) io_same_trans [OF 4(3) io_same_trans [OF 5(3) 7(3)]]] by blast
qed

lemma write_log_spec:
  assumes i: "inv w" and l: "log_ok dev ls m hs (klog w)" and p: "pinned (set hs) (st w)" and n: "length hs < NBUF"
  shows "\<exists>w'. runs write_log w () w' \<and> inv w' \<and> io_same w w'
     \<and> st w' = st_writes (map (\<lambda>j. (log_slot ls j, s_view (st w) (hs ! j))) [0..<length hs]) (st w)"
proof -
  let ?ws = "\<lambda>i. map (\<lambda>j. (log_slot ls j, s_view (st w) (hs ! j))) [0..<i]"
  let ?I = "\<lambda>i w'. inv w' \<and> io_same w w' \<and> st w' = st_writes (?ws i) (st w)"
  have lg: "loggable ls m hs" "log_start (klog w) = ls" "log_dev (klog w) = dev" "lh_n (log_lh (klog w)) = int (length hs)"
    using l by (simp_all add: log_ok_def)
  note L = loggableD [OF lg(1)]
  have u: "unat ls + LOGSIZE < 2 ^ 31" "\<forall>h \<in> set hs. unat h < 2 ^ 31" using lg(1) by (simp_all add: loggable_def)
  have "\<exists>w'. runs write_log w () w' \<and> ?I (length hs) w'"
    unfolding write_log_def
  proof (rule runs_bind_gets2)
    show "nat (lh_n (log_lh (klog (w\<lparr>others := os\<rparr>)))) = length hs" for os using lg(4) by simp
    show "\<exists>w'. runs (for_each [0..<length hs] write_one) w () w' \<and> ?I (length hs) w'"
    proof (rule runs_for_each [of 0 _ ?I])
      fix i w' assume i: "i < length hs" and I: "?I i w'"
      let ?a = "log_slot ls i" and ?h = "hs ! i"
      have k: "klog w' = klog w" using io_same_sel(5) I by blast
      have pw: "pinned (set hs) (st w')" using I p by simp
      have c: "card (set hs) < NBUF" using n L(6) by (simp add: distinct_card)
      have oa: "one_more (st w') ?a" by (rule pinned_one_more [OF pw _ c]) (use log_slot_facts(3) [OF u(1)] L(1) i in auto)
      have oh: "one_more (st w') ?h" by (rule pinned_one_more [OF pw _ c]) (use u(2) i in auto)
      have ra: "s_refs (st w') ?a = 0" "s_refs (st w') ?h \<noteq> 0" using pw L(1,3) i by (simp_all add: pinned_def)
      have ne: "?a \<noteq> ?h" using L(1,3) i nth_mem by metis
      have "?h \<notin> fst ` set (?ws i)" using L(1,3) i nth_mem [OF i] by force
      then have v: "s_view (st w') ?h = s_view (st w) ?h" using I by (simp add: st_writes_simps after_writes_other)
      have w: "?ws (Suc i) = ?ws i @ [(?a, s_view (st w) ?h)]" by simp
      show "\<exists>w''. runs (write_one i) w' () w'' \<and> ?I (Suc i) w''"
        using copy_block [of w' ?a ?h i, OF _ oa ra(1) oh ra(2) ne] I k lg log_ok_block [OF l i] v io_same_trans
        by (auto simp: st_writes_simps w log_slot_def)
    qed (use i st_writes_simps(1) in auto)
  qed
  then show ?thesis by simp
qed

lemma install_spec:
  assumes i: "inv w" and l: "log_ok dev ls m hs (klog w)" and p: "pinned (if recovering then {} else set hs) (st w)" and n: "recovering \<or> length hs < NBUF"
  shows "\<exists>w'. runs (install_trans recovering) w () w' \<and> inv w' \<and> io_same w w'
     \<and> st w' = (st_writes (map (\<lambda>j. (hs ! j, s_view (st w) (log_slot ls j))) [0..<length hs]) (st w))\<lparr>s_refs := (\<lambda>_. 0)\<rparr>"
proof -
  let ?ws = "\<lambda>i. map (\<lambda>j. (hs ! j, s_view (st w) (log_slot ls j))) [0..<i]"
  let ?I = "\<lambda>i w'. inv w' \<and> io_same w w' \<and>
     st w' = (st_writes (?ws i) (st w))\<lparr>s_refs := (\<lambda>k. if k \<in> set (drop i hs) \<and> \<not> recovering then 1 else 0)\<rparr>"
  have lg: "loggable ls m hs" "log_start (klog w) = ls" "log_dev (klog w) = dev" "lh_n (log_lh (klog w)) = int (length hs)"
    using l by (simp_all add: log_ok_def)
  note L = loggableD [OF lg(1)]
  have u: "unat ls + LOGSIZE < 2 ^ 31" "\<forall>h \<in> set hs. unat h < 2 ^ 31" using lg(1) by (simp_all add: loggable_def)
  have "\<exists>w'. runs (install_trans recovering) w () w' \<and> ?I (length hs) w'"
    unfolding install_trans_def
  proof (rule runs_bind_gets2)
    show "nat (lh_n (log_lh (klog (w\<lparr>others := os\<rparr>)))) = length hs" for os using lg(4) by simp
    show "\<exists>w'. runs (for_each [0..<length hs] (install_one recovering)) w () w' \<and> ?I (length hs) w'"
    proof (rule runs_for_each [of 0 _ ?I])
      fix i w' assume i: "i < length hs" and I: "?I i w'"
      let ?a = "log_slot ls i" and ?h = "hs ! i" and ?H = "if recovering then {} else set (drop i hs)"
      have k: "klog w' = klog w" using io_same_sel(5) I by blast
      have pw: "pinned ?H (st w')" using I p by (simp add: pinned_def st_writes_simps)
      have "card (set (drop i hs)) \<le> length hs - i" by (metis card_length length_drop)
      then have c: "card ?H < NBUF" using n by (auto simp: layout)
      have ub: "unat ?a < 2 ^ 31" "unat ?h < 2 ^ 31" using log_slot_facts(3) [OF u(1)] L(1) u(2) i by auto
      have ne: "?a \<noteq> ?h" using L(1,3) i nth_mem by metis
      have oa: "one_more (st w') ?a" by (rule pinned_one_more [OF pw _ c ub(1)]) simp
      have dr: "drop i hs = ?h # drop (Suc i) hs" "?h \<notin> set (drop (Suc i) hs)"
        using i L(6) by (auto simp: Cons_nth_drop_Suc distinct_conv_nth in_set_conv_nth)
      have ra: "s_refs (st w') ?a = 0" "s_refs (st w') ?h = (if recovering then 0 else 1)"
        using pw L(1,3) i dr in_set_dropD [of ?a i hs] by (auto simp: pinned_def)
      have oh: "one_more (st_get ?a (st w')) ?h"
      proof (cases recovering)
        case True
        then show ?thesis using pinned_one_more2 [OF pw _ _ ub(2) ne] by (simp add: layout)
      next
        case False
        then show ?thesis using pw ub(2) ra(2) ne by (simp add: one_more_def pinned_def st_get_def)
      qed
      have "?a \<notin> fst ` set (?ws i)" using L(1,3) i by force
      then have v: "s_view (st w') ?a = s_view (st w) ?a" using I by (simp add: st_writes_simps after_writes_other)
      have w: "?ws (Suc i) = ?ws i @ [(?h, s_view (st w) ?a)]" by simp
      obtain w'' where "runs (install_one recovering i) w' () w''" "inv w''" "io_same w' w''"
        "st w'' = (st_writes [(?h, s_view (st w) ?a)] (st w'))\<lparr>s_refs := (s_refs (st w'))(?h := 0)\<rparr>"
        using install_block [of w' ?a ?h recovering i, OF _ oa ra(1) oh ra(2) ne] I k lg log_ok_block [OF l i] v
        by (auto simp: st_writes_simps log_slot_def)
      moreover from this have "?I (Suc i) w''"
        using I dr io_same_trans [of w w' w''] unfolding w by (auto simp: st_writes_def fun_eq_iff)
      ultimately show "\<exists>w''. runs (install_one recovering i) w' () w'' \<and> ?I (Suc i) w''" by blast
    qed (use i p in \<open>auto simp: st_writes_simps pinned_def intro!: store.equality\<close>)
  qed
  then show ?thesis by simp
qed

lemma write_head_spec:
  assumes i: "inv w" and l: "log_dev (klog w) = dev" "log_start (klog w) = ls" "lh_n (log_lh (klog w)) = int n" "n \<le> LOGSIZE"
    and o: "one_more (st w) ls" "s_refs (st w) ls = 0"
  shows "\<exists>w'. runs write_head w () w' \<and> inv w' \<and> io_same w w'
     \<and> st w' = st_writes [(ls, header (lh_block (log_lh (klog w))) n (s_view (st w) ls))] (st w)"
proof -
  let ?hs = "lh_block (log_lh (klog w))" and ?d = "put32 (s_view (st w) ls) 0 (of_nat n)"
  let ?f = "\<lambda>i. fold (\<lambda>i d. put32 d (Suc i) (?hs ! i)) [0..<i] ?d"
  have len: "length (s_view (st w) ls) = BSIZE" by (rule length_law [OF i])
  have fit: "4 * Suc n \<le> BSIZE" using l(4) by (simp add: layout)
  have ln: "length (?f i) = BSIZE" if "i \<le> n" for i using header_fold(1) [of i ?d ?hs] that len fit by simp
  obtain b w1 where 1: "runs (bread dev ls) w b w1" "inv w1" "io_same w w1" "hdl w1 ls b" "st w1 = st_get ls (st w)"
    using bread_law [OF i o(1)] by blast
  have v1: "s_view (st w1) ls = s_view (st w) ls" by (simp add: 1(5) st_get_def)
  obtain w2 where 2: "runs (upd_data b (\<lambda>d. put32 d 0 (word_of_int (lh_n (log_lh (klog w)))))) w1 () w2" "inv w2" "io_same w1 w2"
    "hdl w2 ls b" "st w2 = st_set ls ?d (st w1)"
    using upd_law [OF 1(2,4), of "\<lambda>d. put32 d 0 (word_of_int (lh_n (log_lh (klog w))))"] 1(4) v1 len fit l(3) by auto
  let ?I = "\<lambda>i w'. inv w' \<and> io_same w w' \<and> hdl w' ls b \<and> st w' = st_set ls (?f i) (st w1)"
  have "\<exists>w3. runs (for_each [0..<n] (\<lambda>i. bind (log_block i) (\<lambda>v. upd_data b (\<lambda>d. put32 d (Suc i) v)))) w2 () w3 \<and> ?I n w3"
  proof (rule runs_for_each [of 0 n ?I])
    fix i w' assume n: "i < n" and I: "?I i w'"
    have "s_view (st w') ls = ?f i" using I by (simp add: st_set_def)
    then obtain w'' where u: "runs (upd_data b (\<lambda>d. put32 d (Suc i) (?hs ! i))) w' () w''" "inv w''" "io_same w' w''" "hdl w'' ls b"
      "st w'' = st_set ls (?f (Suc i)) (st w')"
      using upd_law [of w' ls b "\<lambda>d. put32 d (Suc i) (?hs ! i)"] I ln [of "Suc i"] n by auto
    have "klog w' = klog w" using io_same_sel(5) I by blast
    then have "runs (bind (log_block i) (\<lambda>v. upd_data b (\<lambda>d. put32 d (Suc i) v))) w' () w''"
      unfolding log_block_def by (intro runs_bind_gets) (use u(1) in simp_all)
    moreover have "?I (Suc i) w''" using u I io_same_trans by (auto simp: st_set_def)
    ultimately show "\<exists>w''. runs (bind (log_block i) (\<lambda>v. upd_data b (\<lambda>d. put32 d (Suc i) v))) w' () w'' \<and> ?I (Suc i) w''" by blast
  qed (use 2 io_same_trans [OF 1(3)] in auto)
  then obtain w3 where 3: "runs (for_each [0..<n] (\<lambda>i. bind (log_block i) (\<lambda>v. upd_data b (\<lambda>d. put32 d (Suc i) v)))) w2 () w3"
    "inv w3" "io_same w w3" "hdl w3 ls b" "st w3 = st_set ls (?f n) (st w1)" by blast
  obtain w4 where 4: "runs (bwrite b) w3 () w4" "inv w4" "io_same w3 w4" "hdl w4 ls b" "st w4 = st_write ls (st w3)"
    using bwrite_law [OF 3(2,4)] 3(4) o(1) unfolding one_more_def by blast
  have "s_view (st w4) ls = s_disk (st w4) ls" by (simp add: 4(5) st_write_def)
  then obtain w5 where 5: "runs (brelse b) w4 () w5" "inv w5" "io_same w4 w5" "st w5 = st_put ls (st w4)"
    using brelse_law [OF 4(2,4)] by blast
  have "runs write_head w () w5" unfolding write_head_def
    apply (rule runs_bind_gets, simp)
    apply (rule runs_bind [of _ w b w1], use 1(1) l in simp)
    by (use runs_andthen [OF 2(1) runs_andthen [OF 3(1) runs_andthen [OF 4(1) 5(1)]]] l(3) in simp)
  moreover have "st w5 = st_writes [(ls, header ?hs n (s_view (st w) ls))] (st w)" using o
    by (auto simp: 5(4) 4(5) 3(5) 1(5) store_ops st_writes_def header_def one_more_def fun_eq_iff intro!: store.equality)
  ultimately show ?thesis using 5(2) io_same_trans [OF 3(3) io_same_trans [OF 4(3) 5(3)]] by blast
qed

lemma header_cong: "(\<And>i. i < n \<Longrightarrow> hs ! i = hs' ! i) \<Longrightarrow> header hs n d = header hs' n d"
  unfolding header_def by (rule fold_cong) auto

lemma set_lh_n_runs: "runs (set_lh_n n) w () (w\<lparr>klog := (klog w)\<lparr>log_lh := (log_lh (klog w))\<lparr>lh_n := n\<rparr>\<rparr>\<rparr>)"
  unfolding set_lh_n_def by (rule runs_eqI) (simp add: upd_log_def run_simps)

lemma commit_spec:
  assumes i: "inv w" and l: "log_ok dev ls m hs (klog w)" and p: "pinned (set hs) (st w)" and n: "hs \<noteq> []" "length hs < NBUF"
  shows "\<exists>w'. runs commit w () w' \<and> inv w' \<and> klog w' = (klog w)\<lparr>log_lh := (log_lh (klog w))\<lparr>lh_n := 0\<rparr>\<rparr>
     \<and> st w' = (st_writes (commit_writes ls hs (s_view (st w)) (s_disk (st w) ls)) (st w))\<lparr>s_refs := (\<lambda>_. 0)\<rparr>"
proof -
  let ?V = "s_view (st w)" and ?bs = "lh_block (log_lh (klog w))" and ?n = "length hs"
  let ?A = "map (\<lambda>j. (log_slot ls j, ?V (hs ! j))) [0..<?n]" and ?B = "map (\<lambda>h. (h, ?V h)) hs"
  have lg: "loggable ls m hs" "log_start (klog w) = ls" "log_dev (klog w) = dev" "lh_n (log_lh (klog w)) = int ?n"
    "take ?n ?bs = hs"
    using l by (simp_all add: log_ok_def)
  note L = loggableD [OF lg(1)]
  have fin: "finite (set hs)" "card (set hs) < NBUF" "unat ls < 2 ^ 31"
    using n(2) lg(1) L(6) by (simp_all add: distinct_card loggable_def)
  have r0: "s_refs (st w) ls = 0" using p L(2) by (simp add: pinned_def)
  obtain w1 where 1: "runs write_log w () w1" "inv w1" "io_same w w1" "st w1 = st_writes ?A (st w)"
    using write_log_spec [OF i l p n(2)] by blast
  have k1: "klog w1 = klog w" by (rule io_same_sel(5) [OF 1(3)])
  have "ls \<notin> fst ` set ?A" using L(1,4) by force
  then have v1: "s_view (st w1) ls = s_disk (st w) ls"
    using clean_law [OF i r0] by (simp add: 1(4) st_writes_simps after_writes_other)
  let ?h = "header ?bs ?n (s_disk (st w) ls)"
  obtain w2 where 2: "runs write_head w1 () w2" "inv w2" "io_same w1 w2" "st w2 = st_writes [(ls, ?h)] (st w1)"
    using write_head_spec [OF 1(2), of ls ?n] k1 lg L(8) v1 1(4) r0 pinned_one_more [OF _ fin, of "st w1"] p
    by (auto simp: st_writes_simps)
  have k2: "klog w2 = klog w" using io_same_sel(5) [OF 2(3)] k1 by simp
  have s2: "st w2 = st_writes (?A @ [(ls, ?h)]) (st w)" by (simp add: 2(4) 1(4) st_writes_simps)
  have "s_view (st w2) (log_slot ls j) = ?V (hs ! j)" if "j < ?n" for j
    using after_writes_map [of "log_slot ls" "[0..<?n]" j "\<lambda>j. ?V (hs ! j)"] that L(1,4,5) by (simp add: s2 st_writes_simps)
  then have B: "map (\<lambda>j. (hs ! j, s_view (st w2) (log_slot ls j))) [0..<?n] = ?B"
    by (intro nth_equalityI) simp_all
  obtain w3 where 3: "runs (install_trans False) w2 () w3" "inv w3" "io_same w2 w3"
    "st w3 = (st_writes ?B (st w2))\<lparr>s_refs := (\<lambda>_. 0)\<rparr>"
    using install_spec [OF 2(2), of ls m hs False] k2 l p n(2) B by (auto simp: s2)
  let ?l = "(klog w)\<lparr>log_lh := (log_lh (klog w))\<lparr>lh_n := 0\<rparr>\<rparr>" and ?w4 = "w3\<lparr>klog := (klog w)\<lparr>log_lh := (log_lh (klog w))\<lparr>lh_n := 0\<rparr>\<rparr>\<rparr>"
  have k3: "klog w3 = klog w" using io_same_sel(5) [OF 3(3)] k2 by simp
  have 4: "runs (set_lh_n 0) w3 () ?w4" using set_lh_n_runs [of 0 w3] k3 by simp
  have "ls \<notin> fst ` set ?B" using L(2) by force
  then have v3: "s_view (st ?w4) ls = ?h" by (simp add: klog_law 3(4) s2 st_writes_simps after_writes_other)
  have p4: "pinned {} (st ?w4)" using p by (simp add: klog_law 3(4) s2 pinned_def st_writes_simps)
  obtain w5 where 5: "runs write_head ?w4 () w5" "inv w5" "io_same ?w4 w5" "st w5 = st_writes [(ls, header ?bs 0 ?h)] (st w3)"
    using write_head_spec [of ?w4 ls 0] 3(2) lg v3 pinned_one_more [OF p4 _ _ fin(3)] p4
    by (auto simp: klog_law pinned_def layout)
  have "runs commit w () w5" unfolding commit_def
    by (rule runs_bind_gets, simp)
      (use n(1) lg(4) runs_andthen [OF 1(1) runs_andthen [OF 2(1) runs_andthen [OF 3(1) runs_andthen [OF 4 5(1)]]]] in simp)
  moreover have "?h = header hs ?n (s_disk (st w) ls)" "header ?bs 0 ?h = header hs 0 ?h"
    by (rule header_cong, rule log_ok_block [OF l], assumption) (rule header_cong, simp)
  then have "st w5 = (st_writes (commit_writes ls hs ?V (s_disk (st w) ls)) (st w))\<lparr>s_refs := (\<lambda>_. 0)\<rparr>"
    by (simp add: 5(4) 3(4) s2 commit_writes_def st_writes_def)
  ultimately show ?thesis using 5(2) io_same_sel(5) [OF 5(3)] by auto
qed

lemma read_head_spec:
  assumes i: "inv w" and l: "log_dev (klog w) = dev" "log_start (klog w) = ls" "length (lh_block (log_lh (klog w))) = LOGSIZE"
    and p: "pinned {} (st w)" and u: "unat ls < 2 ^ 31"
    and n: "get32 (s_disk (st w) ls) 0 = of_nat n" "n \<le> LOGSIZE"
  shows "\<exists>w'. runs read_head w () w' \<and> inv w' \<and> st w' = st w
     \<and> klog w' = (klog w)\<lparr>log_lh := \<lparr>lh_n = int n, lh_block = logged ls (s_disk (st w)) @ drop n (lh_block (log_lh (klog w)))\<rparr>\<rparr>"
proof -
  let ?d = "s_disk (st w) ls" and ?bs = "lh_block (log_lh (klog w))"
  have "s_refs (st w) ls = 0" using p by (simp add: pinned_def)
  then have v: "s_view (st w) ls = ?d" by (rule clean_law [OF i])
  obtain b w1 where 1: "runs (bread dev ls) w b w1" "inv w1" "io_same w w1" "hdl w1 ls b" "st w1 = st_get ls (st w)"
    using bread_law [OF i pinned_one_more [OF p _ _ u]] by (auto simp: layout)
  have d: "b_data (bufs w1 ! b) = ?d" using data_law [OF 1(4)] v by (simp add: 1(5) st_get_def)
  have k1: "klog w1 = klog w" by (rule io_same_sel(5) [OF 1(3)])
  let ?l = "\<lambda>i. (klog w)\<lparr>log_lh := \<lparr>lh_n = int n, lh_block = map (\<lambda>j. get32 ?d (Suc j)) [0..<i] @ drop i ?bs\<rparr>\<rparr>"
  let ?I = "\<lambda>i w'. w' = w1\<lparr>klog := ?l i\<rparr>"
  let ?m = "\<lambda>i. if LOGSIZE \<le> i then stop Fault else
        modify (upd_log (\<lambda>l. l\<lparr>log_lh := (log_lh l)\<lparr>lh_block := (lh_block (log_lh l))[i := get32 ?d (Suc i)]\<rparr>\<rparr>))"
  have sn: "sint (get32 ?d 0) = int n" using n sint_small by simp
  have e: "(log_lh (klog w))\<lparr>lh_n := int n\<rparr> = \<lparr>lh_n = int n, lh_block = ?bs\<rparr>" by (cases "log_lh (klog w)") simp
  have 2: "runs (set_lh_n (sint (get32 ?d 0))) w1 () (w1\<lparr>klog := ?l 0\<rparr>)"
    using set_lh_n_runs [of "int n" w1] unfolding k1 e by (simp add: sn)
  have "\<exists>w'. runs (for_each [0..<n] ?m) (w1\<lparr>klog := ?l 0\<rparr>) () w' \<and> ?I n w'"
  proof (rule runs_for_each [of 0 n ?I])
    fix i w' assume b: "i < n" and I: "?I i w'"
    have e: "(map (\<lambda>j. get32 ?d (Suc j)) [0..<i] @ drop i ?bs)[i := get32 ?d (Suc i)] =
        map (\<lambda>j. get32 ?d (Suc j)) [0..<Suc i] @ drop (Suc i) ?bs"
      using b n(2) l(3) by (simp add: list_update_append Cons_nth_drop_Suc [symmetric])
    have "runs (?m i) w' () (upd_log (\<lambda>l. l\<lparr>log_lh := (log_lh l)\<lparr>lh_block := (lh_block (log_lh l))[i := get32 ?d (Suc i)]\<rparr>\<rparr>) w')"
      using b n(2) by (intro runs_eqI) (simp add: run_simps upd_log_def)
    then show "\<exists>w''. runs (?m i) w' () w'' \<and> ?I (Suc i) w''" using I e by (auto simp: upd_log_def)
  qed simp_all
  then have 3: "runs (for_each [0..<nat (sint (get32 ?d 0))] ?m) (w1\<lparr>klog := ?l 0\<rparr>) () (w1\<lparr>klog := ?l n\<rparr>)" by (simp add: sn)
  have "s_view (st w1) ls = s_disk (st w1) ls" using v by (simp add: 1(5) st_get_def)
  then obtain w4 where 4: "runs (brelse b) (w1\<lparr>klog := ?l n\<rparr>) () w4" "inv w4" "io_same (w1\<lparr>klog := ?l n\<rparr>) w4"
    "st w4 = st_put ls (st w1)"
    using brelse_law [of "w1\<lparr>klog := ?l n\<rparr>" ls b] 1(2,4) by (auto simp: klog_law)
  have "runs read_head w () w4" unfolding read_head_def
    apply (rule runs_bind_gets, simp)
    apply (rule runs_bind [of _ w b w1], use 1(1) l in simp)
    by (rule runs_bind_gets, simp) (unfold d, rule runs_andthen [OF 2 runs_andthen [OF 3 4(1)]])
  moreover have "st w4 = st w" using p
    by (auto simp: 4(4) 1(5) store_ops pinned_def fun_eq_iff intro!: store.equality)
  moreover have "klog w4 = ?l n" using io_same_sel(5) [OF 4(3)] by simp
  ultimately show ?thesis using 4(2) by (auto simp: logged_def sn)
qed

lemma recover_spec:
  assumes i: "inv w" and l: "log_dev (klog w) = dev" "log_start (klog w) = ls" "length (lh_block (log_lh (klog w))) = LOGSIZE"
    and p: "pinned {} (st w)" and n: "get32 (s_disk (st w) ls) 0 = of_nat n" "n \<le> LOGSIZE"
    and g: "loggable ls m (logged ls (s_disk (st w)))"
  shows "\<exists>w'. runs recover_from_log w () w' \<and> inv w' \<and> pinned {} (st w') \<and> get32 (s_disk (st w') ls) 0 = 0
     \<and> lh_n (log_lh (klog w')) = 0 \<and> (\<forall>k. k \<noteq> ls \<longrightarrow> s_disk (st w') k = recovered ls (s_disk (st w)) k)"
proof -
  let ?hs = "logged ls (s_disk (st w))" and ?D = "s_disk (st w)"
  have u: "unat ls < 2 ^ 31" using g by (simp add: loggable_def)
  have ln: "length ?hs = n" using n sint_small [of n] by (simp add: logged_def)
  note L = loggableD [OF g]
  obtain w1 where 1: "runs read_head w () w1" "inv w1" "st w1 = st w"
    "klog w1 = (klog w)\<lparr>log_lh := \<lparr>lh_n = int n, lh_block = ?hs @ drop n (lh_block (log_lh (klog w)))\<rparr>\<rparr>"
    using read_head_spec [OF i l p u n(1,2)] by blast
  have lo: "log_ok dev ls m ?hs (klog w1)" using l g ln by (simp add: log_ok_def 1(4))
  have vd: "s_view (st w) = ?D" using clean_law [OF i] p by (auto simp: pinned_def)
  let ?B = "map (\<lambda>j. (?hs ! j, ?D (log_slot ls j))) [0..<length ?hs]"
  obtain w2 where 2: "runs (install_trans True) w1 () w2" "inv w2" "io_same w1 w2" "st w2 = (st_writes ?B (st w))\<lparr>s_refs := (\<lambda>_. 0)\<rparr>"
    using install_spec [OF 1(2) lo, of True] p vd by (auto simp: 1(3))
  let ?l = "(klog w1)\<lparr>log_lh := (log_lh (klog w1))\<lparr>lh_n := 0\<rparr>\<rparr>"
  have k2: "klog w2 = klog w1" by (rule io_same_sel(5) [OF 2(3)])
  have 3: "runs (set_lh_n 0) w2 () (w2\<lparr>klog := ?l\<rparr>)" using set_lh_n_runs [of 0 w2] k2 by simp
  have p3: "pinned {} (st (w2\<lparr>klog := ?l\<rparr>))" using p by (simp add: klog_law 2(4) pinned_def st_writes_simps)
  let ?h = "header (lh_block (log_lh ?l)) 0 (s_view (st w2) ls)"
  obtain w4 where 4: "runs write_head (w2\<lparr>klog := ?l\<rparr>) () w4" "inv w4" "io_same (w2\<lparr>klog := ?l\<rparr>) w4"
    "st w4 = st_writes [(ls, ?h)] (st w2)"
    using write_head_spec [of "w2\<lparr>klog := ?l\<rparr>" ls 0] 2(2) l pinned_one_more [OF p3 _ _ u] p3
    by (auto simp: klog_law pinned_def 1(4) layout)
  have "runs recover_from_log w () w4" unfolding recover_from_log_def
    by (rule runs_andthen [OF 1(1) runs_andthen [OF 2(1) runs_andthen [OF 3 4(1)]]])
  moreover have "pinned {} (st w4)" using p3 by (simp add: 4(4) klog_law)
  moreover have "get32 ?h 0 = 0" using get32_header(1) [of 0 "s_view (st w2) ls"] length_law [OF 2(2), of ls] by (simp add: layout)
  then have "get32 (s_disk (st w4) ls) 0 = 0" by (simp add: 4(4) st_writes_simps)
  moreover have "lh_n (log_lh (klog w4)) = 0" using io_same_sel(5) [OF 4(3)] by simp
  moreover have "s_disk (st w4) k = recovered ls ?D k" if "k \<noteq> ls" for k
    using that writes_installed [OF g order_refl, of ?D]
    by (simp add: 4(4) 2(4) st_writes_simps recovered_def installed_def del: fun_upd_apply) (simp add: fun_upd_apply)
  ultimately show ?thesis using 4(2) by blast
qed

end

section \<open>The buffer cache is a block store\<close>

lemma length_view: "bcache_inv p dev w \<Longrightarrow> length (view dev w k) = BSIZE"
  using slot_Some [of dev k w] by (auto simp: view_def bcache_inv_def buf_ok_def split: option.split)

lemma view_clean:
  assumes "bcache_inv p dev w" "refs dev w k = 0"
  shows "view dev w k = ddisk w k"
proof (cases "slot dev k w")
  case (Some b)
  then have "b < NBUF" "holds dev k (bufs w) b" by (auto dest: slot_Some)
  then show ?thesis using assms Some by (auto simp: view_def refs_def bcache_inv_def buf_ok_def holds_def)
qed (simp add: view_def)

lemma klog_irrelevant:
  "bcache_inv p dev (w\<lparr>klog := l\<rparr>) = bcache_inv p dev w" "store_of dev (w\<lparr>klog := l\<rparr>) = store_of dev w"
  "handle p dev (w\<lparr>klog := l\<rparr>) = handle p dev w"
proof -
  have s: "slot dev k (w\<lparr>klog := l\<rparr>) = slot dev k w" for k by (simp add: slot_def)
  show "bcache_inv p dev (w\<lparr>klog := l\<rparr>) = bcache_inv p dev w" by (simp add: bcache_inv_def buf_ok_def)
  show "store_of dev (w\<lparr>klog := l\<rparr>) = store_of dev w"
    by (auto simp: store_of_def fun_eq_iff view_def refs_def locked_block_def s split: option.split)
  show "handle p dev (w\<lparr>klog := l\<rparr>) = handle p dev w" by (simp add: handle_def fun_eq_iff owned_def s)
qed

interpretation bc: block_store "bcache_inv p dev" "store_of dev" "handle p dev" dev for p dev
proof unfold_locales
  show "\<exists>b w'. runs (bread dev blk) w b w' \<and> bcache_inv p dev w' \<and> io_same w w' \<and> handle p dev w' blk b
      \<and> (\<forall>k a. k \<noteq> blk \<longrightarrow> handle p dev w k a \<longrightarrow> handle p dev w' k a) \<and> store_of dev w' = st_get blk (store_of dev w)"
    if "bcache_inv p dev w" "one_more (store_of dev w) blk" for w blk
    using bread_store [OF that(1)] that(2) by (simp add: one_more_def)
  show "\<exists>w'. runs (upd_data b f) w () w' \<and> bcache_inv p dev w' \<and> io_same w w' \<and> (\<forall>k a. handle p dev w k a \<longrightarrow> handle p dev w' k a)
      \<and> store_of dev w' = st_set blk (f (s_view (store_of dev w) blk)) (store_of dev w)"
    if "bcache_inv p dev w" "handle p dev w blk b" "length (f (s_view (store_of dev w) blk)) = BSIZE" for w blk b f
    using upd_data_spec [OF that(1,2), of f] that(3) by (auto simp: store_of_def)
  show "\<exists>w'. runs (bwrite b) w () w' \<and> bcache_inv p dev w' \<and> io_same w w' \<and> (\<forall>k a. handle p dev w k a \<longrightarrow> handle p dev w' k a)
      \<and> store_of dev w' = st_write blk (store_of dev w)"
    if "bcache_inv p dev w" "handle p dev w blk b" "unat blk < 2 ^ 31" for w blk b
    by (rule bwrite_spec [OF that])
  show "\<exists>w'. runs (brelse b) w () w' \<and> bcache_inv p dev w' \<and> io_same w w'
      \<and> (\<forall>k a. k \<noteq> blk \<longrightarrow> handle p dev w k a \<longrightarrow> handle p dev w' k a) \<and> store_of dev w' = st_put blk (store_of dev w)"
    if "bcache_inv p dev w" "handle p dev w blk b"
      "s_refs (store_of dev w) blk = 1 \<Longrightarrow> s_view (store_of dev w) blk = s_disk (store_of dev w) blk" for w blk b
    by (rule brelse_spec [OF that])
  show "\<exists>w'. runs (bunpin b) w () w' \<and> bcache_inv p dev w' \<and> io_same w w' \<and> (\<forall>k a. handle p dev w k a \<longrightarrow> handle p dev w' k a)
      \<and> store_of dev w' = st_ref blk (- 1) (store_of dev w)"
    if "bcache_inv p dev w" "handle p dev w blk b" "s_refs (store_of dev w) blk \<noteq> 1" for w blk b
    using pin_spec(2) [OF that] by blast
qed (simp_all add: handle_data klog_irrelevant, simp_all add: length_view view_clean store_of_def)

definition rebooted :: "nat \<Rightarrow> 32 word \<Rightarrow> 32 word \<Rightarrow> world \<Rightarrow> bool" where
  \<comment> \<open>the state in which \<open>initlog\<close> calls \<open>recover_from_log\<close>: an empty cache and the log's place known\<close>
  "rebooted p dev ls r \<longleftrightarrow> bcache_inv p dev r \<and> pinned {} (store_of dev r) \<and> log_dev (klog r) = dev
     \<and> log_start (klog r) = ls \<and> length (lh_block (log_lh (klog r))) = LOGSIZE"

lemma recovery_outcome:
  assumes lg: "loggable ls m hs" and dl: "length (D ls) = BSIZE" "get32 (D ls) 0 = 0"
    and d: "prefix done (commit_writes ls hs V (D ls))" "rebooted q dev ls r" "ddisk r = after_writes done D"
    and V: "\<And>k. k \<notin> set hs \<Longrightarrow> V k = D k"
  shows "\<exists>r'. runs recover_from_log r () r' \<and> (\<forall>k. k \<notin> log_area ls m \<longrightarrow>
      ddisk r' k = (if ls \<in> fst ` set done then V k else D k))"
proof -
  have R: "bcache_inv q dev r" "pinned {} (store_of dev r)" "log_dev (klog r) = dev" "log_start (klog r) = ls"
    "length (lh_block (log_lh (klog r))) = LOGSIZE" using d(2) by (simp_all add: rebooted_def)
  have h: "ddisk r ls = header hs (length hs) (D ls) \<or> get32 (ddisk r ls) 0 = 0"
    using crash_header [OF lg, of D "done" V] dl d(1,3) by simp
  then obtain n where n: "get32 (ddisk r ls) 0 = of_nat n" "n \<le> LOGSIZE" "loggable ls m (logged ls (ddisk r))"
    using crash_loggable [OF lg dl(1), of "ddisk r"] by blast
  have s: "s_disk (store_of dev r) = ddisk r" for r by (simp add: store_of_def)
  obtain r' where r': "runs recover_from_log r () r'" "\<And>k. k \<noteq> ls \<Longrightarrow> ddisk r' k = recovered ls (ddisk r) k"
    using bc.recover_spec [OF R(1,3-5,2), of n] n unfolding s by blast
  have "ddisk r' k = (if ls \<in> fst ` set done then V k else D k)" if k: "k \<notin> log_area ls m" for k
  proof -
    have "k \<noteq> ls" using k by (auto simp: log_area_def)
    then show ?thesis using r'(2) [of k] crash_recovers [OF lg, of D "done" V k] dl d(1,3) k V by simp
  qed
  then show ?thesis using r'(1) by blast
qed

text \<open>
  C1. Crash safety of the log. Let a transaction be complete in the cache: its blocks \<open>hs\<close> are pinned,
  the header on the disk is clear, and the log of \<open>m\<close> blocks and a header has room for them. Then
  \<open>commit\<close> terminates, puts every block of the transaction home, and writes exactly: the blocks to the
  log, the header, the blocks to their homes, the cleared header. And if the machine stops after any
  number of these writes and boots again, then \<open>recover_from_log\<close> terminates, and the disk outside the
  log is as it was before the commit if the header block had not been written yet, and as it is
  after the commit if it had: the write of the header is the commit point, and no part of the
  transaction is ever visible without the rest. (Fewer than NBUF blocks: commit needs a buffer for
  the log besides the pinned ones.)
\<close>

theorem commit_crash_atomic:
  assumes "bcache_inv p dev w" "log_ok dev ls m hs (klog w)" "pinned (set hs) (store_of dev w)" "hs \<noteq> []" "length hs < NBUF"
    and "get32 (ddisk w ls) 0 = 0" and "ws = commit_writes ls hs (view dev w) (ddisk w ls)"
  shows "\<exists>w'. runs commit w () w' \<and> dwrites w' = dwrites w @ ws \<and> ddisk w' = after_writes ws (ddisk w)
     \<and> (\<forall>k. k \<notin> log_area ls m \<longrightarrow> ddisk w' k = view dev w k)
     \<and> (\<forall>done q r. prefix done ws \<and> rebooted q dev ls r \<and> ddisk r = after_writes done (ddisk w) \<longrightarrow>
         (\<exists>r'. runs recover_from_log r () r' \<and> (\<forall>k. k \<notin> log_area ls m \<longrightarrow>
           ddisk r' k = (if ls \<in> fst ` set done then view dev w k else ddisk w k))))"
proof -
  have lg: "loggable ls m hs" using assms(2) by (simp add: log_ok_def)
  have dl: "length (ddisk w ls) = BSIZE" using assms(1) by (simp add: bcache_inv_def)
  have vk: "view dev w k = (if k \<in> set hs then view dev w k else ddisk w k)" for k
    using view_clean [OF assms(1)] assms(3) by (simp add: pinned_def store_of_def)
  obtain w' where w': "runs commit w () w'" "dwrites w' = dwrites w @ ws" "ddisk w' = after_writes ws (ddisk w)"
    using bc.commit_spec [OF assms(1-5)] assms(7) by (auto simp: store_of_def st_writes_def)
  have whole: "ddisk w' k = view dev w k" if "k \<notin> log_area ls m" for k
    using commit_writes_all [OF lg that, of "view dev w" "ddisk w ls" "ddisk w"] vk [of k] by (simp add: w'(3) assms(7))
  have "\<exists>r'. runs recover_from_log r () r' \<and> (\<forall>k. k \<notin> log_area ls m \<longrightarrow>
      ddisk r' k = (if ls \<in> fst ` set done then view dev w k else ddisk w k))"
    if d: "prefix done ws" "rebooted q dev ls r" "ddisk r = after_writes done (ddisk w)" for "done" q r
    by (rule recovery_outcome [OF lg dl assms(6) d(1) [unfolded assms(7)] d(2,3)]) (use vk in metis)
  then show ?thesis using w' whole by blast
qed

definition demo_log :: logst where
  "demo_log = \<lparr>log_start = 2, log_size = 30, log_outstanding = 0, log_committing = True, log_dev = 1,
     log_lh = \<lparr>lh_n = 1, lh_block = 100 # replicate (LOGSIZE - 1) 0\<rparr>\<rparr>"

definition demo_buf :: buf where
  "demo_buf = (bufs (booted []) ! 0)\<lparr>b_valid := True, b_dev := 1, b_blockno := 100, b_refcnt := 1, b_data := replicate BSIZE 7\<rparr>"

definition demo_commit :: world where
  \<comment> \<open>block 100 changed in the cache and recorded in the log\<close>
  "demo_commit = (booted [])\<lparr>bufs := (bufs (booted []))[0 := demo_buf], klog := demo_log\<rparr>"

lemma demo_commit_ok:
  "bcache_inv 0 1 demo_commit" "log_ok 1 2 29 [100] (klog demo_commit)" "pinned (set [100]) (store_of 1 demo_commit)"
  "get32 (ddisk demo_commit 2) 0 = 0"
proof -
  let ?w = "(booted [])\<lparr>bufs := (bufs (booted []))[0 := demo_buf]\<rparr>"
  have b: "bcache_inv 0 1 (booted [])" "\<And>k. slot 1 k (booted []) = None" by (simp_all add: booted_inv)
  have N: "0 < NBUF" by (simp add: layout)
  have c: "chosen 1 100 (booted []) 0" using b(2) N by (simp add: chosen_def booted_bufs zero_buf_def)
  have d: "ddisk (booted []) = (\<lambda>_. replicate BSIZE 0)" "slocks (booted []) = slocks bss"
    by (simp_all add: booted_def one_running_def bss_def)
  have r: "replaces 1 100 0 demo_buf (booted []) ?w"
    using c d by (simp add: replaces_def demo_buf_def)
  have k: "klog demo_commit = demo_log" "demo_commit = ?w\<lparr>klog := demo_log\<rparr>" by (simp_all add: demo_commit_def)
  have "bcache_inv 0 1 ?w"
    by (rule replaces_inv [OF b(1) r]) (simp_all add: buf_ok_def demo_buf_def booted_bufs zero_buf_def)
  then show "bcache_inv 0 1 demo_commit" by (simp add: k(2) klog_irrelevant)
  have "log_slot 2 i \<noteq> 100" if "i < 29" for i using unat_log_slot [of 2 i] that by (auto simp: layout)
  then have "100 \<notin> log_area 2 29" by (auto simp: log_area_def)
  then show "log_ok 1 2 29 [100] (klog demo_commit)"
    by (simp add: k(1) log_ok_def demo_log_def loggable_def layout)
  have "refs 1 (booted []) j = 0" "\<not> locked_block 1 (booted []) j" for j
    using b(2) by (simp_all add: refs_def locked_block_def)
  moreover have "b_refcnt demo_buf = 1" "\<not> sl_locked (slocks ?w (Buf_lock 0))" using d(2) by (simp_all add: demo_buf_def bss_def)
  ultimately have "pinned (set [100]) (store_of 1 ?w)"
    using replaces_store(3,4) [OF b(1) r] by (simp add: pinned_def store_of_def)
  then show "pinned (set [100]) (store_of 1 demo_commit)" by (simp add: k(2) klog_irrelevant)
  have "get32 (replicate BSIZE 0) 0 = 0" by (simp add: get32_def layout numeral_eq_Suc)
  then show "get32 (ddisk demo_commit 2) 0 = 0" by (simp add: demo_commit_def d(1))
qed

lemma booted_disk:
  assumes "\<And>k. length (D k) = BSIZE"
  shows "rebooted 0 1 2 ((booted [])\<lparr>ddisk := D, klog := demo_log\<rparr>)"
proof -
  let ?w = "(booted [])\<lparr>ddisk := D\<rparr>"
  have b: "bcache_inv 0 1 (booted [])" "\<And>k. slot 1 k (booted []) = None" by (simp_all add: booted_inv)
  have "buf_ok 1 ?w i" if "i < NBUF" for i
    using b(1) that by (simp add: bcache_inv_def buf_ok_def) (simp add: booted_bufs zero_buf_def)
  then have i: "bcache_inv 0 1 ?w" using b(1) assms by (simp add: bcache_inv_def)
  have "slot 1 k ?w = None" for k using b(2) [of k] by (simp add: slot_def)
  then have "pinned {} (store_of 1 ?w)" by (simp add: pinned_def store_of_def refs_def locked_block_def)
  moreover have "?w\<lparr>klog := demo_log\<rparr> = (booted [])\<lparr>ddisk := D, klog := demo_log\<rparr>" by simp
  ultimately show ?thesis using i klog_irrelevant(1,2) [where w = ?w and l = demo_log] by (simp add: rebooted_def demo_log_def layout)
qed

text \<open>The machine stops right after the header was written, and the recovery installs block 100.\<close>

theorem commit_crash_atomic_witness:
  "\<exists>w' r r'. runs_on ideal_disk commit demo_commit () w'
     \<and> rebooted 0 1 2 r \<and> ddisk r = after_writes (take 2 (commit_writes 2 [100] (view 1 demo_commit) (ddisk demo_commit 2))) (ddisk demo_commit)
     \<and> runs_on ideal_disk recover_from_log r () r' \<and> ddisk r' 100 = view 1 demo_commit 100"
proof -
  let ?ws = "commit_writes 2 [100] (view 1 demo_commit) (ddisk demo_commit 2)"
  let ?D = "after_writes (take 2 ?ws) (ddisk demo_commit)" and ?h = "header [100] 1 (ddisk demo_commit 2)"
  let ?r = "(booted [])\<lparr>ddisk := ?D, klog := demo_log\<rparr>"
  have two: "take 2 ?ws = [(log_slot 2 0, view 1 demo_commit 100), (2, ?h)]" by (simp add: commit_writes_def)
  have len: "length (ddisk demo_commit k) = BSIZE" "length (view 1 demo_commit k) = BSIZE" for k
    using demo_commit_ok(1) length_view [of 0 1 demo_commit k] by (simp_all add: bcache_inv_def)
  then have "length ?h = BSIZE" using length_header [OF header_fits, of 1 "ddisk demo_commit 2" "[100]"] by (simp add: layout)
  then have "length (?D k) = BSIZE" for k using len by (simp add: two after_writes_def)
  then have r: "rebooted 0 1 2 ?r" by (rule booted_disk)
  have "\<exists>w'. runs commit demo_commit () w' \<and> dwrites w' = dwrites demo_commit @ ?ws \<and> ddisk w' = after_writes ?ws (ddisk demo_commit)
     \<and> (\<forall>k. k \<notin> log_area 2 29 \<longrightarrow> ddisk w' k = view 1 demo_commit k)
     \<and> (\<forall>done q r. prefix done ?ws \<and> rebooted q 1 2 r \<and> ddisk r = after_writes done (ddisk demo_commit) \<longrightarrow>
         (\<exists>r'. runs recover_from_log r () r' \<and> (\<forall>k. k \<notin> log_area 2 29 \<longrightarrow>
           ddisk r' k = (if 2 \<in> fst ` set done then view 1 demo_commit k else ddisk demo_commit k))))"
    by (rule commit_crash_atomic [where p = 0 and hs = "[100]"]) (simp_all only: demo_commit_ok, simp_all add: layout)
  then obtain w' where w': "runs commit demo_commit () w'" and all: "\<And>done q r. prefix done ?ws \<Longrightarrow> rebooted q 1 2 r \<Longrightarrow>
      ddisk r = after_writes done (ddisk demo_commit) \<Longrightarrow> \<exists>r'. runs recover_from_log r () r' \<and> (\<forall>k. k \<notin> log_area 2 29 \<longrightarrow>
        ddisk r' k = (if 2 \<in> fst ` set done then view 1 demo_commit k else ddisk demo_commit k))" by blast
  obtain r' where "runs recover_from_log ?r () r'" "\<forall>k. k \<notin> log_area 2 29 \<longrightarrow> ddisk r' k = view 1 demo_commit k"
    using all [OF take_is_prefix r, of 2] by (auto simp: two)
  moreover have "100 \<notin> log_area 2 29" using demo_commit_ok(2) by (simp add: log_ok_def loggable_def)
  ultimately show ?thesis using w' r ideal_disk_ok unfolding runs_def
    by (intro exI [of _ w'] exI [of _ ?r] exI [of _ r']) simp
qed

end
