(* ===== verification/Transact.thy ===== *)
theory Transact
  imports Wal
begin

text \<open>
  The operations a system call brackets its file system work with: \<open>begin_op\<close> reserves space in the
  log and \<open>log_write\<close> records a changed block. The bounds they enforce, and one they do not.
\<close>

lemma loop_n_Ok: "loop_n n body w = Ok v w' \<Longrightarrow> \<exists>w0. body w0 = Ok (Some v) w'"
  by (induction n arbitrary: w) (auto simp: bind_Ok_iff split: option.splits)

lemma loop_Ok: "loop body w = Ok v w' \<Longrightarrow> \<exists>w0. body w0 = Ok (Some v) w'"
  using loop_n_Ok [of "Suc (length (others w))" body w v w'] by (simp add: loop_def run_simps del: loop_n.simps)

lemma keep_klog:
  "push_off w = Ok u1 w1 \<Longrightarrow> klog w1 = klog w" "pop_off w = Ok u2 w2 \<Longrightarrow> klog w2 = klog w"
  by (auto simp: push_off_def pop_off_def run_simps intr_off_run intr_on_run upd_defs split: if_splits)

lemma keep_klog_release: "release lk w = Ok u w' \<Longrightarrow> klog w' = klog w"
  by (auto simp: release_def run_simps upd_defs dest!: keep_klog split: if_splits)

definition room :: "logst \<Rightarrow> bool" where
  "room l \<longleftrightarrow> \<not> log_committing l \<and> lh_n (log_lh l) + (log_outstanding l + 1) * int MAXOPBLOCKS \<le> int LOGSIZE"

lemma begin_op_run:
  assumes "kctx p w" "room (klog w)"
  shows "begin_op w = Ok () (upd_log (\<lambda>l. l\<lparr>log_outstanding := log_outstanding l + 1\<rparr>) w)"
  using assms by (simp add: begin_op_def room_def loop_def run_simps upd_log_def)

lemma begin_op_bound:
  assumes "begin_op w = Ok () w'"
  shows "\<not> log_committing (klog w') \<and> lh_n (log_lh (klog w')) + log_outstanding (klog w') * int MAXOPBLOCKS \<le> int LOGSIZE"
proof -
  obtain w0 where "(bind (gets klog) (\<lambda>l.
        if log_committing l then andthen (sleep Chan_log Log_lock) (ret None)
        else if lh_n (log_lh l) + (log_outstanding l + 1) * int MAXOPBLOCKS > int LOGSIZE
        then andthen (sleep Chan_log Log_lock) (ret None)
        else andthen (modify (upd_log (\<lambda>l. l\<lparr>log_outstanding := log_outstanding l + 1\<rparr>)))
          (andthen (release Log_lock)
          (ret (Some ()))))) w0 = Ok (Some ()) w'"
    using assms by (auto simp: begin_op_def andthen_Ok_iff dest!: loop_Ok)
  then show ?thesis by (auto simp: bind_Ok_iff andthen_Ok_iff upd_log_def dest!: keep_klog_release split: if_splits)
qed

text \<open>
  C19. \<open>begin_op\<close> keeps the log from overflowing its header: whatever other threads do while it sleeps,
  when it returns no commit is running, and the blocks already logged together with MAXOPBLOCKS for
  every operation in progress, the new one included, fit in LOGSIZE. And when they do at the call it
  returns at once, having counted the operation and changed nothing else.
\<close>

theorem begin_op_reserves:
  "(kctx p w \<and> room (klog w) \<longrightarrow> begin_op w = Ok () (upd_log (\<lambda>l. l\<lparr>log_outstanding := log_outstanding l + 1\<rparr>) w))
   \<and> (\<forall>w'. begin_op w = Ok () w' \<longrightarrow>
        \<not> log_committing (klog w') \<and> lh_n (log_lh (klog w')) + log_outstanding (klog w') * int MAXOPBLOCKS \<le> int LOGSIZE)"
  using begin_op_run begin_op_bound by blast

theorem begin_op_reserves_witness:
  "begin_op (booted []) = Ok () (upd_log (\<lambda>l. l\<lparr>log_outstanding := log_outstanding l + 1\<rparr>) (booted []))"
proof -
  have "room (klog (booted []))" by (simp add: room_def booted_def one_running_def bss_def layout)
  then show ?thesis using begin_op_reserves [of 0 "booted []"] by simp
qed

definition logged_now :: "logst \<Rightarrow> 32 word set" where
  "logged_now l = set (take (nat (lh_n (log_lh l))) (lh_block (log_lh l)))"

definition recorded :: "nat \<Rightarrow> world \<Rightarrow> world" where
  \<comment> \<open>a new block in the log's header, its buffer pinned\<close>
  "recorded b w = upd_buf b (\<lambda>x. x\<lparr>b_refcnt := b_refcnt x + 1\<rparr>)
     (upd_log (\<lambda>l. l\<lparr>log_lh := \<lparr>lh_n = lh_n (log_lh l) + 1,
        lh_block = (lh_block (log_lh l))[nat (lh_n (log_lh l)) := b_blockno (bufs w ! b)]\<rparr>\<rparr>) w)"

lemma log_scan:
  assumes "0 \<le> lh_n (log_lh (klog w))" "nat (lh_n (log_lh (klog w))) \<le> length (lh_block (log_lh (klog w)))"
  shows "for_find [0..<nat (lh_n (log_lh (klog w)))] (\<lambda>i. bind (log_block i) (\<lambda>v. ret (if v = bno then Some i else None))) w =
     Ok (List.find (\<lambda>i. lh_block (log_lh (klog w)) ! i = bno) [0..<nat (lh_n (log_lh (klog w)))]) w"
  by (subst for_find_scan [where P = "\<lambda>i. lh_block (log_lh (klog w)) ! i = bno" and v = "\<lambda>i. i" and g = "\<lambda>_. w"])
    (auto simp: log_block_def run_simps split: option.split)

lemma log_write_run:
  assumes k: "kctx p w" and l: "0 \<le> lh_n (log_lh (klog w))" "nat (lh_n (log_lh (klog w))) < LOGSIZE"
    "lh_n (log_lh (klog w)) < log_size (klog w) - 1" "1 \<le> log_outstanding (klog w)" "length (lh_block (log_lh (klog w))) = LOGSIZE"
  shows "log_write b w = Ok () (if b_blockno (bufs w ! b) \<in> logged_now (klog w) then w else recorded b w)"
proof -
  let ?n = "nat (lh_n (log_lh (klog w)))" and ?bs = "lh_block (log_lh (klog w))" and ?bno = "b_blockno (bufs w ! b)"
  have n: "?n \<le> length ?bs" using l by simp
  note sc = log_scan [of "hold Log_lock w" ?bno]
  have full: "\<not> (lh_n (log_lh (klog w)) \<ge> int LOGSIZE \<or> lh_n (log_lh (klog w)) \<ge> log_size (klog w) - 1)" "\<not> log_outstanding (klog w) < 1"
    using l by linarith+
  show ?thesis
  proof (cases "List.find (\<lambda>i. ?bs ! i = ?bno) [0..<?n]")
    case None
    then have "?bno \<notin> logged_now (klog w)" using n by (auto simp: find_None_upt logged_now_def in_set_conv_nth)
    then show ?thesis using sc None k l n full
      by (simp add: log_write_def run_simps bpin_def set_lh_n_def upd_defs recorded_def)
  next
    case (Some i)
    then have i: "i < ?n" "?bs ! i = ?bno" by (auto simp: find_Some_upt)
    then have "?bno \<in> logged_now (klog w)" using n by (force simp: logged_now_def in_set_conv_nth)
    moreover have "?bs[i := ?bno] = ?bs" using i(2) by (metis list_update_id)
    moreover have "int i \<noteq> lh_n (log_lh (klog w))" using i(1) by simp
    ultimately show ?thesis using sc Some k l n full
      by (simp add: log_write_def run_simps upd_defs)
  qed
qed

text \<open>
  C20. \<open>log_write\<close> records the buffer's block in the transaction: a block that is already in it changes
  nothing (absorption), a new one is added at the end of the header and its buffer pinned in the
  cache. Either way the transaction's set of blocks grows by exactly that block.
\<close>

theorem log_write_records:
  assumes "kctx p w" "0 \<le> lh_n (log_lh (klog w))" "nat (lh_n (log_lh (klog w))) < LOGSIZE"
    and "lh_n (log_lh (klog w)) < log_size (klog w) - 1" "1 \<le> log_outstanding (klog w)"
    and "length (lh_block (log_lh (klog w))) = LOGSIZE" "b < length (bufs w)"
  shows "\<exists>w'. log_write b w = Ok () w' \<and> logged_now (klog w') = insert (b_blockno (bufs w ! b)) (logged_now (klog w))
     \<and> w' = (if b_blockno (bufs w ! b) \<in> logged_now (klog w) then w else recorded b w)"
proof -
  let ?l = "log_lh (klog w)"
  have "logged_now (klog (recorded b w)) = insert (b_blockno (bufs w ! b)) (logged_now (klog w))"
    using assms(2,3,6)
    by (simp add: recorded_def upd_defs logged_now_def nat_add_distrib take_Suc_conv_app_nth take_update_cancel)
  then show ?thesis using log_write_run [OF assms(1-6), of b] by auto
qed

definition demo_op :: world where
  \<comment> \<open>an operation in progress that has logged nothing\<close>
  "demo_op = (booted [])\<lparr>klog := \<lparr>log_start = 2, log_size = 30, log_outstanding = 1, log_committing = False, log_dev = 1,
     log_lh = \<lparr>lh_n = 0, lh_block = replicate LOGSIZE 0\<rparr>\<rparr>\<rparr>"

theorem log_write_records_witness:
  "\<exists>w'. log_write 0 demo_op = Ok () w' \<and> logged_now (klog w') = insert (b_blockno (bufs demo_op ! 0)) (logged_now (klog demo_op))
     \<and> w' = (if b_blockno (bufs demo_op ! 0) \<in> logged_now (klog demo_op) then demo_op else recorded 0 demo_op)"
  by (rule log_write_records [of 0]) (simp_all add: demo_op_def, simp_all add: layout)

definition demo_full :: world where
  \<comment> \<open>no operation in progress, and the thirty buffers hold thirty blocks\<close>
  "demo_full = demo_op\<lparr>klog := (klog demo_op)\<lparr>log_outstanding := 0\<rparr>,
     bufs := map (\<lambda>i. (bufs demo_op ! i)\<lparr>b_blockno := of_nat (100 + i)\<rparr>) [0..<Suc NBUF]\<rparr>"

lemma log_write_new:
  assumes "kctx p w" "lh_n (log_lh (klog w)) = int n" "n < LOGSIZE" "int n < log_size (klog w) - 1" "1 \<le> log_outstanding (klog w)"
    and "length (lh_block (log_lh (klog w))) = LOGSIZE" "b_blockno (bufs w ! b) \<notin> logged_now (klog w)" "b < length (bufs w)"
  shows "log_write b w = Ok () (recorded b w)" "kctx p (recorded b w)" "lh_n (log_lh (klog (recorded b w))) = int (Suc n)"
    "log_size (klog (recorded b w)) = log_size (klog w)" "log_outstanding (klog (recorded b w)) = log_outstanding (klog w)"
    "length (lh_block (log_lh (klog (recorded b w)))) = LOGSIZE" "map b_blockno (bufs (recorded b w)) = map b_blockno (bufs w)"
    "logged_now (klog (recorded b w)) = insert (b_blockno (bufs w ! b)) (logged_now (klog w))"
proof -
  show "log_write b w = Ok () (recorded b w)" using log_write_run [of p w b] assms by simp
  show "kctx p (recorded b w)" using assms(1) by (simp add: recorded_def upd_defs)
  show "lh_n (log_lh (klog (recorded b w))) = int (Suc n)" "log_size (klog (recorded b w)) = log_size (klog w)"
    "log_outstanding (klog (recorded b w)) = log_outstanding (klog w)" "length (lh_block (log_lh (klog (recorded b w)))) = LOGSIZE"
    using assms(2,6) by (simp_all add: recorded_def upd_defs)
  show "map b_blockno (bufs (recorded b w)) = map b_blockno (bufs w)"
    using assms(8) by (simp add: recorded_def upd_defs map_update)
  show "logged_now (klog (recorded b w)) = insert (b_blockno (bufs w ! b)) (logged_now (klog w))"
    using assms(2,3,6) by (simp add: recorded_def upd_defs logged_now_def nat_add_distrib take_Suc_conv_app_nth take_update_cancel)
qed

lemma log_writes_new:
  \<comment> \<open>blocks that are new to the transaction, logged one after the other\<close>
  assumes "kctx p w" "lh_n (log_lh (klog w)) = int n" "n + length bs \<le> LOGSIZE" "int (n + length bs) \<le> log_size (klog w) - 1"
    and "1 \<le> log_outstanding (klog w)" "length (lh_block (log_lh (klog w))) = LOGSIZE" "\<forall>b \<in> set bs. b < length (bufs w)"
    and "distinct (map (\<lambda>b. map b_blockno (bufs w) ! b) bs)" "\<forall>b \<in> set bs. map b_blockno (bufs w) ! b \<notin> logged_now (klog w)"
  shows "\<exists>w'. for_each bs log_write w = Ok () w' \<and> kctx p w' \<and> lh_n (log_lh (klog w')) = int (n + length bs)
     \<and> log_size (klog w') = log_size (klog w)"
  using assms
proof (induction bs arbitrary: w n)
  case (Cons b bs)
  have "map b_blockno (bufs w) ! b = b_blockno (bufs w ! b)" using Cons.prems(7) by simp
  then have nb: "b_blockno (bufs w ! b) \<notin> logged_now (klog w)" using Cons.prems(9) by simp
  note r = log_write_new [OF Cons.prems(1,2) _ _ Cons.prems(5,6) nb]
  have R: "log_write b w = Ok () (recorded b w)" "kctx p (recorded b w)" "lh_n (log_lh (klog (recorded b w))) = int (Suc n)"
    "log_size (klog (recorded b w)) = log_size (klog w)" "log_outstanding (klog (recorded b w)) = log_outstanding (klog w)"
    "length (lh_block (log_lh (klog (recorded b w)))) = LOGSIZE" "map b_blockno (bufs (recorded b w)) = map b_blockno (bufs w)"
    "logged_now (klog (recorded b w)) = insert (b_blockno (bufs w ! b)) (logged_now (klog w))"
    by (rule r; use Cons.prems in simp)+
  have L: "length (bufs (recorded b w)) = length (bufs w)" using R(7) by (rule map_eq_imp_length_eq)
  have "\<exists>w'. for_each bs log_write (recorded b w) = Ok () w' \<and> kctx p w' \<and> lh_n (log_lh (klog w')) = int (Suc n + length bs)
     \<and> log_size (klog w') = log_size (klog (recorded b w))"
    by (rule Cons.IH) (use Cons.prems R L in \<open>simp_all, metis image_eqI\<close>)
  then show ?case using R(1,4) by (auto simp: bind_def andthen_def)
qed simp

text \<open>
  C32. The reservation of \<open>begin_op\<close> is not always honoured: it is computed from LOGSIZE, but
  \<open>log_write\<close> also stops at the size of the log on the disk less its header. On a disk whose log has
  LOGSIZE blocks, and with an empty log, three operations are admitted one after the other. If they
  log MAXOPBLOCKS different blocks each, which is what each is allowed, the last of these blocks
  makes \<open>log_write\<close> panic.
\<close>

theorem reservation_not_honoured:
  assumes "kctx p w" "log_size (klog w) = int LOGSIZE" "log_outstanding (klog w) = 0" "\<not> log_committing (klog w)"
    and "lh_n (log_lh (klog w)) = 0" "length (lh_block (log_lh (klog w))) = LOGSIZE"
    and "length bs = 3 * MAXOPBLOCKS" "\<forall>b \<in> set bs. b < length (bufs w)" "distinct (map (\<lambda>b. b_blockno (bufs w ! b)) bs)"
  shows "\<exists>w1 w2. andthen begin_op (andthen begin_op begin_op) w = Ok () w1 \<and> log_outstanding (klog w1) = 3
     \<and> for_each (butlast bs) log_write w1 = Ok () w2
     \<and> log_write (last bs) w2 = Stop (Panic ''too big a transaction'') (hold Log_lock w2)"
proof -
  let ?op = "upd_log (\<lambda>l. l\<lparr>log_outstanding := log_outstanding l + 1\<rparr>)" and ?w1 = "upd_log (\<lambda>l. l\<lparr>log_outstanding := 3\<rparr>) w"
  have "room (klog w)" "room (klog (?op w))" "room (klog (?op (?op w)))"
    using assms(3-5) by (simp_all add: room_def upd_log_def layout)
  moreover have "kctx p (?op w)" "kctx p (?op (?op w))" using assms(1) by (simp_all add: upd_log_def)
  moreover have "?op (?op (?op w)) = ?w1" using assms(3) by (simp add: upd_log_def)
  ultimately have ops: "andthen begin_op (andthen begin_op begin_op) w = Ok () ?w1"
    using begin_op_run assms(1) by (simp add: andthen_def bind_def)
  have ne: "bs \<noteq> []" using assms(7) by (auto simp: layout)
  then have lb: "set (butlast bs) \<subseteq> set bs" by (auto dest: in_set_butlastD)
  have k1: "kctx p ?w1" using assms(1) by (simp add: upd_log_def)
  have mb: "map (\<lambda>b. map b_blockno (bufs w) ! b) (butlast bs) = butlast (map (\<lambda>b. b_blockno (bufs w ! b)) bs)"
    using assms(8) lb by (auto simp: map_butlast [symmetric] intro!: map_cong)
  have "\<exists>w2. for_each (butlast bs) log_write ?w1 = Ok () w2 \<and> kctx p w2 \<and> lh_n (log_lh (klog w2)) = int (0 + length (butlast bs))
     \<and> log_size (klog w2) = log_size (klog ?w1)"
    by (rule log_writes_new [OF k1])
      (use assms lb mb distinct_butlast [OF assms(9)] in \<open>auto simp: upd_log_def logged_now_def layout\<close>)
  then obtain w2 where w2: "for_each (butlast bs) log_write ?w1 = Ok () w2" "kctx p w2"
    "lh_n (log_lh (klog w2)) = int LOGSIZE - 1" "log_size (klog w2) = int LOGSIZE"
    using assms(2,7) by (auto simp: upd_log_def layout)
  then have "log_write (last bs) w2 = Stop (Panic ''too big a transaction'') (hold Log_lock w2)"
    by (simp add: log_write_def run_simps)
  then show ?thesis using ops w2(1) by (auto simp: upd_log_def)
qed

theorem reservation_not_honoured_witness:
  "\<exists>w1 w2. andthen begin_op (andthen begin_op begin_op) demo_full = Ok () w1 \<and> log_outstanding (klog w1) = 3
     \<and> for_each (butlast [0..<30]) log_write w1 = Ok () w2
     \<and> log_write (last [0..<30]) w2 = Stop (Panic ''too big a transaction'') (hold Log_lock w2)"
proof (rule reservation_not_honoured [of 0])
  have b: "bufs demo_full ! i = (bufs demo_op ! i)\<lparr>b_blockno := of_nat (100 + i)\<rparr>" if "i < 30" for i
    using that by (simp add: demo_full_def layout nth_append)
  have "inj_on (\<lambda>i. of_nat (100 + i) :: 32 word) {0..<30}"
  proof (rule inj_onI)
    fix i j :: nat assume ij: "i \<in> {0..<30}" "j \<in> {0..<30}" "of_nat (100 + i) = (of_nat (100 + j) :: 32 word)"
    have "unat (of_nat (100 + k) :: 32 word) = 100 + k" if "k < 30" for k using that by (intro of_nat_inverse [OF refl]) simp
    then show "i = j" using ij by (metis add_left_cancel atLeastLessThan_iff)
  qed
  then have "inj_on (\<lambda>i. b_blockno (bufs demo_full ! i)) {0..<30}" by (rule inj_on_cong [THEN iffD1, rotated]) (simp add: b)
  then show "distinct (map (\<lambda>i. b_blockno (bufs demo_full ! i)) [0..<30])" by (simp add: distinct_map)
qed (simp_all add: demo_full_def demo_op_def, simp_all add: layout)

end
