(* ===== verification/Fifo.thy ===== *)
theory Fifo
  imports Pipe Console Usermem Disk
begin

text \<open>
  Three parts of the kernel keep bytes in a circular array indexed by free-running counters: pipes,
  the UART's output and the console's input. \<open>bounded_fifo\<close> is the interface of a bounded queue of
  bytes; the three are instances of it, and what the pipe routines do is stated over the queue.
\<close>

section \<open>The interface\<close>

locale bounded_fifo =
  fixes cap :: nat and ok :: "'q \<Rightarrow> bool" and contents :: "'q \<Rightarrow> byte list"
    and put :: "byte \<Rightarrow> 'q \<Rightarrow> 'q" and front :: "'q \<Rightarrow> byte" and pop :: "'q \<Rightarrow> 'q" and full :: "'q \<Rightarrow> bool" and none :: "'q \<Rightarrow> bool"
  assumes bounded: "ok q \<Longrightarrow> length (contents q) \<le> cap"
    and full_law: "ok q \<Longrightarrow> full q \<longleftrightarrow> length (contents q) = cap"
    and none_law: "ok q \<Longrightarrow> none q \<longleftrightarrow> contents q = []"
    and put_law: "ok q \<Longrightarrow> length (contents q) < cap \<Longrightarrow> ok (put x q) \<and> contents (put x q) = contents q @ [x]"
    and pop_law: "ok q \<Longrightarrow> contents q \<noteq> [] \<Longrightarrow> ok (pop q) \<and> contents q = front q # contents (pop q)"
begin

lemma puts:
  "ok q \<Longrightarrow> length (contents q) + length xs \<le> cap \<Longrightarrow> ok (fold put xs q) \<and> contents (fold put xs q) = contents q @ xs"
  by (induction xs arbitrary: q) (auto simp: put_law)

lemma pops:
  "ok q \<Longrightarrow> n \<le> length (contents q) \<Longrightarrow> ok ((pop ^^ n) q) \<and> contents ((pop ^^ n) q) = drop n (contents q)"
proof (induction n)
  case (Suc n)
  then have q: "ok ((pop ^^ n) q)" "contents ((pop ^^ n) q) = drop n (contents q)" "contents ((pop ^^ n) q) \<noteq> []" by auto
  from pop_law [OF q(1,3)] have "ok (pop ((pop ^^ n) q))" "contents ((pop ^^ n) q) = front ((pop ^^ n) q) # contents (pop ((pop ^^ n) q))"
    by auto
  then show ?case using q(2) by (metis drop_Suc funpow.simps(2) list.sel(3) o_apply tl_drop)
qed simp

lemma front_nth: "ok q \<Longrightarrow> n < length (contents q) \<Longrightarrow> front ((pop ^^ n) q) = contents q ! n"
proof -
  assume q: "ok q" "n < length (contents q)"
  then have "ok ((pop ^^ n) q)" "contents ((pop ^^ n) q) = drop n (contents q)" using pops [of q n] by auto
  then show ?thesis using pop_law [of "(pop ^^ n) q"] q(2) by (metis Cons_nth_drop_Suc list.distinct(1) list.inject)
qed

lemma first_in_first_out:
  \<comment> \<open>bytes come out in the order they went in\<close>
  assumes "ok q" "contents q = []" "length xs \<le> cap" "n < length xs"
  shows "front ((pop ^^ n) (fold put xs q)) = xs ! n"
  using front_nth [of "fold put xs q" n] puts [of q xs] assms by simp

end

section \<open>Circular arrays with free-running counters\<close>

definition ring_contents :: "nat \<Rightarrow> 'b list \<Rightarrow> 'a::len word \<Rightarrow> 'a word \<Rightarrow> 'b list" where
  \<comment> \<open>the entries from counter \<open>r\<close> up to counter \<open>w\<close>\<close>
  "ring_contents n buf r w = map (\<lambda>i. buf ! (unat (r + of_nat i) mod n)) [0..<unat (w - r)]"

lemma length_ring_contents [simp]: "length (ring_contents n buf r w) = unat (w - r)"
  by (simp add: ring_contents_def)

lemma ring_nth: "i < unat (w - r) \<Longrightarrow> ring_contents n buf r w ! i = buf ! (unat (r + of_nat i) mod n)"
  by (simp add: ring_contents_def)

lemma unat_mod_size:
  assumes "n dvd 2 ^ LENGTH('a)"
  shows "unat (r + of_nat i :: 'a::len word) mod n = (unat r + i) mod n"
proof -
  have "unat (r + of_nat i) = (unat r + i) mod 2 ^ LENGTH('a)"
    by (simp add: unat_word_ariths unat_of_nat mod_add_right_eq)
  then show ?thesis using assms by (simp add: mod_mod_cancel)
qed

lemma ring_index_inj:
  assumes "n dvd 2 ^ LENGTH('a)" "i < n" "j < n" "unat (r + of_nat i :: 'a::len word) mod n = unat (r + of_nat j :: 'a word) mod n"
  shows "i = j"
proof -
  have e: "(unat r mod n + i) mod n = (unat r mod n + j) mod n" using assms(1,4) by (simp add: unat_mod_size mod_add_left_eq)
  have "(c + k) mod n = (if c + k < n then c + k else c + k - n)" if "c < n" "k < n" for c k using that by (simp add: mod_if)
  from this [of "unat r mod n" i] this [of "unat r mod n" j] e assms(2,3) show ?thesis by (auto split: if_splits)
qed

lemma unat_next:
  assumes "unat (w - r :: 'a::len word) < n" "n < 2 ^ LENGTH('a)"
  shows "unat (w + 1 - r) = Suc (unat (w - r))"
proof -
  have "unat (w - r) + 1 < 2 ^ LENGTH('a)" using assms by simp
  then have "unat (w - r + 1) = unat (w - r) + 1" by (simp add: unat_word_ariths)
  then show ?thesis by (simp add: algebra_simps)
qed

lemma ring_put:
  assumes n: "n dvd 2 ^ LENGTH('a)" "n < 2 ^ LENGTH('a)" and b: "length buf = n" and k: "unat (w - r :: 'a::len word) < n"
  shows "ring_contents n (buf[unat w mod n := x]) r (w + 1) = ring_contents n buf r w @ [x]"
proof -
  let ?k = "unat (w - r)"
  have w: "r + of_nat ?k = w" by simp
  have "buf[unat w mod n := x] ! (unat (r + of_nat i) mod n) = buf ! (unat (r + of_nat i) mod n)" if "i < ?k" for i
  proof -
    have "unat w mod n \<noteq> unat (r + of_nat i) mod n"
      using ring_index_inj [OF n(1), of ?k i r] that k w by auto
    then show ?thesis by simp
  qed
  moreover have "unat w mod n < length buf" using k b by simp
  ultimately show ?thesis using unat_next [OF k n(2)] by (simp add: ring_contents_def)
qed

lemma unat_prev: "r \<noteq> w \<Longrightarrow> unat (w - r :: 'a::len word) = Suc (unat (w - (r + 1)))"
proof -
  assume "r \<noteq> w"
  then have "w - r \<noteq> 0" by simp
  then have "unat (w - r) = Suc (unat (w - r - 1))" by (simp add: unat_minus_one unat_gt_0)
  then show ?thesis by (simp add: algebra_simps)
qed

lemma ring_pop:
  assumes "r \<noteq> w"
  shows "ring_contents n buf r w = buf ! (unat r mod n) # ring_contents n buf (r + 1) w"
proof (rule nth_equalityI)
  fix i assume "i < length (ring_contents n buf r w)"
  then show "ring_contents n buf r w ! i = (buf ! (unat r mod n) # ring_contents n buf (r + 1) w) ! i"
    using unat_prev [OF assms] by (cases i) (simp_all add: ring_nth, simp add: algebra_simps)
qed (simp add: unat_prev [OF assms])

lemma ring_unput:
  assumes "r \<noteq> w"
  shows "ring_contents n buf r (w - 1) = butlast (ring_contents n buf r w)"
proof -
  have "unat (w - r) = Suc (unat (w - 1 - r))" using unat_prev [OF assms] by (simp add: algebra_simps)
  then show ?thesis by (simp add: ring_contents_def)
qed

lemma ring_full:
  assumes "n < 2 ^ LENGTH('a)"
  shows "w = r + of_nat n \<longleftrightarrow> unat (w - r :: 'a::len word) = n"
proof -
  have "unat (of_nat n :: 'a word) = n" using assms by (simp add: unat_of_nat)
  then have "unat (w - r) = n \<longleftrightarrow> w - r = of_nat n" by (simp add: word_unat_eq_iff)
  then show ?thesis by (auto simp: algebra_simps)
qed

locale ring_array =
  fixes cap :: nat and buf :: "'q \<Rightarrow> byte list" and rd :: "'q \<Rightarrow> 'a::len word" and wr :: "'q \<Rightarrow> 'a word"
    and put :: "byte \<Rightarrow> 'q \<Rightarrow> 'q" and pop :: "'q \<Rightarrow> 'q"
  assumes cap: "cap dvd 2 ^ LENGTH('a)" "cap < 2 ^ LENGTH('a)"
    and put_def: "buf (put x q) = (buf q)[unat (wr q) mod cap := x]" "rd (put x q) = rd q" "wr (put x q) = wr q + 1"
    and pop_def: "buf (pop q) = buf q" "rd (pop q) = rd q + 1" "wr (pop q) = wr q"

sublocale ring_array \<subseteq> bounded_fifo cap "\<lambda>q. length (buf q) = cap \<and> unat (wr q - rd q) \<le> cap"
  "\<lambda>q. ring_contents cap (buf q) (rd q) (wr q)" put "\<lambda>q. buf q ! (unat (rd q) mod cap)" pop
  "\<lambda>q. wr q = rd q + of_nat cap" "\<lambda>q. rd q = wr q"
proof unfold_locales
  fix q x assume "length (buf q) = cap \<and> unat (wr q - rd q) \<le> cap" "length (ring_contents cap (buf q) (rd q) (wr q)) < cap"
  then show "(length (buf (put x q)) = cap \<and> unat (wr (put x q) - rd (put x q)) \<le> cap)
      \<and> ring_contents cap (buf (put x q)) (rd (put x q)) (wr (put x q)) = ring_contents cap (buf q) (rd q) (wr q) @ [x]"
    using ring_put [OF cap, of "buf q" "wr q" "rd q" x] unat_next [OF _ cap(2), of "wr q" "rd q"] by (simp add: put_def)
next
  fix q assume q: "length (buf q) = cap \<and> unat (wr q - rd q) \<le> cap" "ring_contents cap (buf q) (rd q) (wr q) \<noteq> []"
  then have "rd q \<noteq> wr q" by (auto simp: ring_contents_def)
  then show "(length (buf (pop q)) = cap \<and> unat (wr (pop q) - rd (pop q)) \<le> cap)
      \<and> ring_contents cap (buf q) (rd q) (wr q) = buf q ! (unat (rd q) mod cap) # ring_contents cap (buf (pop q)) (rd (pop q)) (wr (pop q))"
    using ring_pop [of "rd q" "wr q"] unat_prev [of "rd q" "wr q"] q(1) by (simp add: pop_def)
next
  fix q :: 'q
  show "(wr q = rd q + of_nat cap) = (length (ring_contents cap (buf q) (rd q) (wr q)) = cap)"
    unfolding length_ring_contents by (rule ring_full [OF cap(2)])
  show "(rd q = wr q) = (ring_contents cap (buf q) (rd q) (wr q) = [])"
    by (auto simp: ring_contents_def unat_eq_zero)
qed simp

section \<open>The three instances\<close>

definition pipe_put :: "byte \<Rightarrow> pipe \<Rightarrow> pipe" where
  "pipe_put x q = q\<lparr>pi_data := (pi_data q)[unat (pi_nwrite q) mod PIPESIZE := x], pi_nwrite := pi_nwrite q + 1\<rparr>"

definition pipe_pop :: "pipe \<Rightarrow> pipe" where
  "pipe_pop q = q\<lparr>pi_nread := pi_nread q + 1\<rparr>"

definition uart_put :: "byte \<Rightarrow> uartst \<Rightarrow> uartst" where
  "uart_put x q = q\<lparr>uart_tx_buf := (uart_tx_buf q)[unat (uart_tx_w q) mod UART_TX_BUF_SIZE := x], uart_tx_w := uart_tx_w q + 1\<rparr>"

definition uart_pop :: "uartst \<Rightarrow> uartst" where
  "uart_pop q = q\<lparr>uart_tx_r := uart_tx_r q + 1\<rparr>"

definition cons_put :: "byte \<Rightarrow> console \<Rightarrow> console" where
  "cons_put x q = q\<lparr>cons_buf := (cons_buf q)[unat (cons_e q) mod INPUT_BUF_SIZE := x], cons_e := cons_e q + 1\<rparr>"

definition cons_pop :: "console \<Rightarrow> console" where
  "cons_pop q = q\<lparr>cons_r := cons_r q + 1\<rparr>"

interpretation pq: ring_array PIPESIZE pi_data pi_nread pi_nwrite pipe_put pipe_pop
  by unfold_locales (simp_all add: pipe_put_def pipe_pop_def, simp_all add: layout)

interpretation uq: ring_array UART_TX_BUF_SIZE uart_tx_buf uart_tx_r uart_tx_w uart_put uart_pop
  by unfold_locales (simp_all add: uart_put_def uart_pop_def, simp_all add: layout)

interpretation cq: ring_array INPUT_BUF_SIZE cons_buf cons_r cons_e cons_put cons_pop
  by unfold_locales (simp_all add: cons_put_def cons_pop_def, simp_all add: layout)

abbreviation pipe_ok :: "pipe \<Rightarrow> bool" where
  "pipe_ok q \<equiv> length (pi_data q) = PIPESIZE \<and> unat (pi_nwrite q - pi_nread q) \<le> PIPESIZE"

abbreviation pipe_contents :: "pipe \<Rightarrow> byte list" where
  "pipe_contents q \<equiv> ring_contents PIPESIZE (pi_data q) (pi_nread q) (pi_nwrite q)"

section \<open>Reading from a pipe\<close>

lemma mem_pipes: "w\<lparr>pipes := P, mem := m\<rparr> = w\<lparr>mem := m, pipes := P\<rparr>" for w :: world
  by simp

lemma umem_put_one: "(\<forall>a. umem m' root a = uput va (take 1 [x]) f a) \<Longrightarrow> umem m' root = uput va [x] f"
  by (simp add: fun_eq_iff)

lemma uput_snoc_front:
  assumes "length (x # xs) < 2 ^ 64"
  shows "uput (va + 1) xs (uput va [x] f) = uput va (x # xs) f"
  using uput_append [of "[x]" xs va f] assms by (simp add: fun_eq_iff)

lemma world_same [simp]: "w\<lparr>mem := mem w, pipes := pipes w\<rparr> = w" for w :: world
  by (rule world.equality) simp_all

lemma copyout_one:
  assumes "uctx (mem w) root"
  shows "\<exists>m. copyout root va [x] w = Ok (if uwritable (mem w) root va then 0 else - 1) (w\<lparr>mem := m\<rparr>) \<and> wrote_user (mem w) root m
     \<and> umem m root = (if uwritable (mem w) root va then uput va [x] (umem (mem w) root) else umem (mem w) root)"
proof -
  have l: "length [x] < 2 ^ 64" by simp
  obtain r k m where c: "copyout root va [x] w = Ok r (w\<lparr>mem := m\<rparr>)" "wrote_user (mem w) root m"
    "\<forall>b. umem m root b = uput va (take k [x]) (umem (mem w) root) b"
    "\<forall>y < k. uwritable (mem w) root (va + of_nat y)"
    "r = 0 \<and> k = length [x] \<or> r = - 1 \<and> k < length [x] \<and> \<not> uwritable (mem w) root (va + of_nat k)"
    using copyout_run [OF assms l, of va] by blast
  have u: "umem m root = uput va (take k [x]) (umem (mem w) root)" using c(3) by (intro ext) blast
  show ?thesis
  proof (cases "r = 0")
    case True
    then have "k = 1" "uwritable (mem w) root va" using c(4,5) by auto
    then show ?thesis using True c(1,2) u by auto
  next
    case False
    then have "k = 0" "r = - 1" "\<not> uwritable (mem w) root va" using c(5) by auto
    then show ?thesis using c(1,2) u by auto
  qed
qed

definition took :: "nat \<Rightarrow> addr \<Rightarrow> addr \<Rightarrow> addr \<Rightarrow> world \<Rightarrow> world \<Rightarrow> bool" where
  \<comment> \<open>the first \<open>k\<close> bytes of pipe \<open>pi\<close> have moved to the user address \<open>va\<close>\<close>
  "took k pi pt va w w' \<longleftrightarrow> wrote_user (mem w) pt (mem w') \<and>
     w' = w\<lparr>mem := mem w', pipes := (pipes w)(pi := (pipe_pop ^^ k) (pipes w pi))\<rparr> \<and>
     umem (mem w') pt = uput va (take k (pipe_contents (pipes w pi))) (umem (mem w) pt)"

lemma took_0: "uctx (mem w) pt \<Longrightarrow> took 0 pi pt va w w"
  unfolding took_def by (simp only: funpow.simps id_apply fun_upd_triv world_same take_0 uput_Nil) (simp add: wrote_user_def)

lemma took_front:
  assumes "pipe_ok (pipes w pi)" "pipe_contents (pipes w pi) \<noteq> []"
  shows "took 1 pi pt va w w' \<longleftrightarrow> wrote_user (mem w) pt (mem w') \<and>
     w' = w\<lparr>mem := mem w', pipes := (pipes w)(pi := pipe_pop (pipes w pi))\<rparr> \<and>
     umem (mem w') pt = uput va [pi_data (pipes w pi) ! (unat (pi_nread (pipes w pi)) mod PIPESIZE)] (umem (mem w) pt)"
proof -
  have "take 1 (pipe_contents (pipes w pi)) = [pi_data (pipes w pi) ! (unat (pi_nread (pipes w pi)) mod PIPESIZE)]"
    using pq.pop_law [OF assms] by (metis One_nat_def take0 take_Suc_Cons)
  then show ?thesis unfolding took_def by simp
qed

lemma took_Suc:
  assumes "took 1 pi pt va w w1" "took k pi pt (va + 1) w1 w2" "pipe_ok (pipes w pi)" "pipe_contents (pipes w pi) \<noteq> []" "Suc k < 2 ^ 64"
  shows "took (Suc k) pi pt va w w2"
proof -
  let ?q = "pipes w pi" and ?x = "pi_data (pipes w pi) ! (unat (pi_nread (pipes w pi)) mod PIPESIZE)"
  have a: "wrote_user (mem w) pt (mem w1)" "w1 = w\<lparr>mem := mem w1, pipes := (pipes w)(pi := pipe_pop ?q)\<rparr>"
    "umem (mem w1) pt = uput va [?x] (umem (mem w) pt)"
    using assms(1) unfolding took_front [OF assms(3,4)] by blast+
  have q1: "pipes w1 pi = pipe_pop ?q" by (subst a(2)) simp
  have b: "wrote_user (mem w1) pt (mem w2)" "w2 = w1\<lparr>mem := mem w2, pipes := (pipes w1)(pi := (pipe_pop ^^ k) (pipe_pop ?q))\<rparr>"
    "umem (mem w2) pt = uput (va + 1) (take k (pipe_contents (pipe_pop ?q))) (umem (mem w1) pt)"
    using assms(2) unfolding took_def q1 by blast+
  have t: "take (Suc k) (pipe_contents ?q) = ?x # take k (pipe_contents (pipe_pop ?q))"
    using pq.pop_law [OF assms(3,4)] by (metis take_Suc_Cons)
  have p1: "pipes w1 = (pipes w)(pi := pipe_pop ?q)" by (subst a(2)) simp
  have "w2 = w1\<lparr>mem := mem w2, pipes := (pipes w)(pi := (pipe_pop ^^ Suc k) ?q)\<rparr>"
    using b(2) unfolding p1 fun_upd_upd funpow_Suc_right o_apply .
  then have "w2 = w\<lparr>mem := mem w2, pipes := (pipes w)(pi := (pipe_pop ^^ Suc k) ?q)\<rparr>"
    by (subst (asm) a(2)) (simp del: fun_upd_apply)
  moreover have "umem (mem w2) pt = uput va (take (Suc k) (pipe_contents ?q)) (umem (mem w) pt)"
    unfolding t b(3) a(3) by (rule uput_snoc_front) (use assms(5) in simp)
  ultimately show ?thesis unfolding took_def using wrote_user_trans [OF a(1) b(1)] by blast
qed

lemma piperead_step:
  assumes "uctx (mem w) (p_pagetable (procs w ! pr))" "pipe_ok (pipes w pi)" "pi_nread (pipes w pi) \<noteq> pi_nwrite (pipes w pi)"
    "uwritable (mem w) (p_pagetable (procs w ! pr)) (a + of_nat i)"
  shows "\<exists>w'. piperead_copy (Suc left) pi pr a i w = piperead_copy left pi pr a (Suc i) w'
     \<and> took 1 pi (p_pagetable (procs w ! pr)) (a + of_nat i) w w'"
proof -
  let ?pt = "p_pagetable (procs w ! pr)" and ?w1 = "w\<lparr>pipes := (pipes w)(pi := pipe_pop (pipes w pi))\<rparr>"
  let ?x = "pi_data (pipes w pi) ! (unat (pi_nread (pipes w pi)) mod PIPESIZE)"
  obtain m where c: "copyout ?pt (a + of_nat i) [?x] ?w1 = Ok 0 (?w1\<lparr>mem := m\<rparr>)"
    "wrote_user (mem w) ?pt m" "umem m ?pt = uput (a + of_nat i) [?x] (umem (mem w) ?pt)"
    using copyout_one [of ?w1 ?pt "a + of_nat i" ?x] assms(1,4) by auto
  have "piperead_copy (Suc left) pi pr a i w = piperead_copy left pi pr a (Suc i) (w\<lparr>mem := m, pipes := (pipes w)(pi := pipe_pop (pipes w pi))\<rparr>)"
    using assms(3) c(1) by (simp add: run_simps upd_pipe_def pipe_pop_def mem_pipes)
  moreover have ne: "pipe_contents (pipes w pi) \<noteq> []" using pq.none_law [OF assms(2)] assms(3) by blast
  have "took 1 pi ?pt (a + of_nat i) w (w\<lparr>mem := m, pipes := (pipes w)(pi := pipe_pop (pipes w pi))\<rparr>)"
    unfolding took_front [OF assms(2) ne] using c(2,3) by simp
  ultimately show ?thesis by blast
qed

lemma piperead_fails:
  assumes "uctx (mem w) (p_pagetable (procs w ! pr))" "pi_nread (pipes w pi) \<noteq> pi_nwrite (pipes w pi)"
    "\<not> uwritable (mem w) (p_pagetable (procs w ! pr)) (a + of_nat i)"
  shows "\<exists>m. piperead_copy (Suc left) pi pr a i w = Ok (int i) (w\<lparr>mem := m, pipes := (pipes w)(pi := pipe_pop (pipes w pi))\<rparr>)
     \<and> umem m (p_pagetable (procs w ! pr)) = umem (mem w) (p_pagetable (procs w ! pr))"
proof -
  let ?pt = "p_pagetable (procs w ! pr)" and ?w1 = "w\<lparr>pipes := (pipes w)(pi := pipe_pop (pipes w pi))\<rparr>"
  let ?x = "pi_data (pipes w pi) ! (unat (pi_nread (pipes w pi)) mod PIPESIZE)"
  obtain m where c: "copyout ?pt (a + of_nat i) [?x] ?w1 = Ok (- 1) (?w1\<lparr>mem := m\<rparr>)" "umem m ?pt = umem (mem w) ?pt"
    using copyout_one [of ?w1 ?pt "a + of_nat i" ?x] assms(1,3) by auto
  have "piperead_copy (Suc left) pi pr a i w = Ok (int i) (w\<lparr>mem := m, pipes := (pipes w)(pi := pipe_pop (pipes w pi))\<rparr>)"
    using assms(2) c(1) by (simp add: run_simps upd_pipe_def pipe_pop_def mem_pipes)
  then show ?thesis using c(2) by blast
qed

lemma piperead_copy_run:
  assumes "uctx (mem w) (p_pagetable (procs w ! pr))" "pipe_ok (pipes w pi)" "left < 2 ^ 64"
    and "\<And>y. y < min left (length (pipe_contents (pipes w pi))) \<Longrightarrow> uwritable (mem w) (p_pagetable (procs w ! pr)) (a + of_nat (i + y))"
  shows "\<exists>w'. piperead_copy left pi pr a i w = Ok (int (i + min left (length (pipe_contents (pipes w pi))))) w'
     \<and> took (min left (length (pipe_contents (pipes w pi)))) pi (p_pagetable (procs w ! pr)) (a + of_nat i) w w'"
  using assms
proof (induction left arbitrary: i w)
  case 0
  then show ?case using took_0 by simp
next
  case (Suc left)
  let ?pt = "p_pagetable (procs w ! pr)" and ?q = "pipes w pi" and ?xs = "pipe_contents (pipes w pi)"
  show ?case
  proof (cases "pi_nread ?q = pi_nwrite ?q")
    case True
    then have "?xs = []" using pq.none_law [of ?q] Suc.prems(2) by simp
    moreover have "piperead_copy (Suc left) pi pr a i w = Ok (int i) w" using True by (simp add: run_simps)
    ultimately show ?thesis using took_0 [OF Suc.prems(1)] by simp
  next
    case False
    have ne: "?xs \<noteq> []" using pq.none_law [of ?q] Suc.prems(2) False by simp
    have q1: "pipe_ok (pipe_pop ?q)" "length ?xs = Suc (length (pipe_contents (pipe_pop ?q)))"
      using pq.pop_law [OF Suc.prems(2) ne] by (auto simp only: list.size)
    have "uwritable (mem w) ?pt (a + of_nat i)"
      using Suc.prems(4) [of 0] ne by (simp del: length_greater_0_conv pq.none_law add: length_greater_0_conv [symmetric])
    then obtain w1 where w1: "piperead_copy (Suc left) pi pr a i w = piperead_copy left pi pr a (Suc i) w1" "took 1 pi ?pt (a + of_nat i) w w1"
      using piperead_step [OF Suc.prems(1,2) False] by blast
    have e: "wrote_user (mem w) ?pt (mem w1)" "w1 = w\<lparr>mem := mem w1, pipes := (pipes w)(pi := pipe_pop ?q)\<rparr>"
      using w1(2) unfolding took_front [OF Suc.prems(2) ne] by blast+
    have f: "procs w1 = procs w" "pipes w1 pi = pipe_pop ?q" by (subst e(2), simp)+
    let ?k = "min left (length (pipe_contents (pipe_pop ?q)))"
    have "uwritable (mem w1) ?pt (a + of_nat (Suc i + y))" if "y < ?k" for y
      using Suc.prems(4) [of "Suc y"] that q1(2) wrote_user_writable [OF e(1)] by simp
    then obtain w2 where w2: "piperead_copy left pi pr a (Suc i) w1 = Ok (int (Suc i + ?k)) w2" "took ?k pi ?pt (a + of_nat (Suc i)) w1 w2"
      using Suc.IH [of w1 "Suc i"] e(1) q1(1) Suc.prems(3) unfolding f by (auto simp: wrote_user_def)
    have k: "min (Suc left) (length ?xs) = Suc ?k" using q1(2) by simp
    have "took (Suc ?k) pi ?pt (a + of_nat i) w w2"
      by (rule took_Suc [OF w1(2) _ Suc.prems(2) ne]) (use w2(2) Suc.prems(3) in \<open>simp_all add: algebra_simps\<close>)
    then show ?thesis unfolding k using w1(1) w2(1) by (intro exI [of _ w2]) simp
  qed
qed

lemma took_hold: "took k pi pt va (hold lk w) w' \<Longrightarrow> \<exists>w1. w' = hold lk w1 \<and> took k pi pt va w w1"
  unfolding took_def
  by (intro exI [of _ "w\<lparr>mem := mem w', pipes := (pipes w)(pi := (pipe_pop ^^ k) (pipes w pi))\<rparr>"])
     (simp del: fun_upd_apply)

lemma took_frame:
  assumes "took k pi pt va w w'"
  shows "kctx p w' = kctx p w" "procs w' = procs w" "locks w' = locks w"
proof -
  obtain m P where "w' = w\<lparr>mem := m, pipes := P\<rparr>" using assms unfolding took_def by blast
  then show "kctx p w' = kctx p w" "procs w' = procs w" "locks w' = locks w" by simp_all
qed

lemma piperead_run:
  assumes "kctx p w" "uctx (mem w) (p_pagetable (procs w ! p))" "pipe_ok (pipes w pi)" "0 \<le> n" "n < 2 ^ 31"
    and "pipe_contents (pipes w pi) \<noteq> [] \<or> \<not> pi_writeopen (pipes w pi)"
  defines "k \<equiv> min (nat n) (length (pipe_contents (pipes w pi)))"
  assumes "\<And>y. y < k \<Longrightarrow> uwritable (mem w) (p_pagetable (procs w ! p)) (a + of_nat y)"
  shows "\<exists>w'. piperead pi a n w = Ok (int k) (w'\<lparr>procs := wake (Chan_nwrite pi) (Some p) (procs w)\<rparr>)
     \<and> took k pi (p_pagetable (procs w ! p)) a w w'"
proof -
  let ?h = "hold (Pipe_lock pi) w"
  have "\<exists>w'. piperead_copy (nat n) pi p a 0 ?h = Ok (int k) w' \<and> took k pi (p_pagetable (procs w ! p)) a ?h w'"
    using piperead_copy_run [of ?h p pi "nat n" a 0] assms(2,3,5,8) by (simp add: k_def)
  then obtain w1 where w1: "piperead_copy (nat n) pi p a 0 ?h = Ok (int k) (hold (Pipe_lock pi) w1)" "took k pi (p_pagetable (procs w ! p)) a w w1"
    using took_hold by blast
  have "\<not> (pi_nread (pipes w pi) = pi_nwrite (pipes w pi) \<and> pi_writeopen (pipes w pi))"
    using assms(6) pq.none_law [OF assms(3)] by blast
  then have "piperead pi a n w = Ok (int k) (w1\<lparr>procs := wake (Chan_nwrite pi) (Some p) (procs w1)\<rparr>)"
    using assms(1) w1(1) took_frame [OF w1(2)] 
    by (cases "pi_nread (pipes w pi) = pi_nwrite (pipes w pi)") (simp_all add: piperead_def run_simps loop_def)
  then show ?thesis using w1(2) took_frame [OF w1(2)] by auto
qed

section \<open>Writing to a pipe\<close>

lemma copyin_one:
  assumes "uctx (mem w) root" "umem (mem w) root va = Some x"
  shows "copyin root va 1 w = Ok (0, [x]) w"
proof -
  obtain r bs where "copyin root va 1 w = Ok (r, bs) w" "\<forall>i < length bs. umem (mem w) root (va + of_nat i) = Some (bs ! i)"
    "r = 0 \<and> length bs = 1 \<or> r = - 1 \<and> length bs < 1 \<and> umem (mem w) root (va + of_nat (length bs)) = None"
    using copyin_run [OF assms(1), of va 1] by blast
  then show ?thesis using assms(2) by (cases bs) auto
qed

definition pipe_set :: "addr \<Rightarrow> pipe \<Rightarrow> world \<Rightarrow> world" where
  "pipe_set pi q w = w\<lparr>pipes := (pipes w)(pi := q)\<rparr>"

lemma pipe_set_simps [simp]:
  "pipes (pipe_set pi q w) pi = q" "mem (pipe_set pi q w) = mem w" "procs (pipe_set pi q w) = procs w"
  "kctx p (pipe_set pi q w) = kctx p w" "pipe_set pi q (hold lk w) = hold lk (pipe_set pi q w)"
  "pipe_set pi q' (pipe_set pi q w) = pipe_set pi q' w" "pipe_set pi (pipes w pi) w = w"
  by (simp_all add: pipe_set_def del: fun_upd_apply) simp_all

definition pipe_writable :: "nat \<Rightarrow> pipe \<Rightarrow> world \<Rightarrow> bool" where
  "pipe_writable p q w \<longleftrightarrow> pi_readopen q \<and> p_killed (procs w ! p) = 0"

lemma pipewrite_byte_run:
  assumes "kctx p w" "uctx (mem w) (p_pagetable (procs w ! p))" "pipe_ok (pipes w pi)" "pipe_writable p (pipes w pi) w"
    "length (pipe_contents (pipes w pi)) < PIPESIZE" "umem (mem w) (p_pagetable (procs w ! p)) a = Some x"
  shows "pipewrite_byte pi p a (hold (Pipe_lock pi) w) =
     Ok (Some Wr_next) (hold (Pipe_lock pi) (pipe_set pi (pipe_put x (pipes w pi)) w))"
proof -
  have "pi_nwrite (pipes w pi) \<noteq> pi_nread (pipes w pi) + of_nat PIPESIZE" using pq.full_law [OF assms(3)] assms(5) by simp
  moreover have "copyin (p_pagetable (procs w ! p)) a 1 (hold (Pipe_lock pi) w) = Ok (0, [x]) (hold (Pipe_lock pi) w)"
    by (rule copyin_one) (use assms(2,6) in simp_all)
  ultimately show ?thesis using assms(1,4)
    by (simp add: pipewrite_byte_def run_simps killed_def pipe_writable_def upd_pipe_def pipe_set_def pipe_put_def)
qed

lemma pipewrite_loop_run:
  assumes "kctx p w" "uctx (mem w) (p_pagetable (procs w ! p))" "pipe_ok (pipes w pi)" "pipe_writable p (pipes w pi) w"
    "length (pipe_contents (pipes w pi)) + length xs \<le> PIPESIZE"
    "\<And>y. y < length xs \<Longrightarrow> umem (mem w) (p_pagetable (procs w ! p)) (a + of_nat (i + y)) = Some (xs ! y)"
  shows "pipewrite_loop (length xs) pi p a i (hold (Pipe_lock pi) w) =
     Ok (Some (int (i + length xs))) (hold (Pipe_lock pi) (pipe_set pi (fold pipe_put xs (pipes w pi)) w))"
  using assms
proof (induction xs arbitrary: i w)
  case (Cons x xs)
  let ?w = "pipe_set pi (pipe_put x (pipes w pi)) w"
  have q: "pipe_ok (pipe_put x (pipes w pi))" "length (pipe_contents (pipe_put x (pipes w pi))) = Suc (length (pipe_contents (pipes w pi)))"
    using pq.put_law [OF Cons.prems(3), of x] Cons.prems(5) by auto
  have b: "pipewrite_byte pi p (a + of_nat i) (hold (Pipe_lock pi) w) = Ok (Some Wr_next) (hold (Pipe_lock pi) ?w)"
    by (rule pipewrite_byte_run) (use Cons.prems Cons.prems(6) [of 0] in simp_all)
  have "pipewrite_loop (length xs) pi p a (Suc i) (hold (Pipe_lock pi) ?w) =
     Ok (Some (int (Suc i + length xs))) (hold (Pipe_lock pi) (pipe_set pi (fold pipe_put xs (pipes ?w pi)) ?w))"
  proof (rule Cons.IH)
    show "umem (mem ?w) (p_pagetable (procs ?w ! p)) (a + of_nat (Suc i + y)) = Some (xs ! y)" if "y < length xs" for y
      using Cons.prems(6) [of "Suc y"] that by simp
    show "pipe_writable p (pipes ?w pi) ?w" using Cons.prems(4) by (simp add: pipe_writable_def pipe_put_def)
  qed (use Cons.prems q in simp_all)
  then show ?case using b by (simp add: bind_def loop_def)
qed simp

lemma pipewrite_run:
  assumes "kctx p w" "uctx (mem w) (p_pagetable (procs w ! p))" "pipe_ok (pipes w pi)" "pipe_writable p (pipes w pi) w"
    "length (pipe_contents (pipes w pi)) + length xs \<le> PIPESIZE"
    "\<And>y. y < length xs \<Longrightarrow> umem (mem w) (p_pagetable (procs w ! p)) (a + of_nat y) = Some (xs ! y)"
  shows "pipewrite pi a (int (length xs)) w =
     Ok (int (length xs)) ((pipe_set pi (fold pipe_put xs (pipes w pi)) w)\<lparr>procs := wake (Chan_nread pi) (Some p) (procs w)\<rparr>)"
  using pipewrite_loop_run [OF assms(1-5), of a 0] assms(1,6) by (simp add: pipewrite_def run_simps)

section \<open>What the pipe routines do\<close>

definition demo_pipe :: "nat \<Rightarrow> world" where
  \<comment> \<open>process 0 running in the address space of \<open>demo_mem\<close>, and an open pipe with \<open>n\<close> zero bytes in it\<close>
  "demo_pipe n = (one_running [])\<lparr>mem := demo_mem, procs := map (\<lambda>q. q\<lparr>p_pagetable := demo_root\<rparr>) (procs (one_running [])),
     pipes := (\<lambda>_. \<lparr>pi_data = replicate PIPESIZE 0, pi_nread = 0, pi_nwrite = of_nat n, pi_readopen = True, pi_writeopen = True\<rparr>)\<rparr>"

lemma demo_pipe_simps [simp]:
  "kctx 0 (demo_pipe n)" "p_pagetable (procs (demo_pipe n) ! 0) = demo_root" "p_killed (procs (demo_pipe n) ! 0) = 0"
  "mem (demo_pipe n) = demo_mem" "pi_readopen (pipes (demo_pipe n) q)" "n \<le> PIPESIZE \<Longrightarrow> pipe_ok (pipes (demo_pipe n) q)"
  "n \<le> PIPESIZE \<Longrightarrow> pipe_contents (pipes (demo_pipe n) q) = replicate n 0"
proof -
  have k: "kctx 0 (one_running [])" by (simp add: kctx_def layout)
  then have l: "length (procs (one_running [])) = NPROC" by (rule kctxD(5))
  show "kctx 0 (demo_pipe n)" using k by (simp add: demo_pipe_def)
  show "p_pagetable (procs (demo_pipe n) ! 0) = demo_root" "p_killed (procs (demo_pipe n) ! 0) = 0"
    using l by (simp_all add: demo_pipe_def layout procs_one_running zero_proc_def)
  show "mem (demo_pipe n) = demo_mem" "pi_readopen (pipes (demo_pipe n) q)" by (simp_all add: demo_pipe_def)
  assume "n \<le> PIPESIZE"
  moreover from this have "unat (of_nat n :: 32 word) = n" by (simp add: layout unat_of_nat)
  ultimately show "pipe_ok (pipes (demo_pipe n) q)" "pipe_contents (pipes (demo_pipe n) q) = replicate n 0"
    by (auto simp: demo_pipe_def ring_contents_def layout intro!: nth_equalityI)
qed

text \<open>
  C21. \<open>piperead\<close> of a pipe that holds bytes, or whose write end is closed, into a user buffer that is
  writable for as many bytes as it is to return, returns without sleeping (what happens when it is not, is stated below).
  The count it returns is the smaller of the bytes asked for and the bytes there; so many bytes have
  gone from the front of the pipe to the user buffer in their order, the rest stays in the pipe, no
  other pipe changes, and the writers that sleep on the pipe have been woken.
\<close>

theorem piperead_takes_front:
  assumes "kctx p w" "uctx (mem w) (p_pagetable (procs w ! p))" "pipe_ok (pipes w pi)" "0 \<le> n" "n < 2 ^ 31"
    and "pipe_contents (pipes w pi) \<noteq> [] \<or> \<not> pi_writeopen (pipes w pi)"
    and "\<And>y. y < min (nat n) (length (pipe_contents (pipes w pi))) \<Longrightarrow> uwritable (mem w) (p_pagetable (procs w ! p)) (a + of_nat y)"
  shows "\<exists>w' k. piperead pi a n w = Ok (int k) w' \<and> k = min (nat n) (length (pipe_contents (pipes w pi)))
     \<and> pipe_ok (pipes w' pi) \<and> pipe_contents (pipes w' pi) = drop k (pipe_contents (pipes w pi))
     \<and> umem (mem w') (p_pagetable (procs w ! p)) = uput a (take k (pipe_contents (pipes w pi))) (umem (mem w) (p_pagetable (procs w ! p)))
     \<and> (\<forall>q. q \<noteq> pi \<longrightarrow> pipes w' q = pipes w q) \<and> procs w' = wake (Chan_nwrite pi) (Some p) (procs w)"
proof -
  define k where "k = min (nat n) (length (pipe_contents (pipes w pi)))"
  obtain w' where w': "piperead pi a n w = Ok (int k) (w'\<lparr>procs := wake (Chan_nwrite pi) (Some p) (procs w)\<rparr>)"
    "took k pi (p_pagetable (procs w ! p)) a w w'"
    using piperead_run [OF assms] unfolding k_def by blast
  have e: "w' = w\<lparr>mem := mem w', pipes := (pipes w)(pi := (pipe_pop ^^ k) (pipes w pi))\<rparr>"
    "umem (mem w') (p_pagetable (procs w ! p)) = uput a (take k (pipe_contents (pipes w pi))) (umem (mem w) (p_pagetable (procs w ! p)))"
    using w'(2) unfolding took_def by blast+
  have "pipes w' = (pipes w)(pi := (pipe_pop ^^ k) (pipes w pi))" by (subst e(1)) simp
  moreover have "k \<le> length (pipe_contents (pipes w pi))" by (simp add: k_def)
  ultimately show ?thesis unfolding k_def [symmetric] using w'(1) e(2) pq.pops [OF assms(3), of k]
    by (intro exI [of _ "w'\<lparr>procs := wake (Chan_nwrite pi) (Some p) (procs w)\<rparr>"] exI [of _ k]) (simp del: length_ring_contents)
qed

theorem piperead_takes_front_witness:
  "\<exists>w'. piperead 64 8 2 (demo_pipe 3) = Ok 2 w' \<and> pipe_contents (pipes w' 64) = [0]"
proof -
  let ?w = "demo_pipe 3"
  have n: "(3 :: nat) \<le> PIPESIZE" by (simp add: layout)
  have c: "pipe_contents (pipes ?w 64) = [0, 0, 0]" using demo_pipe_simps(7) [OF n, of 64] by (simp add: numeral_3_eq_3)
  have u: "uwritable (mem ?w) (p_pagetable (procs ?w ! 0)) (8 + of_nat y)" if "y < min (nat 2) (length (pipe_contents (pipes ?w 64)))" for y
    using that same_page_offset(1) [of y 8] unfolding c by (simp add: demo_user PGROUNDDOWN_def PGSIZE_def)
  have "uctx (mem ?w) (p_pagetable (procs ?w ! 0))" by (simp add: demo_user)
  then show ?thesis
    using piperead_takes_front [where pi = 64 and n = 2, OF demo_pipe_simps(1) _ demo_pipe_simps(6) [OF n] _ _ _ u] unfolding c by fastforce
qed

text \<open>
  C10. Bytes written to an empty pipe come out of it unchanged and in order: a process that writes
  the bytes \<open>xs\<close>, no more than fit, from address \<open>a\<close> and then reads as many back to address \<open>b\<close> is
  told each time that all of them were transferred, finds \<open>xs\<close> at \<open>b\<close>, and leaves the pipe empty.
\<close>

theorem pipe_round_trip:
  assumes "kctx p w" "uctx (mem w) (p_pagetable (procs w ! p))" "pipe_ok (pipes w pi)" "pipe_contents (pipes w pi) = []"
    and "pi_readopen (pipes w pi)" "p_killed (procs w ! p) = 0" "xs \<noteq> []" "length xs \<le> PIPESIZE"
    and "\<And>y. y < length xs \<Longrightarrow> umem (mem w) (p_pagetable (procs w ! p)) (a + of_nat y) = Some (xs ! y)"
    and "\<And>y. y < length xs \<Longrightarrow> uwritable (mem w) (p_pagetable (procs w ! p)) (b + of_nat y)"
  shows "\<exists>w1 w2. pipewrite pi a (int (length xs)) w = Ok (int (length xs)) w1 \<and> pipe_contents (pipes w1 pi) = xs
     \<and> piperead pi b (int (length xs)) w1 = Ok (int (length xs)) w2 \<and> pipe_contents (pipes w2 pi) = []
     \<and> umem (mem w2) (p_pagetable (procs w ! p)) = uput b xs (umem (mem w) (p_pagetable (procs w ! p)))"
proof -
  let ?pt = "p_pagetable (procs w ! p)" and ?q = "fold pipe_put xs (pipes w pi)"
  let ?w1 = "(pipe_set pi ?q w)\<lparr>procs := wake (Chan_nread pi) (Some p) (procs w)\<rparr>"
  have pt: "p_pagetable (procs ?w1 ! p) = ?pt" using assms(1) sched_only_sel(4) [OF sched_only_wake [OF sched_only_refl]] by simp
  have w1: "pipewrite pi a (int (length xs)) w = Ok (int (length xs)) ?w1"
    by (rule pipewrite_run) (use assms in \<open>simp_all add: pipe_writable_def\<close>)
  have q: "pipe_ok ?q" "pipe_contents ?q = xs" using pq.puts [OF assms(3), of xs] assms(4,8) by simp_all
  have "\<exists>w'. piperead pi b (int (length xs)) ?w1 =
       Ok (int (min (nat (int (length xs))) (length (pipe_contents (pipes ?w1 pi))))) (w'\<lparr>procs := wake (Chan_nwrite pi) (Some p) (procs ?w1)\<rparr>)
     \<and> took (min (nat (int (length xs))) (length (pipe_contents (pipes ?w1 pi)))) pi (p_pagetable (procs ?w1 ! p)) b ?w1 w'"
    by (rule piperead_run) (use assms q pt in \<open>simp_all add: layout\<close>)
  then obtain w' where w': "piperead pi b (int (length xs)) ?w1 = Ok (int (length xs)) (w'\<lparr>procs := wake (Chan_nwrite pi) (Some p) (procs ?w1)\<rparr>)"
    "took (length xs) pi ?pt b ?w1 w'" using q(2) pt by auto
  have e: "w' = ?w1\<lparr>mem := mem w', pipes := (pipes ?w1)(pi := (pipe_pop ^^ length xs) ?q)\<rparr>"
    "umem (mem w') ?pt = uput b xs (umem (mem w) ?pt)" using w'(2) q(2) unfolding took_def by simp_all
  have "pipes w' pi = (pipe_pop ^^ length xs) ?q" by (subst e(1)) simp
  then have "pipe_contents (pipes w' pi) = []" using pq.pops [OF q(1), of "length xs"] q(2) by simp
  then show ?thesis using w1 w'(1) e(2) q(2) by (intro exI conjI) (assumption | simp)+
qed

theorem pipe_round_trip_witness:
  "\<exists>xs w1 w2. length xs = 2 \<and> pipewrite 64 0 2 (demo_pipe 0) = Ok 2 w1 \<and> pipe_contents (pipes w1 64) = xs
     \<and> piperead 64 16 2 w1 = Ok 2 w2 \<and> umem (mem w2) demo_root = uput 16 xs (umem demo_mem demo_root)"
proof -
  let ?w = "demo_pipe 0" and ?xs = "[demo_mem (upa demo_pte 0), demo_mem (upa demo_pte 1)]"
  have n: "(0 :: nat) \<le> PIPESIZE" by simp
  have p: "PGROUNDDOWN (of_nat y) = 0" "PGROUNDDOWN (16 + of_nat y) = 0" if "y < 2" for y
    using that same_page_offset(1) [of y 0] same_page_offset(1) [of y 16] by (simp_all add: PGROUNDDOWN_def PGSIZE_def)
  have r: "umem (mem ?w) (p_pagetable (procs ?w ! 0)) (0 + of_nat y) = Some (?xs ! y)" if "y < length ?xs" for y
    using that p(1) [of y] by (cases y) (auto simp: umem_def demo_user less_Suc_eq)
  have u: "uwritable (mem ?w) (p_pagetable (procs ?w ! 0)) (16 + of_nat y)" if "y < length ?xs" for y
    using that p(2) [of y] by (simp add: demo_user)
  have "\<exists>w1 w2. pipewrite 64 0 (int (length ?xs)) ?w = Ok (int (length ?xs)) w1 \<and> pipe_contents (pipes w1 64) = ?xs
     \<and> piperead 64 16 (int (length ?xs)) w1 = Ok (int (length ?xs)) w2 \<and> pipe_contents (pipes w2 64) = []
     \<and> umem (mem w2) (p_pagetable (procs ?w ! 0)) = uput 16 ?xs (umem (mem ?w) (p_pagetable (procs ?w ! 0)))"
    by (rule pipe_round_trip [OF demo_pipe_simps(1) _ demo_pipe_simps(6) [OF n] demo_pipe_simps(7) [OF n, unfolded replicate_0] _ _ _ _ r u])
      (simp_all add: demo_user layout)
  then obtain w1 w2 where "pipewrite 64 0 2 ?w = Ok 2 w1" "pipe_contents (pipes w1 64) = ?xs" "piperead 64 16 2 w1 = Ok 2 w2"
    "umem (mem w2) demo_root = uput 16 ?xs (umem demo_mem demo_root)" by auto
  then show ?thesis by (intro exI [of _ ?xs] exI [of _ w1] exI [of _ w2]) simp
qed

text \<open>
  C33. \<open>piperead\<close> counts a byte as read before it tries to copy it out: when the user address is not
  writable, it returns 0 as at the end of the file, and the first byte of the pipe is lost.
\<close>

theorem piperead_loses_byte:
  assumes "kctx p w" "uctx (mem w) (p_pagetable (procs w ! p))" "pipe_ok (pipes w pi)" "0 < n"
    and "pipe_contents (pipes w pi) = x # xs" "\<not> uwritable (mem w) (p_pagetable (procs w ! p)) a"
  shows "\<exists>w'. piperead pi a n w = Ok 0 w' \<and> pipe_contents (pipes w' pi) = xs
     \<and> umem (mem w') (p_pagetable (procs w ! p)) = umem (mem w) (p_pagetable (procs w ! p))"
proof -
  let ?h = "hold (Pipe_lock pi) w" and ?pt = "p_pagetable (procs w ! p)"
  have ne: "pi_nread (pipes w pi) \<noteq> pi_nwrite (pipes w pi)" using pq.none_law [OF assms(3)] assms(5) by simp
  obtain l where l: "nat n = Suc l" using assms(4) by (cases "nat n") auto
  obtain m where m: "piperead_copy (Suc l) pi p a 0 ?h = Ok (int 0) (?h\<lparr>mem := m, pipes := (pipes ?h)(pi := pipe_pop (pipes ?h pi))\<rparr>)"
    "umem m ?pt = umem (mem w) ?pt"
    using piperead_fails [of ?h p pi a 0 l] assms(2,6) ne by auto
  let ?w = "w\<lparr>mem := m, pipes := (pipes w)(pi := pipe_pop (pipes w pi))\<rparr>"
  have "piperead_copy (Suc l) pi p a 0 ?h = Ok 0 (hold (Pipe_lock pi) ?w)" using m(1) by simp
  then have "piperead pi a n w = Ok 0 (?w\<lparr>procs := wake (Chan_nwrite pi) (Some p) (procs w)\<rparr>)"
    using assms(1) ne l by (simp add: piperead_def run_simps loop_def)
  moreover have "pipe_contents (pipe_pop (pipes w pi)) = xs" using pq.pop_law [OF assms(3)] assms(5) by simp
  ultimately show ?thesis using m(2) by (intro exI conjI) (assumption | simp)+
qed

theorem piperead_loses_byte_witness:
  "\<exists>w'. piperead 64 4096 1 (demo_pipe 1) = Ok 0 w' \<and> pipe_contents (pipes w' 64) = []"
proof -
  have n: "(1 :: nat) \<le> PIPESIZE" by (simp add: layout)
  have "pipe_contents (pipes (demo_pipe 1) 64) = [0]" using demo_pipe_simps(7) [OF n] by simp
  then show ?thesis
    using piperead_loses_byte [where n = 1 and a = 4096, OF demo_pipe_simps(1) _ demo_pipe_simps(6) [OF n]]
    by (simp add: demo_user PGROUNDDOWN_def PGSIZE_def) blast
qed

end
