(* ===== verification/Tty.thy ===== *)
theory Tty
  imports Fifo
begin

text \<open>
  The console as a terminal. The input buffer, indexed by three free-running counters, implements a
  line discipline: lines already entered, which readers may take, and the line being edited. The
  kernel's number formatting prints the digits of the number, as long as they fit its buffer.
\<close>

section \<open>Echo\<close>

definition emitted :: "int list \<Rightarrow> world \<Rightarrow> world" where
  \<comment> \<open>after the characters have gone to the transmitter\<close>
  "emitted cs w = fold put_thr cs w"

lemma emitted_simps [simp]:
  "kout (emitted cs w) = kout w @ map word_of_int cs" "cons (emitted cs w) = cons w" "procs (emitted cs w) = procs w"
  "panicked (emitted cs w) = panicked w" "calm (emitted cs w) = calm w" "free_lock lk (emitted cs w) = free_lock lk w"
  "procs_free (emitted cs w) = procs_free w" "emitted cs (hold lk w) = hold lk (emitted cs w)"
  "kctx p (emitted cs w) = kctx p w" "cpus (emitted cs w) = cpus w" "hart (emitted cs w) = hart w"
  unfolding emitted_def by (induction cs arbitrary: w) (simp_all add: put_thr_def)

lemma emitted_append: "emitted ds (emitted cs w) = emitted (cs @ ds) w"
  by (simp add: emitted_def)

lemma put_thr_emitted: "put_thr c w = emitted [c] w"
  by (simp add: emitted_def)

lemma uartputc_sync_run [run_simps]:
  assumes "calm w" "\<not> panicked w"
  shows "uartputc_sync c w = Ok () (emitted [c] w)"
proof -
  have h: "hart w < length (cpus w)" using assms by (simp add: calm_def)
  show ?thesis
  proof (cases "noff (this_cpu w) = 0")
    case True
    then show ?thesis using assms h
      by (simp add: uartputc_sync_def push_off_run pop_off_def run_simps intr_on_run upd_defs calm_def put_thr_def emitted_def
          lock_orders sie_def SIE_cleared SIE_restored SIE_already_clear)
  next
    case False
    then show ?thesis using assms h
      by (simp add: uartputc_sync_def push_off_run pop_off_def run_simps intr_on_run upd_defs calm_def put_thr_def emitted_def
          lock_orders sie_def SIE_cleared SIE_restored SIE_already_clear)
  qed
qed

definition echo_of :: "int \<Rightarrow> int list" where
  "echo_of c = (if c = BACKSPACE then [8, 32, 8] else [c])"

lemma consputc_run [run_simps]:
  "calm w \<Longrightarrow> \<not> panicked w \<Longrightarrow> consputc c w = Ok () (emitted (echo_of c) w)"
  by (simp add: consputc_def run_simps emitted_append echo_of_def)

section \<open>The line discipline\<close>

abbreviation cons_input :: "console \<Rightarrow> byte list" where
  \<comment> \<open>everything typed and not yet read\<close>
  "cons_input c \<equiv> ring_contents INPUT_BUF_SIZE (cons_buf c) (cons_r c) (cons_e c)"

definition cons_lines :: "console \<Rightarrow> byte list \<times> byte list" where
  \<comment> \<open>the lines entered, and the line being edited\<close>
  "cons_lines c = (take (unat (cons_w c - cons_r c)) (cons_input c), drop (unat (cons_w c - cons_r c)) (cons_input c))"

definition cons_ok :: "console \<Rightarrow> bool" where
  "cons_ok c \<longleftrightarrow> length (cons_buf c) = INPUT_BUF_SIZE \<and> unat (cons_e c - cons_r c) \<le> INPUT_BUF_SIZE
     \<and> unat (cons_w c - cons_r c) \<le> unat (cons_e c - cons_r c) \<and> 10 \<notin> set (snd (cons_lines c))"

definition line_edit :: "int \<Rightarrow> byte list \<times> byte list \<Rightarrow> byte list \<times> byte list" where
  \<comment> \<open>what a key does to the lines entered and the line being edited\<close>
  "line_edit c = (\<lambda>(entered, line).
     if c = Ctrl CHR ''U'' then (entered, [])
     else if c = Ctrl CHR ''H'' \<or> c = 0x7f then (entered, butlast line)
     else if c \<noteq> 0 \<and> length entered + length line < INPUT_BUF_SIZE then
       let c = (if c = 13 then 10 else c); line' = line @ [word_of_int c] in
       if c = 10 \<or> c = Ctrl CHR ''D'' \<or> length entered + length line' = INPUT_BUF_SIZE
       then (entered @ line', []) else (entered, line')
     else (entered, line))"

definition echo :: "int \<Rightarrow> byte list \<times> byte list \<Rightarrow> int list" where
  \<comment> \<open>what it shows on the screen\<close>
  "echo c = (\<lambda>(entered, line).
     if c = Ctrl CHR ''U'' then concat (replicate (length line) [8, 32, 8])
     else if c = Ctrl CHR ''H'' \<or> c = 0x7f then (if line = [] then [] else [8, 32, 8])
     else if c \<noteq> 0 \<and> length entered + length line < INPUT_BUF_SIZE then [if c = 13 then 10 else c]
     else [])"

lemma line_length: "cons_ok c \<Longrightarrow> length (snd (cons_lines c)) = unat (cons_e c - cons_w c)"
proof -
  assume ok: "cons_ok c"
  then have "unat (cons_w c - cons_r c) \<le> unat (cons_e c - cons_r c)" by (simp add: cons_ok_def)
  moreover have "cons_e c - cons_w c = (cons_e c - cons_r c) - (cons_w c - cons_r c)" by simp
  ultimately have "unat (cons_e c - cons_w c) = unat (cons_e c - cons_r c) - unat (cons_w c - cons_r c)"
    by (simp only: unat_sub word_le_nat_alt)
  then show ?thesis by (simp add: cons_lines_def)
qed

lemma all_length: "cons_ok c \<Longrightarrow> length (fst (cons_lines c)) + length (snd (cons_lines c)) = unat (cons_e c - cons_r c)"
  by (simp add: cons_lines_def cons_ok_def)

lemma line_empty: "cons_ok c \<Longrightarrow> cons_e c = cons_w c \<longleftrightarrow> snd (cons_lines c) = []"
  using line_length [of c] by (metis eq_iff_diff_eq_0 length_0_conv unat_eq_0)

lemma erase_last:
  assumes "cons_ok c" "cons_e c \<noteq> cons_w c"
  shows "cons_ok (c\<lparr>cons_e := cons_e c - 1\<rparr>)"
    and "cons_lines (c\<lparr>cons_e := cons_e c - 1\<rparr>) = (fst (cons_lines c), butlast (snd (cons_lines c)))"
    and "cons_buf c ! (unat (cons_e c - 1) mod INPUT_BUF_SIZE) = last (snd (cons_lines c))"
proof -
  let ?k = "unat (cons_w c - cons_r c)" and ?n = "unat (cons_e c - cons_r c)"
  have k: "?k < ?n" using assms line_empty [OF assms(1)] by (auto simp: cons_ok_def cons_lines_def)
  then have ne: "cons_r c \<noteq> cons_e c" by auto
  have i: "cons_input (c\<lparr>cons_e := cons_e c - 1\<rparr>) = butlast (cons_input c)" by (simp add: ring_unput [OF ne])
  have n: "?n = Suc (unat (cons_e c - 1 - cons_r c))" using unat_prev [OF ne] by (simp add: algebra_simps)
  show l: "cons_lines (c\<lparr>cons_e := cons_e c - 1\<rparr>) = (fst (cons_lines c), butlast (snd (cons_lines c)))"
    using k n unfolding cons_lines_def i by (simp add: butlast_conv_take drop_take take_butlast)
  show "cons_ok (c\<lparr>cons_e := cons_e c - 1\<rparr>)"
    using assms(1) k n unfolding cons_ok_def l by (auto dest: in_set_butlastD)
  have "last (snd (cons_lines c)) = cons_input c ! (?n - 1)"
    using k by (simp add: cons_lines_def last_conv_nth)
  also have "\<dots> = cons_buf c ! (unat (cons_r c + of_nat (?n - 1)) mod INPUT_BUF_SIZE)" using k by (intro ring_nth) simp
  also have "cons_r c + of_nat (?n - 1) = cons_e c - 1" using n by (simp add: algebra_simps)
  finally show "cons_buf c ! (unat (cons_e c - 1) mod INPUT_BUF_SIZE) = last (snd (cons_lines c))" by simp
qed

lemma type_char:
  assumes "cons_ok c" "unat (cons_e c - cons_r c) < INPUT_BUF_SIZE"
  shows "cons_lines (cons_put x c) = (fst (cons_lines c), snd (cons_lines c) @ [x])"
    and "x \<noteq> 10 \<Longrightarrow> cons_ok (cons_put x c)"
    and "cons_ok ((cons_put x c)\<lparr>cons_w := cons_e (cons_put x c)\<rparr>)"
    and "cons_lines ((cons_put x c)\<lparr>cons_w := cons_e (cons_put x c)\<rparr>) = (fst (cons_lines c) @ snd (cons_lines c) @ [x], [])"
proof -
  have k: "unat (cons_w c - cons_r c) \<le> unat (cons_e c - cons_r c)" "10 \<notin> set (snd (cons_lines c))" using assms(1) by (simp_all add: cons_ok_def)
  have p: "length (cons_buf (cons_put x c)) = INPUT_BUF_SIZE" "unat (cons_e (cons_put x c) - cons_r (cons_put x c)) \<le> INPUT_BUF_SIZE"
    "cons_input (cons_put x c) = cons_input c @ [x]"
    using cq.put_law [of c x] assms by (auto simp: cons_ok_def)
  have n: "unat (cons_e (cons_put x c) - cons_r (cons_put x c)) = Suc (unat (cons_e c - cons_r c))"
    using HOL.arg_cong [OF p(3), of length] by simp
  have w: "cons_w (cons_put x c) = cons_w c" "cons_r (cons_put x c) = cons_r c" by (simp_all add: cons_put_def)
  show l: "cons_lines (cons_put x c) = (fst (cons_lines c), snd (cons_lines c) @ [x])"
    unfolding cons_lines_def p(3) using k w by simp
  show "cons_ok (cons_put x c)" if "x \<noteq> 10" unfolding cons_ok_def l using p(1,2) n k w that by simp
  have i: "cons_input ((cons_put x c)\<lparr>cons_w := cons_e (cons_put x c)\<rparr>) = cons_input c @ [x]" using p(3) by simp
  show m: "cons_lines ((cons_put x c)\<lparr>cons_w := cons_e (cons_put x c)\<rparr>) = (fst (cons_lines c) @ snd (cons_lines c) @ [x], [])"
    unfolding cons_lines_def i using n by simp
  show "cons_ok ((cons_put x c)\<lparr>cons_w := cons_e (cons_put x c)\<rparr>)" unfolding cons_ok_def m using p(1,2) by simp
qed

definition ictx :: "world \<Rightarrow> bool" where
  \<comment> \<open>an interrupt handler may run: nothing it needs is locked\<close>
  "ictx w \<longleftrightarrow> calm w \<and> \<not> panicked w \<and> procs_free w \<and> free_lock Cons_lock w"

lemma ictxD:
  assumes "ictx w"
  shows "calm w" "\<not> panicked w" "free_lock Cons_lock w" "length (procs w) = NPROC" "p < NPROC \<Longrightarrow> free_lock (Proc_lock p) w"
  using assms by (simp_all add: ictx_def procs_free_def)

lemma ictx_upd [simp]: "ictx (emitted cs w) = ictx w" "ictx (cons_update f w) = ictx w"
  by (simp_all add: ictx_def)

lemma kill_line_run:
  assumes "ictx w" "cons_ok (cons w)" "length (snd (cons_lines (cons w))) = n"
  shows "\<exists>w'. kill_line n (hold Cons_lock w) = Ok () (hold Cons_lock w') \<and> ictx w' \<and> cons_ok (cons w')
     \<and> cons_lines (cons w') = (fst (cons_lines (cons w)), [])
     \<and> kout w' = kout w @ map word_of_int (concat (replicate n [8, 32, 8]))"
  using assms
proof (induction n arbitrary: w)
  case 0
  then have "cons_lines (cons w) = (fst (cons_lines (cons w)), [])" by (simp add: prod_eq_iff)
  then show ?case using "0.prems" by (intro exI [of _ w]) simp
next
  case (Suc n)
  let ?c = "cons w" and ?w = "emitted [8, 32, 8] (w\<lparr>cons := (cons w)\<lparr>cons_e := cons_e (cons w) - 1\<rparr>\<rparr>)"
  have ne: "snd (cons_lines ?c) \<noteq> []" "cons_e ?c \<noteq> cons_w ?c" using Suc.prems line_empty [of ?c] by auto
  note e = erase_last [OF Suc.prems(2) ne(2)]
  have "cons_buf ?c ! (unat (cons_e ?c - 1) mod INPUT_BUF_SIZE) \<noteq> 10"
    using e(3) last_in_set [OF ne(1)] Suc.prems(2) unfolding cons_ok_def by metis
  then have "kill_line (Suc n) (hold Cons_lock w) = kill_line n (hold Cons_lock ?w)"
    using ictxD [OF Suc.prems(1)] ne(2) by (simp add: run_simps upd_cons_def echo_of_def)
  moreover obtain w' where "kill_line n (hold Cons_lock ?w) = Ok () (hold Cons_lock w')" "ictx w'" "cons_ok (cons w')"
     "cons_lines (cons w') = (fst (cons_lines (cons ?w)), [])" "kout w' = kout ?w @ map word_of_int (concat (replicate n [8, 32, 8]))"
    using Suc.IH [of ?w] Suc.prems e(1,2) by auto
  ultimately show ?case using e(2) by (intro exI [of _ w']) simp
qed

definition edits :: "int \<Rightarrow> world \<Rightarrow> world \<Rightarrow> bool" where
  \<comment> \<open>between the two states the console has handled the key\<close>
  "edits c w w' \<longleftrightarrow> cons_ok (cons w') \<and> cons_lines (cons w') = line_edit c (cons_lines (cons w))
     \<and> kout w' = kout w @ map word_of_int (echo c (cons_lines (cons w)))"

lemma byte_newline: "0 \<le> c \<Longrightarrow> c < 256 \<Longrightarrow> (word_of_int c :: byte) = 10 \<longleftrightarrow> c = 10"
  using uint_word_of_int [where 'a = 8, of c] by (auto simp: mod_pos_pos_trivial dest!: HOL.arg_cong [where f = uint])

lemma Ctrl_simps: "Ctrl CHR ''U'' = 21" "Ctrl CHR ''H'' = 8" "Ctrl CHR ''D'' = 4" "Ctrl CHR ''P'' = 16"
  by (simp_all add: Ctrl_def char_code_def)

lemma consoleintr_kill:
  assumes "ictx w" "cons_ok (cons w)"
  shows "\<exists>w'. consoleintr 21 w = Ok () w' \<and> edits 21 w w'"
proof -
  obtain w' where w': "kill_line (unat (cons_e (cons w) - cons_w (cons w))) (hold Cons_lock w) = Ok () (hold Cons_lock w')" "ictx w'" "cons_ok (cons w')"
     "cons_lines (cons w') = (fst (cons_lines (cons w)), [])"
     "kout w' = kout w @ map word_of_int (concat (replicate (length (snd (cons_lines (cons w)))) [8, 32, 8]))"
    using kill_line_run [OF assms refl] line_length [OF assms(2)] by auto
  then have "consoleintr 21 w = Ok () w'"
    using ictxD(1,3) [OF assms(1)] ictxD(1,3) [OF w'(2)] by (simp add: consoleintr_def run_simps Ctrl_simps)
  then show ?thesis using w'(3-5) by (auto simp: edits_def line_edit_def echo_def Ctrl_simps split: prod.split)
qed

lemma consoleintr_erase:
  assumes "ictx w" "cons_ok (cons w)" "c = 8 \<or> c = 127"
  shows "\<exists>w'. consoleintr c w = Ok () w' \<and> edits c w w'"
proof (cases "cons_e (cons w) = cons_w (cons w)")
  case True
  then have "consoleintr c w = Ok () w"
    using ictxD(1,3) [OF assms(1)] assms(3) by (auto simp: consoleintr_def run_simps Ctrl_simps)
  moreover have "snd (cons_lines (cons w)) = []" using True line_empty [OF assms(2)] by simp
  ultimately show ?thesis using assms(2,3) by (intro exI [of _ w]) (auto simp: edits_def line_edit_def echo_def Ctrl_simps split: prod.split)
next
  case False
  let ?w = "emitted [8, 32, 8] (w\<lparr>cons := (cons w)\<lparr>cons_e := cons_e (cons w) - 1\<rparr>\<rparr>)"
  have "consoleintr c w = Ok () ?w"
    using ictxD(1-3) [OF assms(1)] assms(3) False by (auto simp: consoleintr_def run_simps Ctrl_simps upd_cons_def echo_of_def)
  moreover have "snd (cons_lines (cons w)) \<noteq> []" using False line_empty [OF assms(2)] by simp
  ultimately show ?thesis using assms(3) erase_last(1,2) [OF assms(2) False]
    by (intro exI [of _ ?w]) (auto simp: edits_def line_edit_def echo_def Ctrl_simps split: prod.split)
qed

lemma consoleintr_typed:
  assumes "ictx w" "cons_ok (cons w)" "0 \<le> c" "c < 256" "c \<notin> {16, 21, 8, 127}"
  shows "\<exists>w'. consoleintr c w = Ok () w' \<and> edits c w w'"
proof (cases "c \<noteq> 0 \<and> unat (cons_e (cons w) - cons_r (cons w)) < INPUT_BUF_SIZE")
  case False
  then have "\<not> (c \<noteq> 0 \<and> cons_e (cons w) - cons_r (cons w) < of_nat INPUT_BUF_SIZE)" by (auto simp: word_less_nat_alt layout)
  then have "consoleintr c w = Ok () w"
    using ictxD(1,3) [OF assms(1)] assms(5) by (cases "c = 0") (simp_all add: consoleintr_def run_simps Ctrl_simps Let_def)
  then show ?thesis using assms(2,5) False all_length [OF assms(2)]
    by (intro exI [of _ w]) (auto simp: edits_def line_edit_def echo_def Ctrl_simps split: prod.split)
next
  case True
  define x where "x = (if c = 13 then 10 else c)"
  let ?P = "cons_put (word_of_int x) (cons w)" and ?w = "emitted [x] w"
  have x: "0 \<le> x" "x < 256" "x \<noteq> BACKSPACE" using assms(3,4) by (auto simp: x_def BACKSPACE_def)
  note t = type_char [OF assms(2) conjunct2 [OF True], of "word_of_int x"] and l = all_length [OF assms(2)]
  have e: "cons_e ?P - cons_r ?P = of_nat INPUT_BUF_SIZE \<longleftrightarrow> Suc (unat (cons_e (cons w) - cons_r (cons w))) = INPUT_BUF_SIZE"
    using unat_next [OF conjunct2 [OF True]] by (simp add: cons_put_def word_unat_eq_iff layout)
  let ?commit = "x = 10 \<or> x = 4 \<or> cons_e ?P - cons_r ?P = of_nat INPUT_BUF_SIZE"
  have lt: "cons_e (cons w) - cons_r (cons w) < of_nat INPUT_BUF_SIZE" using True by (simp add: word_less_nat_alt layout)
  have r: "consoleintr c w = Ok () (if ?commit then ?w\<lparr>cons := ?P\<lparr>cons_w := cons_e ?P\<rparr>, procs := wake Chan_cons_r (c_proc (this_cpu w)) (procs w)\<rparr>
      else ?w\<lparr>cons := ?P\<rparr>)"
    using ictxD [OF assms(1)] assms(5) True lt x by (simp add: consoleintr_def run_simps Ctrl_simps upd_cons_def echo_of_def cons_put_def Let_def x_def [symmetric])
  obtain a b where L: "cons_lines (cons w) = (a, b)" by (metis surj_pair)
  have c: "c \<noteq> 21" "c \<noteq> 8" "c \<noteq> 127" "c \<noteq> 0" "length a + length b < INPUT_BUF_SIZE" using assms(5) True l L by auto
  then have le: "line_edit c (a, b) = (if ?commit then (a @ b @ [word_of_int x], []) else (a, b @ [word_of_int x]))" "echo c (a, b) = [x]"
    using e l L by (simp_all add: line_edit_def echo_def Ctrl_simps Let_def x_def [symmetric])
  show ?thesis
  proof (cases ?commit)
    case True
    then show ?thesis using r t(3,4) unfolding edits_def L le by simp
  next
    case False
    then have "cons_ok ?P" using t(2) byte_newline x by simp
    then show ?thesis using False r t(1) unfolding edits_def L le by simp
  qed
qed

text \<open>
  C11. The console implements a line discipline. Any key but control-P: control-U erases the line being
  edited, backspace and delete erase its last character, and any other character is echoed and added
  to it as long as the buffer has room; newline, carriage return, control-D or a full buffer enter
  the line, which is when readers get to see it. The characters shown on the screen are exactly the
  echo, the lines already entered are never touched, and the counters stay in order.
\<close>

theorem console_line_discipline:
  assumes "ictx w" "cons_ok (cons w)" "0 \<le> c" "c < 256" "c \<noteq> Ctrl CHR ''P''"
  shows "\<exists>w'. consoleintr c w = Ok () w' \<and> cons_ok (cons w')
     \<and> cons_lines (cons w') = line_edit c (cons_lines (cons w))
     \<and> kout w' = kout w @ map word_of_int (echo c (cons_lines (cons w)))"
proof -
  have "\<exists>w'. consoleintr c w = Ok () w' \<and> edits c w w'"
    using consoleintr_kill [OF assms(1,2)] consoleintr_erase [OF assms(1,2)] consoleintr_typed [OF assms(1-4)] assms(5)
    by (cases "c = 21"; cases "c = 8 \<or> c = 127") (auto simp: Ctrl_simps)
  then show ?thesis by (simp add: edits_def)
qed

theorem console_line_discipline_witness:
  "\<exists>w'. consoleintr 97 bss = Ok () w' \<and> cons_lines (cons w') = ([], [97]) \<and> kout w' = [97]"
proof -
  have i: "ictx bss" using calm_bss free_lock_bss by (simp add: ictx_def procs_free_def) (simp add: bss_def)
  have l: "cons_lines (cons bss) = ([], [])" by (simp add: cons_lines_def bss_def ring_contents_def)
  have o: "cons_ok (cons bss)" unfolding cons_ok_def l by (simp add: bss_def layout)
  have "kout bss = []" by (simp add: bss_def)
  then show ?thesis using console_line_discipline [OF i o, of 97] l
    by (simp add: line_edit_def echo_def Ctrl_simps layout) blast
qed

section \<open>Printing numbers\<close>

definition digit_value :: "char \<Rightarrow> nat" where
  "digit_value c = length (takeWhile (\<lambda>d. d \<noteq> c) digits)"

definition read_digits :: "nat \<Rightarrow> string \<Rightarrow> nat" where
  \<comment> \<open>the number that digits, the most significant first, stand for\<close>
  "read_digits base ds = foldl (\<lambda>n d. n * base + digit_value d) 0 ds"

lemma digit_value_digits: "i < 16 \<Longrightarrow> digit_value (digits ! i) = i"
proof -
  have "\<forall>i \<in> {0..<16}. digit_value (digits ! i) = i" unfolding digit_value_def digits_def by code_simp
  then show "i < 16 \<Longrightarrow> digit_value (digits ! i) = i" by simp
qed

lemma length_digit_list:
  assumes "2 \<le> base"
  shows "length (digit_list base x) \<le> Suc k \<longleftrightarrow> x < base ^ Suc k"
proof (induction k arbitrary: x)
  case 0
  then show ?case using assms by (subst digit_list.simps) (auto simp: div_eq_0_iff digit_list.simps [of base "x div base"])
next
  case (Suc k)
  have "x div base < base ^ Suc k \<longleftrightarrow> x < base ^ Suc (Suc k)" using assms by (simp add: less_mult_imp_div_less div_less_iff_less_mult mult.commute)
  moreover have "x < base ^ Suc (Suc k)" if "x div base = 0"
    using that assms power_increasing [of 1 "Suc (Suc k)" base] by (simp add: div_eq_0_iff del: power_Suc)
  ultimately show ?case using Suc [of "x div base"] assms by (subst digit_list.simps) auto
qed

lemma read_digit_list:
  assumes "2 \<le> base" "base \<le> 16"
  shows "read_digits base (rev (digit_list base x)) = x"
proof (induction x rule: less_induct)
  case (less x)
  have d: "digit_value (digits ! (x mod base)) = x mod base"
    by (rule digit_value_digits) (use assms mod_less_divisor [of base x] in linarith)
  show ?case
  proof (cases "x div base = 0")
    case True
    then have "x mod base = x" using assms by (simp add: div_eq_0_iff)
    then show ?thesis using True d by (subst digit_list.simps) (simp add: read_digits_def)
  next
    case False
    then have "x div base < x" using assms by (cases "x = 0") (auto intro: div_less_dividend)
    then show ?thesis using False assms less [of "x div base"] d
      by (subst digit_list.simps) (simp add: read_digits_def)
  qed
qed

lemma last_digit_list:
  assumes "2 \<le> base" "base \<le> 16" "0 < x"
  shows "last (digit_list base x) \<noteq> CHR ''0''"
  using assms(3)
proof (induction x rule: less_induct)
  case (less x)
  show ?case
  proof (cases "x div base = 0")
    case True
    then have "x mod base = x" "x < 16" using assms(1,2) by (auto simp: div_eq_0_iff)
    then have "digit_value (digits ! (x mod base)) \<noteq> 0" using digit_value_digits less.prems by simp
    moreover have "digit_value CHR ''0'' = 0" by (simp add: digit_value_def digits_def)
    ultimately show ?thesis using True by (subst digit_list.simps) auto
  next
    case False
    then have "x div base < x" "0 < x div base" using assms(1) less.prems by (auto intro: div_less_dividend)
    then have "last (digit_list base (x div base)) \<noteq> CHR ''0''" using less.IH by blast
    moreover have "digit_list base (x div base) \<noteq> []" by (subst digit_list.simps) simp
    ultimately show ?thesis using False assms(1) by (subst digit_list.simps) simp
  qed
qed

lemma print_chars:
  assumes "calm w" "\<not> panicked w"
  shows "for_each s (\<lambda>c. consputc (char_code c)) w = Ok () (emitted (map char_code s) w)"
  using assms
proof (induction s arbitrary: w)
  case (Cons c s)
  have "char_code c \<noteq> BACKSPACE" 
    using nat_of_char_less_256 [of c] of_nat_of_char [of c, where 'a = int] unfolding char_code_def BACKSPACE_def by linarith
  then show ?case using Cons.IH [of "emitted [char_code c] w"] Cons.prems by (simp add: run_simps echo_of_def emitted_append)
qed (simp add: emitted_def)

definition is_neg :: "bool \<Rightarrow> 64 word \<Rightarrow> bool" where
  "is_neg sign xx \<longleftrightarrow> sign \<and> sint xx < 0"

definition magnitude :: "bool \<Rightarrow> 64 word \<Rightarrow> nat" where
  "magnitude sign xx = (if is_neg sign xx then nat (- sint xx) else unat xx)"

lemma unat_uminus_sint:
  assumes "sint (xx :: 64 word) < 0" shows "unat (- xx) = nat (- sint xx)"
proof -
  have "- xx = word_of_int (- sint xx)" by simp
  moreover have "uint (word_of_int (- sint xx) :: 64 word) = - sint xx"
    unfolding uint_word_of_int by (rule mod_pos_pos_trivial) (use assms sint_ge [of xx] in simp_all)
  ultimately show ?thesis by (metis unat_eq_nat_uint)
qed

lemma printint_digits:
  "printint xx base sign = (let buf = digit_list base (magnitude sign xx) @ (if is_neg sign xx then ''-'' else []) in
     if 16 < length buf then stop Fault else for_each (rev buf) (\<lambda>c. consputc (char_code c)))"
  by (cases "is_neg sign xx") (auto simp: printint_def magnitude_def is_neg_def unat_uminus_sint Let_def)

lemma char_byte: "word_of_int (char_code c) = (of_char c :: byte)"
  by (metis char_code_def of_int_of_nat_eq of_nat_of_char)

text \<open>
  C30. The kernel prints numbers correctly, as long as they have at most fifteen digits: \<open>printint\<close> puts
  out a minus sign exactly if the number is to be taken as signed and is negative, and then digits
  that read back as its magnitude, with no zero in front of a number other than 0.
\<close>

theorem printint_prints_number:
  assumes "calm w" "\<not> panicked w" "2 \<le> base" "base \<le> 16" "magnitude sign xx < base ^ 15"
  shows "\<exists>ds w'. printint xx base sign w = Ok () w'
     \<and> kout w' = kout w @ map of_char ((if is_neg sign xx then ''-'' else []) @ ds)
     \<and> read_digits base ds = magnitude sign xx \<and> (magnitude sign xx \<noteq> 0 \<longrightarrow> hd ds \<noteq> CHR ''0'')"
proof -
  let ?ds = "digit_list base (magnitude sign xx)" and ?s = "if is_neg sign xx then ''-'' else []"
  have "length ?ds \<le> 15" using length_digit_list [OF assms(3), of "magnitude sign xx" 14] assms(5) by simp
  then have "printint xx base sign w = Ok () (emitted (map char_code (?s @ rev ?ds)) w)"
    using print_chars [OF assms(1,2)] by (simp add: printint_digits Let_def)
  moreover have "hd (rev ?ds) \<noteq> CHR ''0''" if "magnitude sign xx \<noteq> 0"
    using that last_digit_list [OF assms(3,4)] by (simp add: hd_rev)
  moreover have "kout (emitted (map char_code (?s @ rev ?ds)) w) = kout w @ map of_char (?s @ rev ?ds)"
    by (simp add: char_byte)
  ultimately show ?thesis using read_digit_list [OF assms(3,4)] by blast
qed

theorem printint_prints_number_witness:
  "\<exists>ds w'. printint (- 42) 10 True bss = Ok () w' \<and> kout w' = 45 # map of_char ds \<and> read_digits 10 ds = 42"
proof -
  have m: "is_neg True (- 42)" "magnitude True (- 42) = 42" by (simp_all add: is_neg_def magnitude_def)
  have "kout bss = []" "\<not> panicked bss" by (simp_all add: bss_def)
  then show ?thesis using printint_prints_number [OF calm_bss, of 10 True "- 42"] m by auto
qed

text \<open>
  C34. \<open>printint\<close> writes past the end of its 16 character buffer for every number of more than 16
  digits, as \<open>%lu\<close> gives it for numbers above 9999999999999999, and as \<open>%u\<close> gives it for every \<open>int\<close> with the top
  bit set, because \<open>printf\<close> fetches the argument as a signed \<open>int\<close> and widens it.
\<close>

theorem printint_overruns_buffer:
  "(10 ^ 16 \<le> unat xx \<longrightarrow> printint xx 10 False w = Stop Fault w)
   \<and> (sint (x :: 32 word) < 0 \<longrightarrow> printf_loop ''%u'' [Arg_int x] w = Stop Fault w)"
proof -
  have p: "printint y 10 False v = Stop Fault v" if "10 ^ 16 \<le> unat y" for y v
    using that length_digit_list [of 10 "unat y" 15] by (simp add: printint_digits Let_def magnitude_def is_neg_def)
  have "10 ^ 16 \<le> unat (scast x :: 64 word)" if "sint x < 0"
  proof -
    have m: "s mod n = s + n" if "- n \<le> s" "s < 0" for s n :: int using that mod_pos_pos_trivial [of "s + n" n] by simp
    have b: "- 2147483648 \<le> sint x" using sint_ge [of x] by simp
    have "(2 :: int) ^ LENGTH(64) = 18446744073709551616" by simp
    then have "uint (scast x :: 64 word) = sint x mod 18446744073709551616" by (simp only: uint_word_of_int scast_eq)
    then have "10000000000000000 \<le> uint (scast x :: 64 word)" 
      using m [of 18446744073709551616 "sint x"] that b by linarith
    moreover have "(10 :: nat) ^ 16 = 10000000000000000" by simp
    ultimately show ?thesis unfolding uint_nat by linarith
  qed
  then show ?thesis using p by (simp add: printf_loop.simps starts_def arg_int_def andthen_def bind_def)
qed

theorem printint_overruns_buffer_witness:
  "printint 10000000000000000 10 False bss = Stop Fault bss \<and> printf_loop ''%u'' [Arg_int (- 1)] bss = Stop Fault bss"
  using printint_overruns_buffer [of 10000000000000000 bss "- 1"] by simp

end
