(* ===== verification/Ulib.thy ===== *)
theory Ulib
  imports Sysfile
begin

unbundle bit_operations_syntax

text \<open>
  The user library: \<open>user/ulib.c\<close> and \<open>user/printf.c\<close>. A user program is a routine over a state of
  which it sees nothing but the results of its system calls. The stubs that make the calls are
  generated by \<open>user/usys.pl\<close>, so the calls are a parameter: a record of routines, one per call that
  \<open>user/user.h\<close> declares. \<open>exit\<close> does not return and is the reason \<open>Exited\<close> for stopping.

  The string routines work on the byte memory of theory Cmem. A string a program only passes on
  is the list of its characters, without the terminating zero.
\<close>

section \<open>System calls\<close>

datatype ustop = Exited int | Endless | Ufault
  \<comment> \<open>\<open>exit(n)\<close>, a loop that ran out of the turns it was given, undefined behaviour\<close>

type_synonym ('a, 'w) uprog = "('a, ustop, 'w) routine"

record 'w sys =
  u_fork :: "(int, 'w) uprog"
  u_wait :: "(int, 'w) uprog"
  u_pipe :: "(int \<times> int \<times> int, 'w) uprog"
  u_write :: "int \<Rightarrow> string \<Rightarrow> (int, 'w) uprog"
  u_read :: "int \<Rightarrow> nat \<Rightarrow> (int \<times> string, 'w) uprog"
    \<comment> \<open>the result and the bytes that are in the buffer afterwards\<close>
  u_close :: "int \<Rightarrow> (int, 'w) uprog"
  u_kill :: "int \<Rightarrow> (int, 'w) uprog"
  u_exec :: "string \<Rightarrow> string list \<Rightarrow> (int, 'w) uprog"
  u_open :: "string \<Rightarrow> 32 word \<Rightarrow> (int, 'w) uprog"
  u_mknod :: "string \<Rightarrow> int \<Rightarrow> int \<Rightarrow> (int, 'w) uprog"
  u_unlink :: "string \<Rightarrow> (int, 'w) uprog"
  u_fstat :: "int \<Rightarrow> (int \<times> stat, 'w) uprog"
  u_link :: "string \<Rightarrow> string \<Rightarrow> (int, 'w) uprog"
  u_mkdir :: "string \<Rightarrow> (int, 'w) uprog"
  u_chdir :: "string \<Rightarrow> (int, 'w) uprog"
  u_dup :: "int \<Rightarrow> (int, 'w) uprog"
  u_sbrk :: "int \<Rightarrow> (addr, 'w) uprog"
  u_sleep :: "int \<Rightarrow> (int, 'w) uprog"

definition uexit :: "int \<Rightarrow> ('a, 'w) uprog" where
  "uexit n = stop (Exited n)"

section \<open>ulib.c\<close>

definition ustart :: "(int, 'w) uprog \<Rightarrow> ('a, 'w) uprog" where
  "ustart main = bind main (\<lambda>_. uexit 0)"

partial_function (option) strcpy_loop :: "memory \<Rightarrow> addr \<Rightarrow> addr \<Rightarrow> memory option" where
  "strcpy_loop m s t = (if m t \<noteq> 0 then strcpy_loop (m(s := m t)) (s + 1) (t + 1) else Some (m(s := m t)))"

definition strcpy :: "memory \<Rightarrow> addr \<Rightarrow> addr \<Rightarrow> memory option" where
  \<comment> \<open>\<open>None\<close> when it never meets a zero\<close>
  "strcpy m s t = strcpy_loop m s t"

partial_function (option) strcmp :: "memory \<Rightarrow> addr \<Rightarrow> addr \<Rightarrow> int option" where
  "strcmp m p q = (if m p \<noteq> 0 \<and> m p = m q then strcmp m (p + 1) (q + 1) else Some (uint (m p) - uint (m q)))"

partial_function (option) ustrlen_loop :: "memory \<Rightarrow> addr \<Rightarrow> nat \<Rightarrow> nat option" where
  "ustrlen_loop m s n = (if m (s + of_nat n) \<noteq> 0 then ustrlen_loop m s (Suc n) else Some n)"

definition ustrlen :: "memory \<Rightarrow> addr \<Rightarrow> nat option" where
  "ustrlen m s = ustrlen_loop m s 0"

primrec umemset_loop :: "memory \<Rightarrow> addr \<Rightarrow> byte \<Rightarrow> nat \<Rightarrow> nat \<Rightarrow> memory" where
  "umemset_loop m cdst c i 0 = m"
| "umemset_loop m cdst c i (Suc left) = umemset_loop (m(cdst + of_nat i := c)) cdst c (Suc i) left"

definition umemset :: "memory \<Rightarrow> addr \<Rightarrow> int \<Rightarrow> 32 word \<Rightarrow> memory" where
  "umemset m dst c n = umemset_loop m dst (word_of_int c) 0 (unat n)"

partial_function (option) ustrchr :: "memory \<Rightarrow> addr \<Rightarrow> byte \<Rightarrow> addr option" where
  \<comment> \<open>the null pointer is \<open>Some 0\<close>\<close>
  "ustrchr m s c = (if m s = 0 then Some 0 else if m s = c then Some s else ustrchr m (s + 1) c)"

primrec gets_loop :: "'w sys \<Rightarrow> nat \<Rightarrow> string \<Rightarrow> (string, 'w) uprog" where
  \<comment> \<open>with room for so many more characters\<close>
  "gets_loop S 0 buf = ret buf"
| "gets_loop S (Suc left) buf =
     bind (u_read S 0 1) (\<lambda>(cc, cs).
     if cc < 1 then ret buf else
     let c = hd cs; buf = buf @ [c] in
     if c = CHR 0x0A \<or> c = CHR 0x0D then ret buf else gets_loop S left buf)"

definition ugets :: "'w sys \<Rightarrow> int \<Rightarrow> (string, 'w) uprog" where
  \<comment> \<open>the characters put into \<open>buf\<close> in front of the zero\<close>
  "ugets S n = gets_loop S (nat (n - 1)) []"

definition ustat :: "'w sys \<Rightarrow> string \<Rightarrow> (int \<times> stat option, 'w) uprog" where
  "ustat S n =
     bind (u_open S n O_RDONLY) (\<lambda>fd.
     if fd < 0 then ret (- 1, None) else
     bind (u_fstat S fd) (\<lambda>(r, st).
     andthen (u_close S fd)
     (ret (r, Some st))))"

fun atoi_loop :: "byte list \<Rightarrow> 32 word \<Rightarrow> 32 word" where
  \<comment> \<open>over the bytes of the string; the arithmetic wraps on RISC-V\<close>
  "atoi_loop [] n = n"
| "atoi_loop (c # cs) n = (if 48 \<le> c \<and> c \<le> 57 then atoi_loop cs (n * 10 + ucast c - 48) else n)"

definition atoi :: "byte list \<Rightarrow> int" where
  "atoi s = sint (atoi_loop s 0)"

primrec umove_up :: "memory \<Rightarrow> addr \<Rightarrow> addr \<Rightarrow> nat \<Rightarrow> memory" where
  "umove_up m dst src 0 = m"
| "umove_up m dst src (Suc n) = umove_up (m(dst := m src)) (dst + 1) (src + 1) n"

primrec umove_down :: "memory \<Rightarrow> addr \<Rightarrow> addr \<Rightarrow> nat \<Rightarrow> memory" where
  "umove_down m dst src 0 = m"
| "umove_down m dst src (Suc n) = umove_down (m(dst - 1 := m (src - 1))) (dst - 1) (src - 1) n"

definition umemmove :: "memory \<Rightarrow> addr \<Rightarrow> addr \<Rightarrow> int \<Rightarrow> memory" where
  "umemmove m dst src n =
     (if src > dst then umove_up m dst src (nat n)
      else umove_down m (dst + word_of_int n) (src + word_of_int n) (nat n))"

primrec umemcmp_loop :: "memory \<Rightarrow> addr \<Rightarrow> addr \<Rightarrow> nat \<Rightarrow> int" where
  "umemcmp_loop m p1 p2 0 = 0"
| "umemcmp_loop m p1 p2 (Suc n) =
     (if m p1 \<noteq> m p2 then uint (m p1) - uint (m p2) else umemcmp_loop m (p1 + 1) (p2 + 1) n)"

definition umemcmp :: "memory \<Rightarrow> addr \<Rightarrow> addr \<Rightarrow> 32 word \<Rightarrow> int" where
  "umemcmp m s1 s2 n = umemcmp_loop m s1 s2 (unat n)"

definition umemcpy :: "memory \<Rightarrow> addr \<Rightarrow> addr \<Rightarrow> 32 word \<Rightarrow> memory" where
  "umemcpy m dst src n = umemmove m dst src (sint n)"

section \<open>printf.c\<close>

definition udigits :: string where
  "udigits = ''0123456789ABCDEF''"

definition putc :: "'w sys \<Rightarrow> int \<Rightarrow> char \<Rightarrow> (unit, 'w) uprog" where
  "putc S fd c = andthen (u_write S fd [c]) skip"

function udigit_list :: "nat \<Rightarrow> nat \<Rightarrow> string" where
  \<comment> \<open>what the loop of \<open>printint\<close> puts into \<open>buf\<close>, the least significant digit first\<close>
  "udigit_list base x =
     (udigits ! (x mod base)) # (if x div base = 0 \<or> base < 2 then [] else udigit_list base (x div base))"
  by auto
termination
  by (relation "measure snd") (auto simp: div_eq_0_iff intro!: div_less_dividend)

declare udigit_list.simps [simp del]

definition uprintint :: "'w sys \<Rightarrow> int \<Rightarrow> 32 word \<Rightarrow> nat \<Rightarrow> bool \<Rightarrow> (unit, 'w) uprog" where
  "uprintint S fd xx base sg =
     (let neg = sg \<and> sint xx < 0; x = (if neg then - xx else xx);
          buf = udigit_list base (unat x) @ (if neg then ''-'' else []) in
      if 16 < length buf then stop Ufault
      else for_each (rev buf) (putc S fd))"

definition uprintptr :: "'w sys \<Rightarrow> int \<Rightarrow> 64 word \<Rightarrow> (unit, 'w) uprog" where
  "uprintptr S fd x =
     andthen (putc S fd CHR ''0'')
     (andthen (putc S fd CHR ''x'')
     (for_each [0..<16] (\<lambda>i. putc S fd (udigits ! unat (drop_bit 60 (push_bit (4 * i) x))))))"

text \<open>Variable arguments, as the registers hold them; taking one of the wrong kind is undefined.\<close>

datatype uarg = U_int "32 word" | U_long "64 word" | U_str "string option"

definition next_int :: "uarg list \<Rightarrow> (32 word \<Rightarrow> ('a, 'w) uprog) \<Rightarrow> ('a, 'w) uprog" where
  "next_int ap f = (case ap of U_int x # _ \<Rightarrow> f x | _ \<Rightarrow> stop Ufault)"

definition next_long :: "uarg list \<Rightarrow> (64 word \<Rightarrow> ('a, 'w) uprog) \<Rightarrow> ('a, 'w) uprog" where
  "next_long ap f = (case ap of U_long x # _ \<Rightarrow> f x | _ \<Rightarrow> stop Ufault)"

definition next_str :: "uarg list \<Rightarrow> (string option \<Rightarrow> ('a, 'w) uprog) \<Rightarrow> ('a, 'w) uprog" where
  "next_str ap f = (case ap of U_str x # _ \<Rightarrow> f x | _ \<Rightarrow> stop Ufault)"

definition conversion :: "'w sys \<Rightarrow> int \<Rightarrow> string \<Rightarrow> uarg list \<Rightarrow> (nat \<times> uarg list, 'w) uprog" where
  \<comment> \<open>in state \<open>'%'\<close>, at the characters that follow: what it adds to \<open>i\<close>, and the arguments left;
      \<open>printint\<close> has an \<open>int\<close> parameter, so its 64-bit arguments are truncated\<close>
  "conversion S fd f ap =
     (let use = (\<lambda>k. ret (k, tl ap)) in
      if starts ''d'' f then next_int ap (\<lambda>x. andthen (uprintint S fd x 10 True) (use 0))
      else if starts ''ld'' f then next_long ap (\<lambda>x. andthen (uprintint S fd (ucast x) 10 True) (use 1))
      else if starts ''lld'' f then next_long ap (\<lambda>x. andthen (uprintint S fd (ucast x) 10 True) (use 2))
      else if starts ''u'' f then next_int ap (\<lambda>x. andthen (uprintint S fd x 10 False) (use 0))
      else if starts ''lu'' f then next_long ap (\<lambda>x. andthen (uprintint S fd (ucast x) 10 False) (use 1))
      else if starts ''llu'' f then next_long ap (\<lambda>x. andthen (uprintint S fd (ucast x) 10 False) (use 2))
      else if starts ''x'' f then next_int ap (\<lambda>x. andthen (uprintint S fd x 16 False) (use 0))
      else if starts ''lx'' f then next_long ap (\<lambda>x. andthen (uprintint S fd (ucast x) 16 False) (use 1))
      else if starts ''llx'' f then next_long ap (\<lambda>x. andthen (uprintint S fd (ucast x) 16 False) (use 2))
      else if starts ''p'' f then next_long ap (\<lambda>x. andthen (uprintptr S fd x) (use 0))
      else if starts ''s'' f then next_str ap (\<lambda>s.
        andthen (for_each (case s of None \<Rightarrow> ''(null)'' | Some s \<Rightarrow> s) (putc S fd)) (use 0))
      else if starts ''%'' f then andthen (putc S fd CHR ''%'') (ret (0, ap))
      else andthen (putc S fd CHR ''%'') (andthen (putc S fd (hd f)) (ret (0, ap))))"

function vprintf :: "'w sys \<Rightarrow> int \<Rightarrow> string \<Rightarrow> uarg list \<Rightarrow> (unit, 'w) uprog" where
  "vprintf S fd fmt ap =
     (case fmt of [] \<Rightarrow> skip
      | c0 # f \<Rightarrow>
          if c0 \<noteq> CHR ''%'' then andthen (putc S fd c0) (vprintf S fd f ap)
          else if f = [] then skip
          else bind (conversion S fd f ap) (\<lambda>(k, ap). vprintf S fd (drop (Suc k) f) ap))"
  by auto
termination
  by (relation "measure (\<lambda>(S, fd, fmt, ap). length fmt)") auto

declare vprintf.simps [simp del]

definition fprintf :: "'w sys \<Rightarrow> int \<Rightarrow> string \<Rightarrow> uarg list \<Rightarrow> (unit, 'w) uprog" where
  "fprintf S fd fmt ap = vprintf S fd fmt ap"

definition uprintf :: "'w sys \<Rightarrow> string \<Rightarrow> uarg list \<Rightarrow> (unit, 'w) uprog" where
  "uprintf S fmt ap = vprintf S 1 fmt ap"

section \<open>The library against the kernel's\<close>

lemma umove_copy: "umove_up m d s n = copy_up m d s n" "umove_down m d s n = copy_down m d s n"
  by (induction n arbitrary: m d s) simp_all

lemma umemmove_apply:
  assumes "0 \<le> n" "unat src + nat n < 2 ^ 64" "unat dst + nat n < 2 ^ 64"
  shows "umemmove m dst src n x = (if unat (x - dst) < nat n then m (src + (x - dst)) else m x)"
proof (cases "src > dst")
  case True
  then have "unat (dst - src) = 2 ^ 64 - (unat src - unat dst)"
    using unat_bound [of src] by (simp add: unat_sub_if' word_less_nat_alt)
  then have "nat n \<le> unat (dst - src)" using assms(2) by simp
  then show ?thesis using True assms copy_up_apply [of "nat n" dst src m x] by (simp add: umemmove_def umove_copy)
next
  case False
  have "dst = src \<or> nat n \<le> unat (src - dst)"
  proof (cases "dst = src")
    case False
    then have "src < dst" using \<open>\<not> src > dst\<close> by simp
    then have "unat (src - dst) = 2 ^ 64 - (unat dst - unat src)"
      using unat_bound [of dst] by (simp add: unat_sub_if' word_less_nat_alt)
    then have "nat n \<le> unat (src - dst)" using assms(3) by linarith
    then show ?thesis ..
  qed simp
  moreover have "word_of_int n = (of_nat (nat n) :: addr)" using assms(1) by simp
  ultimately show ?thesis using False assms copy_down_apply [of "nat n" dst src m x] by (simp add: umemmove_def umove_copy)
qed

text \<open>
  C26. The user library's \<open>memmove\<close> and the kernel's, which choose the direction of the copy by different
  tests, are the same function on ranges that do not run past the end of the address space.
\<close>

theorem umemmove_is_memmove:
  assumes "0 \<le> n" "n < 2 ^ 31" "unat src + nat n < 2 ^ 64" "unat dst + nat n < 2 ^ 64"
  shows "umemmove m dst src n = memmove m dst src (word_of_int n)"
proof
  have "unat (word_of_int n :: 32 word) = nat n" using assms(1,2) by (simp add: unat_eq_nat_uint uint_word_of_int)
  then show "umemmove m dst src n x = memmove m dst src (word_of_int n) x" for x
    using assms by (simp add: umemmove_apply memmove_apply)
qed

theorem umemmove_is_memmove_witness: "umemmove (\<lambda>a. ucast a) 102 100 5 = memmove (\<lambda>a. ucast a) 102 100 5"
  using umemmove_is_memmove [of 5 100 102 "\<lambda>a. ucast a"] by simp

section \<open>Printing and reading numbers\<close>

lemma atoi_append: "\<forall>c \<in> set cs. 48 \<le> c \<and> c \<le> 57 \<Longrightarrow> atoi_loop (cs @ ds) n = atoi_loop ds (atoi_loop cs n)"
  by (induction cs arbitrary: n) auto

lemma udigits_code: "i < 10 \<Longrightarrow> (of_char (udigits ! i) :: byte) = 48 + of_nat i"
proof -
  have "\<forall>i \<in> {0..<10}. (of_char (udigits ! i) :: byte) = 48 + of_nat i" unfolding udigits_def by code_simp
  then show "i < 10 \<Longrightarrow> (of_char (udigits ! i) :: byte) = 48 + of_nat i" by simp
qed

lemma decimal_digit: "i < 10 \<Longrightarrow> 48 \<le> (48 + of_nat i :: byte) \<and> (48 + of_nat i :: byte) \<le> 57"
  "i < 10 \<Longrightarrow> ucast (48 + of_nat i :: byte) = (48 + of_nat i :: 32 word)"
proof -
  have "\<forall>i \<in> {0..<10}. 48 \<le> (48 + of_nat i :: byte) \<and> (48 + of_nat i :: byte) \<le> 57 \<and> ucast (48 + of_nat i :: byte) = (48 + of_nat i :: 32 word)"
    by code_simp
  then show "i < 10 \<Longrightarrow> 48 \<le> (48 + of_nat i :: byte) \<and> (48 + of_nat i :: byte) \<le> 57"
    "i < 10 \<Longrightarrow> ucast (48 + of_nat i :: byte) = (48 + of_nat i :: 32 word)" by auto
qed

lemma atoi_digits:
  "atoi_loop (map of_char (rev (udigit_list 10 k))) 0 = of_nat k
   \<and> (\<forall>c \<in> set (map of_char (rev (udigit_list 10 k)) :: byte list). 48 \<le> c \<and> c \<le> 57)"
proof (induction k rule: less_induct)
  case (less k)
  let ?d = "(of_char (udigits ! (k mod 10)) :: byte)"
  have d: "48 \<le> ?d \<and> ?d \<le> 57" "ucast ?d = (48 + of_nat (k mod 10) :: 32 word)"
    using decimal_digit [of "k mod 10"] udigits_code [of "k mod 10"] by simp_all
  show ?case
  proof (cases "k div 10 = 0")
    case True
    then show ?thesis using d by (subst udigit_list.simps, subst udigit_list.simps) simp
  next
    case False
    then have ih: "atoi_loop (map of_char (rev (udigit_list 10 (k div 10)))) 0 = of_nat (k div 10)"
      "\<forall>c \<in> set (map of_char (rev (udigit_list 10 (k div 10))) :: byte list). 48 \<le> c \<and> c \<le> 57"
      using less [of "k div 10"] by auto
    have "(of_nat k :: 32 word) = of_nat (k div 10) * 10 + of_nat (k mod 10)"
      by (metis div_mult_mod_eq of_nat_add of_nat_mult of_nat_numeral)
    then show ?thesis using False d ih atoi_append [OF ih(2), of "[?d]" 0]
      by (subst udigit_list.simps, subst udigit_list.simps) (simp add: algebra_simps)
  qed
qed

definition appends :: "'w sys \<Rightarrow> int \<Rightarrow> ('w \<Rightarrow> string) \<Rightarrow> bool" where
  \<comment> \<open>writing to the descriptor succeeds, and \<open>out\<close> is what has been written\<close>
  "appends S fd out \<longleftrightarrow> (\<forall>cs w. \<exists>w'. u_write S fd cs w = Ok (int (length cs)) w' \<and> out w' = out w @ cs)"

lemma putc_appends: "appends S fd out \<Longrightarrow> \<exists>w'. putc S fd c w = Ok () w' \<and> out w' = out w @ [c]"
proof -
  assume "appends S fd out"
  then obtain w' where "u_write S fd [c] w = Ok (int (length [c])) w'" "out w' = out w @ [c]" unfolding appends_def by blast
  then show ?thesis by (simp add: putc_def andthen_def bind_def)
qed

lemma putcs_append: "appends S fd out \<Longrightarrow> \<exists>w'. for_each cs (putc S fd) w = Ok () w' \<and> out w' = out w @ cs"
proof (induction cs arbitrary: w)
  case (Cons c cs)
  obtain w1 where w1: "putc S fd c w = Ok () w1" "out w1 = out w @ [c]" using putc_appends [OF Cons.prems, of c w] by blast
  obtain w2 where "for_each cs (putc S fd) w1 = Ok () w2" "out w2 = out w1 @ cs" using Cons.IH [OF Cons.prems, of w1] by blast
  then show ?case using w1 by (simp add: bind_def)
qed simp

lemma udigit_list_length: "x < 10 ^ Suc k \<Longrightarrow> length (udigit_list 10 x) \<le> Suc k"
proof (induction k arbitrary: x)
  case 0
  then show ?case by (subst udigit_list.simps) simp
next
  case (Suc k)
  then have "x div 10 < 10 ^ Suc k" by (simp add: div_less_iff_less_mult mult.commute)
  then show ?case using Suc.IH [of "x div 10"] by (subst udigit_list.simps) simp
qed

lemma uprintint_run:
  assumes "appends S fd out" "0 \<le> sint x"
  shows "\<exists>w'. uprintint S fd x 10 True w = Ok () w' \<and> out w' = out w @ rev (udigit_list 10 (unat x))"
proof -
  have "unat x < 10 ^ Suc 9" using unat_bound [of x] by simp
  then have "length (udigit_list 10 (unat x)) \<le> 10" using udigit_list_length by fastforce
  then show ?thesis using putcs_append [OF assms(1)] assms(2) by (simp add: uprintint_def Let_def)
qed

text \<open>
  C27. \<open>atoi\<close> reads back what \<open>printf\<close> prints: for every \<open>int\<close> that is not negative, \<open>printf("%d", x)\<close> writes
  a string from which \<open>atoi\<close> gets \<open>x\<close>. (\<open>atoi\<close> knows no minus sign.)
\<close>

theorem atoi_reads_printf:
  assumes "appends S 1 out" "0 \<le> sint x"
  shows "\<exists>s w'. uprintf S ''%d'' [U_int x] w = Ok () w' \<and> out w' = out w @ s \<and> atoi (map of_char s) = sint x"
proof -
  obtain w' where "uprintint S 1 x 10 True w = Ok () w'" "out w' = out w @ rev (udigit_list 10 (unat x))"
    using uprintint_run [OF assms] by blast
  moreover from this have "uprintf S ''%d'' [U_int x] w = Ok () w'"
    by (simp add: uprintf_def vprintf.simps conversion_def Let_def starts_def next_int_def andthen_def bind_def)
  moreover have "atoi (map of_char (rev (udigit_list 10 (unat x)))) = sint x"
    using atoi_digits [of "unat x"] by (simp add: atoi_def)
  ultimately show ?thesis by blast
qed

definition out_sys :: "string sys" where
  \<comment> \<open>system calls of which only \<open>write\<close> does something: the state is what has been written\<close>
  "out_sys = \<lparr>u_fork = ret (- 1), u_wait = ret (- 1), u_pipe = ret (- 1, 0, 0),
     u_write = (\<lambda>fd cs w. Ok (int (length cs)) (w @ cs)), u_read = (\<lambda>fd n. ret (0, [])), u_close = (\<lambda>_. ret 0),
     u_kill = (\<lambda>_. ret (- 1)), u_exec = (\<lambda>_ _. ret (- 1)), u_open = (\<lambda>_ _. ret (- 1)), u_mknod = (\<lambda>_ _ _. ret (- 1)),
     u_unlink = (\<lambda>_. ret (- 1)), u_fstat = (\<lambda>_. ret (- 1, \<lparr>st_dev = 0, st_ino = 0, st_type = 0, st_nlink = 0, st_size = 0\<rparr>)),
     u_link = (\<lambda>_ _. ret (- 1)), u_mkdir = (\<lambda>_. ret (- 1)), u_chdir = (\<lambda>_. ret (- 1)), u_dup = (\<lambda>_. ret (- 1)),
     u_sbrk = (\<lambda>_. ret (- 1)), u_sleep = (\<lambda>_. ret 0)\<rparr>"

lemma out_sys_appends: "appends out_sys fd (\<lambda>w. w)"
  by (simp add: appends_def out_sys_def)

theorem atoi_reads_printf_witness:
  "\<exists>s w'. uprintf out_sys ''%d'' [U_int 1234] [] = Ok () w' \<and> w' = s \<and> atoi (map of_char s) = 1234"
  using atoi_reads_printf [OF out_sys_appends, of 1234 "[]"] by auto

section \<open>What printf prints\<close>

fun in_base :: "nat \<Rightarrow> nat \<Rightarrow> string" where
  \<comment> \<open>the usual notation of a number, the most significant digit first\<close>
  "in_base b n = (if n < b \<or> b < 2 then [udigits ! (n mod b)] else in_base b (n div b) @ [udigits ! (n mod b)])"

declare in_base.simps [simp del]

definition decimal :: "int \<Rightarrow> string" where
  "decimal z = (if z < 0 then CHR ''-'' # in_base 10 (nat (- z)) else in_base 10 (nat z))"

datatype pitem =
    I_text char                \<comment> \<open>an ordinary character\<close>
  | I_d "32 word" | I_u "32 word" | I_x "32 word"
  | I_ld bool "64 word"        \<comment> \<open>\<open>%ld\<close>, or \<open>%lld\<close>\<close>
  | I_lu bool "64 word" | I_lx bool "64 word"
  | I_p "64 word" | I_s "string option" | I_percent

definition ells :: "bool \<Rightarrow> string" where
  "ells two = (if two then ''%ll'' else ''%l'')"

fun item_format :: "pitem \<Rightarrow> string" where
  "item_format (I_text c) = [c]" | "item_format (I_d x) = ''%d''" | "item_format (I_u x) = ''%u''"
| "item_format (I_x x) = ''%x''" | "item_format (I_ld two x) = ells two @ ''d''" | "item_format (I_lu two x) = ells two @ ''u''"
| "item_format (I_lx two x) = ells two @ ''x''" | "item_format (I_p x) = ''%p''" | "item_format (I_s s) = ''%s''"
| "item_format I_percent = ''%%''"

fun item_args :: "pitem \<Rightarrow> uarg list" where
  "item_args (I_text c) = []" | "item_args (I_d x) = [U_int x]" | "item_args (I_u x) = [U_int x]"
| "item_args (I_x x) = [U_int x]" | "item_args (I_ld two x) = [U_long x]" | "item_args (I_lu two x) = [U_long x]"
| "item_args (I_lx two x) = [U_long x]" | "item_args (I_p x) = [U_long x]" | "item_args (I_s s) = [U_str s]"
| "item_args I_percent = []"

fun item_text :: "pitem \<Rightarrow> string" where
  \<comment> \<open>a 64-bit number is printed as its low 32 bits\<close>
  "item_text (I_text c) = [c]" | "item_text (I_d x) = decimal (sint x)" | "item_text (I_u x) = in_base 10 (unat x)"
| "item_text (I_x x) = in_base 16 (unat x)" | "item_text (I_ld two x) = decimal (sint (ucast x :: 32 word))"
| "item_text (I_lu two x) = in_base 10 (unat x mod 2 ^ 32)" | "item_text (I_lx two x) = in_base 16 (unat x mod 2 ^ 32)"
| "item_text (I_p x) = ''0x'' @ map (\<lambda>i. udigits ! (unat x div 16 ^ (15 - i) mod 16)) [0..<16]"
| "item_text (I_s s) = (case s of None \<Rightarrow> ''(null)'' | Some t \<Rightarrow> t)" | "item_text I_percent = ''%''"

lemma rev_udigit_list: "2 \<le> b \<Longrightarrow> rev (udigit_list b n) = in_base b n"
proof (induction b n rule: in_base.induct)
  case (1 b n)
  show ?case using 1 by (subst udigit_list.simps, subst in_base.simps) (auto simp: div_eq_0_iff)
qed

lemma in_base_length: "2 \<le> b \<Longrightarrow> n < b ^ Suc k \<Longrightarrow> length (in_base b n) \<le> Suc k"
proof (induction k arbitrary: n)
  case 0
  then show ?case by (subst in_base.simps) simp
next
  case (Suc k)
  then have "n div b < b ^ Suc k" by (simp add: div_less_iff_less_mult mult.commute)
  then show ?case using Suc.IH [of "n div b"] Suc.prems(1) by (subst in_base.simps) simp
qed

lemma unat_minus_sint: "sint (x :: 32 word) < 0 \<Longrightarrow> unat (- x) = nat (- sint x)"
proof -
  assume n: "sint x < 0"
  have w: "- x = word_of_int (- sint x)" by simp
  have "uint (word_of_int (- sint x) :: 32 word) = (- sint x) mod 2 ^ 32" unfolding uint_word_of_int_eq take_bit_eq_mod by simp
  moreover have "- sint x < 2 ^ 32" "0 \<le> - sint x" using n sint_greater_eq [of x] by simp_all
  ultimately have "uint (- x) = - sint x" unfolding w by (simp only: mod_pos_pos_trivial)
  then show ?thesis by (simp only: unat_eq_nat_uint)
qed

lemma uprintint_prints:
  assumes "appends S fd out" "base = 10 \<or> base = 16"
  shows "\<exists>w'. uprintint S fd x base sg w = Ok () w' \<and>
     out w' = out w @ (if sg \<and> sint x < 0 then CHR ''-'' # in_base base (nat (- sint x)) else in_base base (unat x))"
proof -
  have b: "2 \<le> base" using assms(2) by auto
  have "unat y < base ^ Suc 9" for y :: "32 word" using unat_bound [of y] assms(2) by auto
  then have l: "length (in_base base (unat y)) \<le> 10" for y :: "32 word" using in_base_length [OF b, of "unat y" 9] by simp
  have "length (udigit_list base (unat y)) \<le> 10" for y :: "32 word" using l [of y] by (simp add: rev_udigit_list [OF b, symmetric])
  then have "\<not> 16 < length (udigit_list base (unat y) @ t)" if "length t \<le> 1" for y :: "32 word" and t :: string
  proof -
    have "length (udigit_list base (unat y)) \<le> 10" by fact
    then show ?thesis using that by simp
  qed
  then have "uprintint S fd x base sg = for_each (if sg \<and> sint x < 0 then CHR ''-'' # in_base base (nat (- sint x)) else in_base base (unat x)) (putc S fd)"
    using unat_minus_sint [of x] by (auto simp: uprintint_def Let_def rev_udigit_list [OF b])
  then show ?thesis using putcs_append [OF assms(1)] by (simp only:)
qed

lemma uprintptr_prints:
  assumes "appends S fd out"
  shows "\<exists>w'. uprintptr S fd x w = Ok () w' \<and> out w' = out w @ item_text (I_p x)"
proof -
  have d: "unat (drop_bit 60 (push_bit (4 * i) x)) = unat x div 16 ^ (15 - i) mod 16" if "i < 16" for i
  proof -
    have "drop_bit 60 (push_bit (4 * i) x) = take_bit 4 (drop_bit (4 * (15 - i)) x)"
    proof (rule bit_word_eqI)
      fix n
      have "60 + n - 4 * i = 4 * (15 - i) + n" using that by arith
      then show "bit (drop_bit 60 (push_bit (4 * i) x)) n = bit (take_bit 4 (drop_bit (4 * (15 - i)) x)) n"
        using that by (auto simp: bit_simps)
    qed
    then have "unat (drop_bit 60 (push_bit (4 * i) x)) = take_bit 4 (drop_bit (4 * (15 - i)) (unat x))"
      using unat_bound [of x] by (simp add: unsigned_take_bit_eq unsigned_drop_bit_eq take_bit_nat_eq_self)
    also have "\<dots> = unat x div 16 ^ (15 - i) mod 16" by (simp add: take_bit_eq_mod drop_bit_eq_div power_mult)
    finally show ?thesis .
  qed
  have m: "for_each is (\<lambda>i. putc S fd (f i)) = for_each (map f is) (putc S fd)" for f and "is" :: "nat list"
    by (induction "is") simp_all
  have "map (\<lambda>i. udigits ! unat (drop_bit 60 (push_bit (4 * i) x))) [0..<16] = map (\<lambda>i. udigits ! (unat x div 16 ^ (15 - i) mod 16)) [0..<16]"
    by (rule map_cong) (simp_all only: d set_upt atLeastLessThan_iff)
  then have "uprintptr S fd x = for_each (item_text (I_p x)) (putc S fd)"
    unfolding uprintptr_def m by (simp only: item_text.simps andthen_def append.simps for_each.simps)
  then show ?thesis using putcs_append [OF assms] by (simp only:)
qed

lemma unat_low_32: "unat (ucast (x :: 64 word) :: 32 word) = unat x mod 2 ^ 32"
  by (simp add: unsigned_ucast_eq take_bit_eq_mod)

lemma unat_nonneg_sint: "0 \<le> sint (x :: 32 word) \<Longrightarrow> unat x = nat (sint x)"
proof -
  assume "0 \<le> sint x"
  moreover have "sint x < 2 ^ 32" using sint_less [of x] by simp
  ultimately show "unat x = nat (sint x)" by (simp only: unat_eq_nat_uint uint_sint take_bit_eq_mod) simp
qed

lemma uprintint_notation:
  assumes "appends S fd out"
  shows "\<exists>w'. uprintint S fd x 10 True w = Ok () w' \<and> out w' = out w @ decimal (sint x)"
    "\<exists>w'. uprintint S fd x 10 False w = Ok () w' \<and> out w' = out w @ in_base 10 (unat x)"
    "\<exists>w'. uprintint S fd x 16 False w = Ok () w' \<and> out w' = out w @ in_base 16 (unat x)"
  using uprintint_prints [OF assms, of 10 x True w] uprintint_prints [OF assms, of 10 x False w]
    uprintint_prints [OF assms, of 16 x False w] unat_nonneg_sint [of x] by (auto simp: decimal_def)

lemma conversion_prints:
  \<comment> \<open>one conversion: what it prints, how far it gets in the format, and which argument it takes\<close>
  assumes "appends S fd out" "item_format it = CHR ''%'' # f" "it \<noteq> I_text CHR ''%''"
  shows "\<exists>w'. conversion S fd (f @ rest) (item_args it @ ap) w = Ok (length f - 1, ap) w' \<and> out w' = out w @ item_text it"
proof -
  note n = uprintint_notation [OF assms(1), of _ w] and u = unat_low_32
  note defs = conversion_def Let_def starts_def next_int_def next_long_def next_str_def andthen_def bind_def
  show ?thesis
  proof (cases it)
    case (I_text c)
    then show ?thesis using assms(2,3) by simp
  next
    case (I_d x)
    then show ?thesis using assms(2) n(1) [of x] by (auto simp: defs)
  next
    case (I_u x)
    then show ?thesis using assms(2) n(2) [of x] by (auto simp: defs)
  next
    case (I_x x)
    then show ?thesis using assms(2) n(3) [of x] by (auto simp: defs)
  next
    case (I_ld two x)
    then show ?thesis using assms(2) n(1) [of "ucast x"] by (cases two) (auto simp: defs ells_def)
  next
    case (I_lu two x)
    then show ?thesis using assms(2) n(2) [of "ucast x"] by (cases two) (auto simp: defs ells_def u)
  next
    case (I_lx two x)
    then show ?thesis using assms(2) n(3) [of "ucast x"] by (cases two) (auto simp: defs ells_def u)
  next
    case (I_p x)
    then show ?thesis using assms(2) uprintptr_prints [OF assms(1), of x w] by (auto simp: defs simp del: item_text.simps)
  next
    case (I_s t)
    then show ?thesis using assms(2) putcs_append [OF assms(1), of "item_text it" w] by (auto simp: defs)
  next
    case I_percent
    then show ?thesis using assms(2) putc_appends [OF assms(1), of "CHR ''%''" w] by (auto simp: defs)
  qed
qed

lemma vprintf_prints:
  assumes "appends S fd out" "I_text CHR ''%'' \<notin> set its"
  shows "\<exists>w'. vprintf S fd (concat (map item_format its)) (concat (map item_args its) @ ap) w = Ok () w'
     \<and> out w' = out w @ concat (map item_text its)"
  using assms(2)
proof (induction its arbitrary: w)
  case Nil
  then show ?case by (simp add: vprintf.simps)
next
  case (Cons it its)
  let ?fs = "concat (map item_format its)" and ?as = "concat (map item_args its) @ ap"
  have ih: "\<exists>w'. vprintf S fd ?fs ?as w = Ok () w' \<and> out w' = out w @ concat (map item_text its)" for w
    using Cons by simp
  show ?case
  proof (cases "\<exists>c. it = I_text c")
    case True
    then obtain c w1 where c: "it = I_text c" "c \<noteq> CHR ''%''" "putc S fd c w = Ok () w1" "out w1 = out w @ [c]"
      using Cons.prems putc_appends [OF assms(1)] by fastforce
    obtain w2 where "vprintf S fd ?fs ?as w1 = Ok () w2" "out w2 = out w1 @ concat (map item_text its)" using ih by blast
    then show ?thesis using c by (subst vprintf.simps) (simp add: andthen_def bind_def)
  next
    case False
    then have "\<exists>f. item_format it = CHR ''%'' # f \<and> f \<noteq> []" by (cases it) (simp_all add: ells_def)
    then obtain f where f: "item_format it = CHR ''%'' # f" "f \<noteq> []" by blast
    obtain w1 where w1: "conversion S fd (f @ ?fs) (item_args it @ ?as) w = Ok (length f - 1, ?as) w1" "out w1 = out w @ item_text it"
      using conversion_prints [OF assms(1) f(1)] False by blast
    obtain w2 where "vprintf S fd ?fs ?as w1 = Ok () w2" "out w2 = out w1 @ concat (map item_text its)" using ih by blast
    moreover have "drop (Suc (length f - 1)) (f @ ?fs) = ?fs" using f(2) by (cases f) simp_all
    ultimately show ?thesis using f w1 by (subst vprintf.simps) (simp add: bind_def)
  qed
qed

text \<open>
  C35. The user library's \<open>printf\<close> on any format made of ordinary characters and its conversions, with
  the arguments they need: it prints, in order, the characters themselves, numbers in decimal (with
  a minus sign) or upper-case hexadecimal, pointers as 16 hexadecimal digits, strings (or "(null)"),
  and leaves the other arguments alone. But a 64-bit number, \<open>%ld\<close> or \<open>%llu\<close> and so on, is printed as
  its low 32 bits only: \<open>printint\<close> has an \<open>int\<close> parameter.
\<close>

theorem uprintf_prints_items:
  assumes "appends S 1 out" "I_text CHR ''%'' \<notin> set its"
  shows "\<exists>w'. uprintf S (concat (map item_format its)) (concat (map item_args its) @ ap) w = Ok () w'
     \<and> out w' = out w @ concat (map item_text its)"
  using vprintf_prints [OF assms] by (simp add: uprintf_def)

theorem uprintf_prints_items_witness:
  "\<exists>w'. uprintf out_sys ''x=%ld, %u%%'' [U_long (2 ^ 32 + 7), U_int 12, U_int 9] [] = Ok () w' \<and> w' = ''x=7, 12%''"
proof -
  let ?its = "map I_text ''x='' @ [I_ld False (2 ^ 32 + 7)] @ map I_text '', '' @ [I_u 12, I_percent]"
  have "concat (map item_text ?its) = ''x=7, 12%''"
    by (simp add: decimal_def in_base.simps [of 10] udigits_def)
  then show ?thesis using uprintf_prints_items [OF out_sys_appends, of ?its "[U_int 9]" "[]"] by (simp add: ells_def)
qed

end
