(* ===== verification/Uprogs.thy ===== *)
theory Uprogs
  imports Ulib
begin

text \<open>
  The small user programs: \<open>user/cat.c\<close>, \<open>echo.c\<close>, \<open>kill.c\<close>, \<open>ln.c\<close>, \<open>mkdir.c\<close>, \<open>rm.c\<close>, \<open>wc.c\<close>, \<open>zombie.c\<close>,
  \<open>ls.c\<close> and \<open>init.c\<close>. The arguments are the list \<open>argv[0]\<close>, ..., \<open>argv[argc-1]\<close>. A loop that reads until
  the end of a file has no bound of its own; it is given a number of turns, and the theorems show
  how many are enough.
\<close>

section \<open>Reading and writing\<close>

definition file_io :: "'w sys \<Rightarrow> int \<Rightarrow> ('w \<Rightarrow> string) \<Rightarrow> ('w \<Rightarrow> string) \<Rightarrow> bool" where
  \<comment> \<open>reading \<open>fd\<close> takes bytes from the front of \<open>rest\<close>, at least one unless there are none left, and
      writing to the standard output adds them to \<open>out\<close>\<close>
  "file_io S fd rest out \<longleftrightarrow>
     (\<forall>n w. 0 < n \<longrightarrow> (\<exists>k w'. u_read S fd n w = Ok (int k, take k (rest w)) w' \<and> k \<le> n \<and> k \<le> length (rest w)
        \<and> (k = 0 \<longleftrightarrow> rest w = []) \<and> rest w' = drop k (rest w) \<and> out w' = out w))
   \<and> (\<forall>cs w. \<exists>w'. u_write S 1 cs w = Ok (int (length cs)) w' \<and> out w' = out w @ cs \<and> rest w' = rest w)"

lemma file_io_read:
  assumes "file_io S fd rest out" "0 < n"
  obtains k w' where "u_read S fd n w = Ok (int k, take k (rest w)) w'" "k \<le> n" "k \<le> length (rest w)"
    "k = 0 \<longleftrightarrow> rest w = []" "rest w' = drop k (rest w)" "out w' = out w"
  using assms unfolding file_io_def by blast

lemma file_io_write:
  assumes "file_io S fd rest out"
  obtains w' where "u_write S 1 cs w = Ok (int (length cs)) w'" "out w' = out w @ cs" "rest w' = rest w"
  using assms unfolding file_io_def by blast

definition filled :: "string \<Rightarrow> string \<Rightarrow> string" where
  \<comment> \<open>a buffer after \<open>read\<close> has stored bytes at its start\<close>
  "filled cs buf = cs @ drop (length cs) buf"

lemma take_filled [simp]: "take (length cs) (filled cs buf) = cs"
  by (simp add: filled_def)

lemma take_filled_take: "k \<le> length xs \<Longrightarrow> take k (filled (take k xs) buf) = take k xs"
  using take_filled [of "take k xs" buf] by simp

section \<open>cat.c\<close>

primrec cat_loop :: "'w sys \<Rightarrow> int \<Rightarrow> nat \<Rightarrow> string \<Rightarrow> (int, 'w) uprog" where
  \<comment> \<open>with the contents of \<open>buf\<close>; the last \<open>n\<close>\<close>
  "cat_loop S fd 0 buf = stop Endless"
| "cat_loop S fd (Suc turns) buf =
     bind (u_read S fd 512) (\<lambda>(n, cs).
     let buf = filled cs buf in
     if n > 0 then
       bind (u_write S 1 (take (nat n) buf)) (\<lambda>m.
       if m \<noteq> n then andthen (fprintf S 2 (''cat: write error'' @ newline) []) (uexit 1)
       else cat_loop S fd turns buf)
     else ret n)"

definition cat :: "'w sys \<Rightarrow> nat \<Rightarrow> int \<Rightarrow> (unit, 'w) uprog" where
  "cat S turns fd =
     bind (cat_loop S fd turns (replicate 512 (CHR 0x00))) (\<lambda>n.
     if n < 0 then andthen (fprintf S 2 (''cat: read error'' @ newline) []) (uexit 1) else skip)"

definition cat_main :: "'w sys \<Rightarrow> nat \<Rightarrow> string list \<Rightarrow> (int, 'w) uprog" where
  "cat_main S turns argv =
     (if length argv \<le> 1 then andthen (cat S turns 0) (uexit 0) else
      andthen (for_each (tl argv) (\<lambda>arg.
        bind (u_open S arg O_RDONLY) (\<lambda>fd.
        if fd < 0 then andthen (fprintf S 2 (''cat: cannot open %s'' @ newline) [U_str (Some arg)]) (uexit 1) else
        andthen (cat S turns fd)
        (andthen (u_close S fd) skip))))
      (uexit 0))"

section \<open>echo.c, kill.c, ln.c, mkdir.c, rm.c, zombie.c\<close>

primrec echo_args :: "'w sys \<Rightarrow> string list \<Rightarrow> (unit, 'w) uprog" where
  "echo_args S [] = skip"
| "echo_args S (arg # args) =
     andthen (u_write S 1 arg)
     (andthen (u_write S 1 (if args \<noteq> [] then '' '' else newline))
     (echo_args S args))"

definition echo_main :: "'w sys \<Rightarrow> string list \<Rightarrow> (int, 'w) uprog" where
  "echo_main S argv = andthen (echo_args S (tl argv)) (uexit 0)"

definition kill_main :: "'w sys \<Rightarrow> string list \<Rightarrow> (int, 'w) uprog" where
  "kill_main S argv =
     (if length argv < 2 then andthen (fprintf S 2 (''usage: kill pid...'' @ newline) []) (uexit 1) else
      andthen (for_each (tl argv) (\<lambda>arg. andthen (u_kill S (atoi (map of_char arg))) skip))
      (uexit 0))"

definition ln_main :: "'w sys \<Rightarrow> string list \<Rightarrow> (int, 'w) uprog" where
  "ln_main S argv =
     (if length argv \<noteq> 3 then andthen (fprintf S 2 (''Usage: ln old new'' @ newline) []) (uexit 1) else
      bind (u_link S (argv ! 1) (argv ! 2)) (\<lambda>r.
      andthen (if r < 0 then fprintf S 2 (''link %s %s: failed'' @ newline) [U_str (Some (argv ! 1)), U_str (Some (argv ! 2))] else skip)
      (uexit 0)))"

primrec until_failure :: "(string \<Rightarrow> (int, 'w) uprog) \<Rightarrow> (string \<Rightarrow> (unit, 'w) uprog) \<Rightarrow> string list \<Rightarrow> (unit, 'w) uprog" where
  \<comment> \<open>the loop of \<open>mkdir\<close> and \<open>rm\<close>: it leaves with a message at the first call that fails\<close>
  "until_failure call msg [] = skip"
| "until_failure call msg (arg # args) =
     bind (call arg) (\<lambda>r. if r < 0 then msg arg else until_failure call msg args)"

definition mkdir_main :: "'w sys \<Rightarrow> string list \<Rightarrow> (int, 'w) uprog" where
  "mkdir_main S argv =
     (if length argv < 2 then andthen (fprintf S 2 (''Usage: mkdir files...'' @ newline) []) (uexit 1) else
      andthen (until_failure (u_mkdir S) (\<lambda>arg. fprintf S 2 (''mkdir: %s failed to create'' @ newline) [U_str (Some arg)]) (tl argv))
      (uexit 0))"

definition rm_main :: "'w sys \<Rightarrow> string list \<Rightarrow> (int, 'w) uprog" where
  "rm_main S argv =
     (if length argv < 2 then andthen (fprintf S 2 (''Usage: rm files...'' @ newline) []) (uexit 1) else
      andthen (until_failure (u_unlink S) (\<lambda>arg. fprintf S 2 (''rm: %s failed to delete'' @ newline) [U_str (Some arg)]) (tl argv))
      (uexit 0))"

definition zombie_main :: "'w sys \<Rightarrow> (int, 'w) uprog" where
  "zombie_main S =
     bind (u_fork S) (\<lambda>pid.
     andthen (if pid > 0 then andthen (u_sleep S 5) skip else skip)
     (uexit 0))"

section \<open>wc.c\<close>

record counts =
  wc_l :: "32 word"
  wc_w :: "32 word"
  wc_c :: "32 word"
  wc_inword :: bool

definition wc_space :: "char \<Rightarrow> bool" where
  \<comment> \<open>\<open>strchr(" \r\t\n\v", c)\<close>, which does not find the zero\<close>
  "wc_space c \<longleftrightarrow> c \<in> set [CHR 0x20, CHR 0x0D, CHR 0x09, CHR 0x0A, CHR 0x0B]"

definition wc_char :: "char \<Rightarrow> counts \<Rightarrow> counts" where
  "wc_char x s =
     (let s = s\<lparr>wc_c := wc_c s + 1\<rparr>; s = (if x = CHR 0x0A then s\<lparr>wc_l := wc_l s + 1\<rparr> else s) in
      if wc_space x then s\<lparr>wc_inword := False\<rparr>
      else if \<not> wc_inword s then s\<lparr>wc_w := wc_w s + 1, wc_inword := True\<rparr>
      else s)"

primrec wc_loop :: "'w sys \<Rightarrow> int \<Rightarrow> nat \<Rightarrow> string \<Rightarrow> counts \<Rightarrow> (int \<times> counts, 'w) uprog" where
  "wc_loop S fd 0 buf s = stop Endless"
| "wc_loop S fd (Suc turns) buf s =
     bind (u_read S fd 512) (\<lambda>(n, cs).
     let buf = filled cs buf in
     if n > 0 then wc_loop S fd turns buf (fold wc_char (take (nat n) buf) s) else ret (n, s))"

definition wc :: "'w sys \<Rightarrow> nat \<Rightarrow> int \<Rightarrow> string \<Rightarrow> (unit, 'w) uprog" where
  "wc S turns fd name =
     bind (wc_loop S fd turns (replicate 512 (CHR 0x00)) \<lparr>wc_l = 0, wc_w = 0, wc_c = 0, wc_inword = False\<rparr>) (\<lambda>(n, s).
     if n < 0 then andthen (uprintf S (''wc: read error'' @ newline) []) (uexit 1) else
     uprintf S (''%d %d %d %s'' @ newline)
       [U_int (wc_l s), U_int (wc_w s), U_int (wc_c s), U_str (Some name)])"

definition wc_main :: "'w sys \<Rightarrow> nat \<Rightarrow> string list \<Rightarrow> (int, 'w) uprog" where
  "wc_main S turns argv =
     (if length argv \<le> 1 then andthen (wc S turns 0 []) (uexit 0) else
      andthen (for_each (tl argv) (\<lambda>arg.
        bind (u_open S arg O_RDONLY) (\<lambda>fd.
        if fd < 0 then andthen (uprintf S (''wc: cannot open %s'' @ newline) [U_str (Some arg)]) (uexit 1) else
        andthen (wc S turns fd arg)
        (andthen (u_close S fd) skip))))
      (uexit 0))"

section \<open>ls.c\<close>

definition fmtname :: "string \<Rightarrow> string" where
  \<comment> \<open>the part after the last slash, padded with blanks to the length of a directory entry's name\<close>
  "fmtname path =
     (let p = rev (takeWhile (\<lambda>c. c \<noteq> CHR ''/'') (rev path)) in
      if length p \<ge> DIRSIZ then p else p @ replicate (DIRSIZ - length p) CHR '' '')"

definition ls_line :: "'w sys \<Rightarrow> string \<Rightarrow> stat \<Rightarrow> (unit, 'w) uprog" where
  "ls_line S path st =
     uprintf S (''%s %d %d %d'' @ newline)
       [U_str (Some (fmtname path)), U_int (scast (st_type st)), U_int (st_ino st), U_int (ucast (st_size st))]"

definition de_inum :: "string \<Rightarrow> nat" where
  \<comment> \<open>\<open>de.inum\<close> of the sixteen bytes of a \<open>struct dirent\<close>\<close>
  "de_inum de = of_char (de ! 0) + 256 * of_char (de ! 1)"

definition de_name :: "string \<Rightarrow> string" where
  \<comment> \<open>\<open>de.name\<close>, ended by \<open>p[DIRSIZ] = 0\<close> at the latest\<close>
  "de_name de = takeWhile (\<lambda>c. c \<noteq> CHR 0x00) (take DIRSIZ (drop 2 de))"

primrec ls_entries :: "'w sys \<Rightarrow> int \<Rightarrow> string \<Rightarrow> nat \<Rightarrow> (unit, 'w) uprog" where
  "ls_entries S fd path 0 = stop Endless"
| "ls_entries S fd path (Suc turns) =
     bind (u_read S fd 16) (\<lambda>(n, de).
     if n \<noteq> 16 then skip
     else if de_inum de = 0 then ls_entries S fd path turns
     else
       let buf = path @ ''/'' @ de_name de in
       bind (ustat S buf) (\<lambda>(r, st).
       andthen (if r < 0 then uprintf S (''ls: cannot stat %s'' @ newline) [U_str (Some buf)]
                else case st of Some st \<Rightarrow> ls_line S buf st | None \<Rightarrow> skip)
       (ls_entries S fd path turns)))"

definition ls :: "'w sys \<Rightarrow> nat \<Rightarrow> string \<Rightarrow> (unit, 'w) uprog" where
  "ls S turns path =
     bind (u_open S path O_RDONLY) (\<lambda>fd.
     if fd < 0 then fprintf S 2 (''ls: cannot open %s'' @ newline) [U_str (Some path)] else
     bind (u_fstat S fd) (\<lambda>(r, st).
     if r < 0 then
       andthen (fprintf S 2 (''ls: cannot stat %s'' @ newline) [U_str (Some path)])
       (andthen (u_close S fd) skip)
     else
       andthen (
         if st_type st = T_DEVICE \<or> st_type st = T_FILE then ls_line S path st
         else if st_type st = T_DIR then
           if length path + 1 + DIRSIZ + 1 > 512 then uprintf S (''ls: path too long'' @ newline) []
           else ls_entries S fd path turns
         else skip)
       (andthen (u_close S fd) skip)))"

definition ls_main :: "'w sys \<Rightarrow> nat \<Rightarrow> string list \<Rightarrow> (int, 'w) uprog" where
  "ls_main S turns argv =
     (if length argv < 2 then andthen (ls S turns ''.'') (uexit 0)
      else andthen (for_each (tl argv) (ls S turns)) (uexit 0))"

section \<open>init.c\<close>

primrec init_wait :: "'w sys \<Rightarrow> int \<Rightarrow> nat \<Rightarrow> (unit, 'w) uprog" where
  "init_wait S pid 0 = stop Endless"
| "init_wait S pid (Suc turns) =
     bind (u_wait S) (\<lambda>wpid.
     if wpid = pid then skip
     else if wpid < 0 then andthen (uprintf S (''init: wait returned an error'' @ newline) []) (uexit 1)
     else init_wait S pid turns)"

primrec init_loop :: "'w sys \<Rightarrow> nat \<Rightarrow> (int, 'w) uprog" where
  "init_loop S 0 = stop Endless"
| "init_loop S (Suc turns) =
     andthen (uprintf S (''init: starting sh'' @ newline) [])
     (bind (u_fork S) (\<lambda>pid.
      if pid < 0 then andthen (uprintf S (''init: fork failed'' @ newline) []) (uexit 1)
      else if pid = 0 then
        andthen (u_exec S ''sh'' [''sh''])
        (andthen (uprintf S (''init: exec sh failed'' @ newline) [])
        (uexit 1))
      else andthen (init_wait S pid turns) (init_loop S turns)))"

definition init_main :: "'w sys \<Rightarrow> nat \<Rightarrow> (int, 'w) uprog" where
  "init_main S turns =
     bind (u_open S ''console'' O_RDWR) (\<lambda>fd.
     andthen (if fd < 0 then andthen (u_mknod S ''console'' 1 0) (andthen (u_open S ''console'' O_RDWR) skip) else skip)
     (andthen (u_dup S 0)
     (andthen (u_dup S 0)
     (init_loop S turns))))"

section \<open>What cat and wc do\<close>

definition io_demo :: "(string \<times> string) sys" where
  \<comment> \<open>system calls over a file that is read, at most three bytes at a time, and the standard output\<close>
  "io_demo = \<lparr>u_fork = ret (- 1), u_wait = ret (- 1), u_pipe = ret (- 1, 0, 0),
     u_write = (\<lambda>fd cs (r, out). Ok (int (length cs)) (r, out @ cs)),
     u_read = (\<lambda>fd n (r, out). Ok (int (length (take (min n 3) r)), take (min n 3) r) (drop (min n 3) r, out)),
     u_close = (\<lambda>_. ret 0), u_kill = (\<lambda>_. ret (- 1)), u_exec = (\<lambda>_ _. ret (- 1)), u_open = (\<lambda>_ _. ret (- 1)),
     u_mknod = (\<lambda>_ _ _. ret (- 1)), u_unlink = (\<lambda>_. ret (- 1)),
     u_fstat = (\<lambda>_. ret (- 1, \<lparr>st_dev = 0, st_ino = 0, st_type = 0, st_nlink = 0, st_size = 0\<rparr>)),
     u_link = (\<lambda>_ _. ret (- 1)), u_mkdir = (\<lambda>_. ret (- 1)), u_chdir = (\<lambda>_. ret (- 1)), u_dup = (\<lambda>_. ret (- 1)),
     u_sbrk = (\<lambda>_. ret (- 1)), u_sleep = (\<lambda>_. ret 0)\<rparr>"

lemma io_demo_file: "file_io io_demo fd fst snd"
proof -
  have "\<exists>k w'. u_read io_demo fd n w = Ok (int k, take k (fst w)) w' \<and> k \<le> n \<and> k \<le> length (fst w)
        \<and> (k = 0 \<longleftrightarrow> fst w = []) \<and> fst w' = drop k (fst w) \<and> snd w' = snd w" if "0 < n" for n w
    using that by (intro exI [of _ "min (length (fst w)) (min n 3)"])
      (auto simp: io_demo_def take_all_iff min_def split: prod.split)
  then show ?thesis unfolding file_io_def by (simp add: io_demo_def split_def)
qed

text \<open>
  C28. \<open>cat\<close> copies a file to the standard output completely and in order, however the reads cut it
  into pieces, and returns: one turn more than the file has bytes is enough.
\<close>

theorem cat_copies_file:
  assumes "file_io S fd rest out" "length (rest w) < turns"
  shows "\<exists>w'. cat S turns fd w = Ok () w' \<and> out w' = out w @ rest w \<and> rest w' = []"
proof -
  have "\<exists>w'. cat_loop S fd turns buf w = Ok 0 w' \<and> out w' = out w @ rest w \<and> rest w' = []" for buf using assms(2)
  proof (induction turns arbitrary: w buf)
    case (Suc turns)
    obtain k w1 where r: "u_read S fd 512 w = Ok (int k, take k (rest w)) w1" "k \<le> length (rest w)"
      "k = 0 \<longleftrightarrow> rest w = []" "rest w1 = drop k (rest w)" "out w1 = out w"
      by (rule file_io_read [OF assms(1), of 512 w]) simp_all
    show ?case
    proof (cases "k = 0")
      case True
      then show ?thesis using r by (simp add: bind_def)
    next
      case False
      then have l: "length (drop k (rest w)) < turns" using Suc.prems r(2) by simp
      obtain w2 where w2: "u_write S 1 (take k (rest w)) w1 = Ok (int (length (take k (rest w)))) w2"
        "out w2 = out w1 @ take k (rest w)" "rest w2 = rest w1"
        by (rule file_io_write [OF assms(1)])
      then obtain w3 where "cat_loop S fd turns (filled (take k (rest w)) buf) w2 = Ok 0 w3" "out w3 = out w2 @ rest w2" "rest w3 = []"
        using Suc.IH [of w2] l r by auto
      then show ?thesis using False r w2 by (simp add: bind_def Let_def take_filled_take)
    qed
  qed simp
  then obtain w' where "cat_loop S fd turns (replicate 512 (CHR 0x00)) w = Ok 0 w'" "out w' = out w @ rest w" "rest w' = []" by blast
  then show ?thesis by (simp add: cat_def bind_def)
qed

theorem cat_copies_file_witness:
  "\<exists>w'. cat io_demo 8 3 (''hello'', []) = Ok () w' \<and> snd w' = ''hello''"
  using cat_copies_file [OF io_demo_file, of "(''hello'', [])" 8 3] by auto

definition word_starts :: "string \<Rightarrow> nat list" where
  \<comment> \<open>the positions of the characters that are not space and do not follow one that is not\<close>
  "word_starts s = filter (\<lambda>i. \<not> wc_space (s ! i) \<and> (i = 0 \<or> wc_space (s ! (i - 1)))) [0..<length s]"

lemma word_starts_snoc:
  "word_starts (s @ [x]) = word_starts s @ (if \<not> wc_space x \<and> (s = [] \<or> wc_space (last s)) then [length s] else [])"
proof -
  have "filter (\<lambda>i. \<not> wc_space ((s @ [x]) ! i) \<and> (i = 0 \<or> wc_space ((s @ [x]) ! (i - 1)))) [0..<length s] = word_starts s"
    unfolding word_starts_def by (rule filter_cong) (auto simp: nth_append)
  then show ?thesis by (cases "s = []") (simp_all add: word_starts_def nth_append last_conv_nth)
qed

lemma wc_fold:
  "fold wc_char s \<lparr>wc_l = 0, wc_w = 0, wc_c = 0, wc_inword = False\<rparr> =
   \<lparr>wc_l = of_nat (count_list s CHR 0x0A), wc_w = of_nat (length (word_starts s)), wc_c = of_nat (length s),
    wc_inword = s \<noteq> [] \<and> \<not> wc_space (last s)\<rparr>"
proof (induction s rule: rev_induct)
  case Nil
  then show ?case by (simp add: word_starts_def)
next
  case (snoc x s)
  then show ?case by (auto simp: wc_char_def Let_def word_starts_snoc wc_space_def)
qed

lemma wc_loop_folds:
  assumes "file_io S fd rest out" "length (rest w) < turns"
  shows "\<exists>w'. wc_loop S fd turns buf s w = Ok (0, fold wc_char (rest w) s) w' \<and> out w' = out w"
  using assms(2)
proof (induction turns arbitrary: w buf s)
  case (Suc turns)
  obtain k w1 where r: "u_read S fd 512 w = Ok (int k, take k (rest w)) w1" "k \<le> length (rest w)"
    "k = 0 \<longleftrightarrow> rest w = []" "rest w1 = drop k (rest w)" "out w1 = out w"
    by (rule file_io_read [OF assms(1), of 512 w]) simp_all
  show ?case
  proof (cases "k = 0")
    case True
    then show ?thesis using r by (simp add: bind_def)
  next
    case False
    let ?b = "filled (take k (rest w)) buf" and ?s = "fold wc_char (take k (rest w)) s"
    have "length (rest w1) < turns" using False Suc.prems r(2,4) by simp
    then obtain w2 where "wc_loop S fd turns ?b ?s w1 = Ok (0, fold wc_char (rest w1) ?s) w2" "out w2 = out w1"
      using Suc.IH [of w1] by blast
    moreover have "fold wc_char (drop k (rest w)) ?s = fold wc_char (rest w) s"
      by (metis append_take_drop_id comp_apply fold_append)
    ultimately show ?thesis using False r by (simp add: bind_def Let_def take_filled_take)
  qed
qed simp

lemma sint_of_nat_small: "n < 2 ^ 31 \<Longrightarrow> sint (of_nat n :: 32 word) = int n"
proof -
  assume "n < 2 ^ 31"
  then have "(int n + 2 ^ 31) mod 2 ^ 32 = int n + 2 ^ 31" by (intro mod_pos_pos_trivial) simp_all
  then show ?thesis by (simp add: signed_of_nat signed_take_bit_eq_take_bit_shift take_bit_eq_mod)
qed

lemma word_starts_bound: "length (word_starts s) \<le> length s"
  unfolding word_starts_def using length_filter_le [of _ "[0..<length s]"] by simp

text \<open>
  C29. \<open>wc\<close> of a file of fewer than \<open>2\<^sup>3\<^sup>1\<close> bytes, which is what its \<open>int\<close> counters hold, returns and prints one
  line, however the reads cut the file into pieces: the numbers of lines, words and characters in decimal and the
  name. Lines are the newline characters, words the places where a run of characters other than
  white space begins, characters all bytes.
\<close>

theorem wc_counts_file:
  assumes "file_io S fd rest out" "length (rest w) < turns" "length (rest w) < 2 ^ 31"
  shows "\<exists>w'. wc S turns fd name w = Ok () w' \<and>
     out w' = out w @ decimal (int (count_list (rest w) CHR 0x0A)) @ '' '' @ decimal (int (length (word_starts (rest w)))) @ '' ''
       @ decimal (int (length (rest w))) @ '' '' @ name @ newline"
proof -
  let ?s = "fold wc_char (rest w) \<lparr>wc_l = 0, wc_w = 0, wc_c = 0, wc_inword = False\<rparr>"
  obtain w1 where w1: "wc_loop S fd turns (replicate 512 (CHR 0x00)) \<lparr>wc_l = 0, wc_w = 0, wc_c = 0, wc_inword = False\<rparr> w = Ok (0, ?s) w1"
    "out w1 = out w" using wc_loop_folds [OF assms(1,2)] by blast
  have b: "count_list (rest w) CHR 0x0A < 2 ^ 31" "length (word_starts (rest w)) < 2 ^ 31"
    using assms(3) count_le_length [of "rest w" "CHR 0x0A"] word_starts_bound [of "rest w"] by linarith+
  have a: "appends S 1 out" using assms(1) unfolding file_io_def appends_def by blast
  let ?its = "[I_d (wc_l ?s), I_text CHR '' '', I_d (wc_w ?s), I_text CHR '' '', I_d (wc_c ?s), I_text CHR '' '', I_s (Some name), I_text (CHR 0x0A)]"
  obtain w2 where "uprintf S (''%d %d %d %s'' @ newline) [U_int (wc_l ?s), U_int (wc_w ?s), U_int (wc_c ?s), U_str (Some name)] w1 = Ok () w2"
    "out w2 = out w1 @ concat (map item_text ?its)"
    using vprintf_prints [OF a, of ?its "[]" w1] by (auto simp: uprintf_def newline_def)
  then show ?thesis using w1 b assms(3) by (simp add: wc_def bind_def wc_fold sint_of_nat_small newline_def)
qed

theorem wc_counts_file_witness:
  "\<exists>w'. wc io_demo 20 3 ''f'' (''some words'', []) = Ok () w' \<and> snd w' = ''0 2 10 f'' @ newline"
proof -
  have "length (word_starts ''some words'') = 2" by code_simp
  moreover have "decimal 0 = ''0''" "decimal 2 = ''2''" "decimal 10 = ''10''"
    by (simp_all add: decimal_def in_base.simps [of 10] udigits_def)
  ultimately show ?thesis using wc_counts_file [OF io_demo_file, of "(''some words'', [])" 20 3 "''f''"] by simp
qed

end
