(* ===== verification/Grep.thy ===== *)
theory Grep
  imports Uprogs
begin

text \<open>
  \<open>user/grep.c\<close>: the matcher for patterns with \<open>^\<close>, \<open>.\<close>, \<open>*\<close> and \<open>$\<close>, and the loop that cuts the input into
  lines. A pattern and a line are C strings, the lists of their characters without the zero. What
  the matcher computes is compared with the meaning of a pattern as a set of strings.
\<close>

section \<open>The matcher\<close>

function (sequential) matchhere :: "string \<Rightarrow> string \<Rightarrow> bool"
  and matchstar :: "char \<Rightarrow> string \<Rightarrow> string \<Rightarrow> bool" where
  "matchhere re text =
     (case re of [] \<Rightarrow> True
      | c # re1 \<Rightarrow>
          if re1 \<noteq> [] \<and> hd re1 = CHR ''*'' then matchstar c (tl re1) text
          else if c = CHR ''$'' \<and> re1 = [] then text = []
          else if text \<noteq> [] \<and> (c = CHR ''.'' \<or> c = hd text) then matchhere re1 (tl text)
          else False)"
| "matchstar c re text =
     (if matchhere re text then True
      else if text \<noteq> [] \<and> (hd text = c \<or> c = CHR ''.'') then matchstar c re (tl text)
      else False)"
  by pat_completeness auto
termination
  by (relation "measures [\<lambda>x. case x of Inl (re, text) \<Rightarrow> 2 * length re | Inr (c, re, text) \<Rightarrow> 2 * length re + 1,
        \<lambda>x. case x of Inl (re, text) \<Rightarrow> length text | Inr (c, re, text) \<Rightarrow> length text]")
    auto

declare matchhere.simps [simp del] matchstar.simps [simp del]

fun match_from :: "string \<Rightarrow> string \<Rightarrow> bool" where
  \<comment> \<open>the loop of \<open>match\<close>\<close>
  "match_from re [] = matchhere re []"
| "match_from re (c # text) = (matchhere re (c # text) \<or> match_from re text)"

definition match :: "string \<Rightarrow> string \<Rightarrow> bool" where
  "match re text =
     (case re of CHR 0x5E # re1 \<Rightarrow> matchhere re1 text | _ \<Rightarrow> match_from re text)"

section \<open>The loop over the input\<close>

function grep_lines :: "'w sys \<Rightarrow> string \<Rightarrow> string \<Rightarrow> (string, 'w) uprog" where
  \<comment> \<open>the inner loop, on the part of \<open>buf\<close> from \<open>p\<close> to \<open>buf + m\<close>; \<open>strchr\<close> stops at a zero\<close>
  "grep_lines S pattern b =
     (let line = takeWhile (\<lambda>c. c \<noteq> CHR 0x0A) b in
      if CHR 0x0A \<in> set (takeWhile (\<lambda>c. c \<noteq> CHR 0x00) b) then
        andthen (if match pattern line then andthen (u_write S 1 (line @ newline)) skip else skip)
        (grep_lines S pattern (drop (Suc (length line)) b))
      else ret b)"
  by auto
termination
proof (relation "measure (\<lambda>(S, pattern, b). length b)", simp)
  fix S :: "'w sys" and pattern b line
  assume "CHR 0x0A \<in> set (takeWhile (\<lambda>c. c \<noteq> CHR 0x00) b)"
  then have "b \<noteq> []" by auto
  then show "((S, pattern, drop (Suc (length line)) b), S, pattern, b) \<in> measure (\<lambda>(S, pattern, b). length b)" by simp
qed

declare grep_lines.simps [simp del]

primrec grep_loop :: "'w sys \<Rightarrow> string \<Rightarrow> int \<Rightarrow> nat \<Rightarrow> string \<Rightarrow> (unit, 'w) uprog" where
  \<comment> \<open>with the first \<open>m\<close> bytes of \<open>buf\<close>\<close>
  "grep_loop S pattern fd 0 b = stop Endless"
| "grep_loop S pattern fd (Suc turns) b =
     bind (u_read S fd (1024 - length b - 1)) (\<lambda>(n, cs).
     if n > 0 then bind (grep_lines S pattern (b @ cs)) (\<lambda>b. grep_loop S pattern fd turns b)
     else skip)"

definition grep :: "'w sys \<Rightarrow> nat \<Rightarrow> string \<Rightarrow> int \<Rightarrow> (unit, 'w) uprog" where
  "grep S turns pattern fd = grep_loop S pattern fd turns []"

definition grep_main :: "'w sys \<Rightarrow> nat \<Rightarrow> string list \<Rightarrow> (int, 'w) uprog" where
  "grep_main S turns argv =
     (if length argv \<le> 1 then andthen (fprintf S 2 (''usage: grep pattern [file ...]'' @ newline) []) (uexit 1)
      else if length argv \<le> 2 then andthen (grep S turns (argv ! 1) 0) (uexit 0)
      else
        andthen (for_each (drop 2 argv) (\<lambda>arg.
          bind (u_open S arg O_RDONLY) (\<lambda>fd.
          if fd < 0 then andthen (uprintf S (''grep: cannot open %s'' @ newline) [U_str (Some arg)]) (uexit 1) else
          andthen (grep S turns (argv ! 1) fd)
          (andthen (u_close S fd) skip))))
        (uexit 0))"

section \<open>The meaning of a pattern\<close>

datatype item = One char | Star char | At_end

fun items :: "string \<Rightarrow> item list" where
  "items [] = []"
| "items [c] = [if c = CHR ''$'' then At_end else One c]"
| "items (c # d # re) = (if d = CHR ''*'' then Star c # items re else One c # items (d # re))"

definition fits :: "char \<Rightarrow> char \<Rightarrow> bool" where
  "fits c x \<longleftrightarrow> c = CHR ''.'' \<or> x = c"

fun item_lang :: "item \<Rightarrow> string set" where
  "item_lang (One c) = {[x] | x. fits c x}"
| "item_lang (Star c) = {s. \<forall>x \<in> set s. fits c x}"
| "item_lang At_end = {[]}"

primrec means :: "item list \<Rightarrow> string \<Rightarrow> string \<Rightarrow> bool" where
  \<comment> \<open>the items describe the string \<open>s\<close>, when \<open>after\<close> is what follows it on the line\<close>
  "means [] s after \<longleftrightarrow> s = []"
| "means (i # is) s after \<longleftrightarrow> (\<exists>s1 s2. s = s1 @ s2 \<and> s1 \<in> item_lang i \<and> means is s2 after \<and> (i = At_end \<longrightarrow> s2 @ after = []))"

definition found_at_start :: "item list \<Rightarrow> string \<Rightarrow> bool" where
  "found_at_start is text \<longleftrightarrow> (\<exists>s after. text = s @ after \<and> means is s after)"

lemma found_Nil [simp]: "found_at_start [] text"
  by (auto simp: found_at_start_def)

lemma found_Cons:
  "found_at_start (i # is) text \<longleftrightarrow>
     (\<exists>s t. text = s @ t \<and> s \<in> item_lang i \<and> found_at_start is t \<and> (i = At_end \<longrightarrow> t = []))"
proof
  assume "found_at_start (i # is) text"
  then obtain s1 s2 after where "text = (s1 @ s2) @ after" "s1 \<in> item_lang i" "means is s2 after" "i = At_end \<longrightarrow> s2 @ after = []"
    unfolding found_at_start_def means.simps by blast
  then show "\<exists>s t. text = s @ t \<and> s \<in> item_lang i \<and> found_at_start is t \<and> (i = At_end \<longrightarrow> t = [])"
    unfolding found_at_start_def by (intro exI [of _ s1] exI [of _ "s2 @ after"]) auto
next
  assume "\<exists>s t. text = s @ t \<and> s \<in> item_lang i \<and> found_at_start is t \<and> (i = At_end \<longrightarrow> t = [])"
  then obtain s s2 after where "text = s @ s2 @ after" "s \<in> item_lang i" "means is s2 after" "i = At_end \<longrightarrow> s2 @ after = []"
    unfolding found_at_start_def by blast
  then show "found_at_start (i # is) text"
    unfolding found_at_start_def by (intro exI [of _ "s @ s2"] exI [of _ after]) auto
qed

lemma found_One: "found_at_start (One c # is) text \<longleftrightarrow> text \<noteq> [] \<and> fits c (hd text) \<and> found_at_start is (tl text)"
proof (cases "text")
  case (Cons a t)
  have "(\<exists>s u. a # t = s @ u \<and> s \<in> item_lang (One c) \<and> found_at_start is u) \<longleftrightarrow> fits c a \<and> found_at_start is t"
    by (auto intro: exI [of _ "[a]"])
  then show ?thesis using Cons by (simp add: found_Cons)
qed (simp add: found_Cons)

lemma found_end: "found_at_start [At_end] text \<longleftrightarrow> text = []"
  by (simp add: found_Cons)

lemma found_Star:
  "found_at_start (Star c # is) text \<longleftrightarrow> found_at_start is text \<or> text \<noteq> [] \<and> fits c (hd text) \<and> found_at_start (Star c # is) (tl text)"
proof
  assume "found_at_start (Star c # is) text"
  then obtain s t where st: "text = s @ t" "\<forall>x \<in> set s. fits c x" "found_at_start is t" by (auto simp: found_Cons)
  then show "found_at_start is text \<or> text \<noteq> [] \<and> fits c (hd text) \<and> found_at_start (Star c # is) (tl text)"
    by (cases s) (auto simp: found_Cons [of "Star c"])
next
  assume r: "found_at_start is text \<or> text \<noteq> [] \<and> fits c (hd text) \<and> found_at_start (Star c # is) (tl text)"
  show "found_at_start (Star c # is) text"
  proof (cases "found_at_start is text")
    case True
    then show ?thesis by (subst found_Cons) (intro exI [of _ "[]"] exI [of _ "text"], simp)
  next
    case False
    then obtain s t where "text \<noteq> []" "fits c (hd text)" "tl text = s @ t" "\<forall>x \<in> set s. fits c x" "found_at_start is t"
      using r by (auto simp: found_Cons)
    then show ?thesis by (subst found_Cons) (intro exI [of _ "hd text # s"] exI [of _ t], cases "text", auto)
  qed
qed

lemma matchhere_found:
  "matchhere re t \<longleftrightarrow> found_at_start (items re) t"
  "matchstar c re t \<longleftrightarrow> found_at_start (Star c # items re) t"
proof (induction re t and c re t rule: matchhere_matchstar.induct)
  case (1 re t)
  show ?case
  proof (cases re rule: items.cases)
    case 1
    then show ?thesis by (simp add: matchhere.simps)
  next
    case (2 c)
    then show ?thesis using "1.IH"(2) by (subst matchhere.simps) (auto simp: found_One found_end fits_def matchhere.simps [of "[]"])
  next
    case (3 c d re2)
    then show ?thesis using "1.IH" by (subst matchhere.simps) (auto simp: found_One fits_def)
  qed
next
  case (2 c re t)
  then show ?case by (subst matchstar.simps, subst found_Star) (auto simp: fits_def)
qed

lemma match_from_found: "match_from re t \<longleftrightarrow> (\<exists>pre t'. t = pre @ t' \<and> found_at_start (items re) t')"
proof (induction re t rule: match_from.induct)
  case (1 re)
  then show ?case by (simp add: matchhere_found)
next
  case (2 re c t)
  have "(\<exists>pre t'. c # t = pre @ t' \<and> found_at_start (items re) t') \<longleftrightarrow>
     found_at_start (items re) (c # t) \<or> (\<exists>pre t'. t = pre @ t' \<and> found_at_start (items re) t')"
    by (auto simp: Cons_eq_append_conv)
  then show ?case using 2 by (simp add: matchhere_found)
qed

text \<open>
  C22. The matcher computes the meaning of the pattern. Read as a list of items (a character or \<open>.\<close>, one
  of them followed by \<open>*\<close>, and \<open>$\<close> at the end), the pattern matches a line exactly if some part of the
  line, with the items' strings in a row, is described by it; a pattern that begins with \<open>^\<close> matches
  if such a part begins the line.
\<close>

theorem match_is_meaning:
  "match re t =
     (if re \<noteq> [] \<and> hd re = CHR 0x5E then (\<exists>s after. t = s @ after \<and> means (items (tl re)) s after)
      else (\<exists>pre s after. t = pre @ s @ after \<and> means (items re) s after))"
proof (cases "re \<noteq> [] \<and> hd re = CHR 0x5E")
  case True
  then obtain re1 where "re = CHR 0x5E # re1" by (cases re) auto
  then show ?thesis by (simp add: match_def matchhere_found found_at_start_def)
next
  case False
  then have "match re t = match_from re t" by (cases re) (auto simp: match_def split: char.splits bool.splits)
  also have "\<dots> = (\<exists>pre s after. t = pre @ s @ after \<and> means (items re) s after)"
    unfolding match_from_found found_at_start_def by blast
  finally show ?thesis using False by argo
qed

section \<open>What grep prints\<close>

primrec split_lines :: "string \<Rightarrow> string list \<times> string" where
  \<comment> \<open>the lines that end in a newline, without it, and what follows the last of them\<close>
  "split_lines [] = ([], [])"
| "split_lines (c # s) =
     (let (xs, r) = split_lines s in
      if c = CHR 0x0A then ([] # xs, r) else case xs of [] \<Rightarrow> ([], c # r) | l # xs \<Rightarrow> ((c # l) # xs, r))"

definition printed :: "string \<Rightarrow> string list \<Rightarrow> string" where
  "printed pattern xs = concat (map (\<lambda>l. l @ newline) (filter (match pattern) xs))"

definition all_lines :: "string \<Rightarrow> string list" where
  "all_lines s = fst (split_lines s) @ [snd (split_lines s)]"

lemma split_none: "CHR 0x0A \<notin> set b \<Longrightarrow> split_lines b = ([], b)"
  by (induction b) auto

lemma split_line: "CHR 0x0A \<notin> set l \<Longrightarrow> split_lines (l @ CHR 0x0A # s) = (l # fst (split_lines s), snd (split_lines s))"
  by (induction l) (auto split: prod.split)

lemma split_append:
  "split_lines (a @ b) =
     (fst (split_lines a) @ fst (split_lines (snd (split_lines a) @ b)), snd (split_lines (snd (split_lines a) @ b)))"
proof (induction a)
  case (Cons c a)
  obtain xs r where a: "split_lines a = (xs, r)" by (metis surj_pair)
  obtain xs' r' where b: "split_lines (r @ b) = (xs', r')" by (metis surj_pair)
  have "split_lines (a @ b) = (xs @ xs', r')" using Cons a b by simp
  then show ?case using a b by (cases xs) (auto split: list.split)
qed simp

lemma split_rest: "CHR 0x0A \<notin> set (snd (split_lines b))"
  by (induction b) (auto split: prod.split list.split)

lemma split_set: "set (snd (split_lines b)) \<subseteq> set b"
  by (induction b) (auto split: prod.split list.split)

lemma split_prefix: "CHR 0x0A \<notin> set b \<Longrightarrow> \<exists>l. hd (all_lines (b @ s)) = b @ l"
proof (induction b)
  case (Cons c b)
  then obtain l where l: "hd (all_lines (b @ s)) = b @ l" by auto
  obtain xs r where "split_lines (b @ s) = (xs, r)" by (metis surj_pair)
  then show ?case using l Cons.prems by (cases xs) (auto simp: all_lines_def)
qed simp

lemma grep_lines_run:
  assumes "file_io S fd rest out" "CHR 0x00 \<notin> set b"
  shows "\<exists>w'. grep_lines S pattern b w = Ok (snd (split_lines b)) w'
     \<and> out w' = out w @ printed pattern (fst (split_lines b)) \<and> rest w' = rest w"
  using assms(2)
proof (induction b arbitrary: w rule: length_induct)
  case (1 b)
  let ?l = "takeWhile (\<lambda>c. c \<noteq> CHR 0x0A) b"
  have "takeWhile (\<lambda>c. c \<noteq> CHR 0x00) b = b" using "1.prems" by (auto simp: takeWhile_eq_all_conv)
  then have z: "CHR 0x0A \<in> set (takeWhile (\<lambda>c. c \<noteq> CHR 0x00) b) \<longleftrightarrow> CHR 0x0A \<in> set b" by (simp only:)
  show ?case
  proof (cases "CHR 0x0A \<in> set b")
    case False
    then show ?thesis using z split_none by (subst grep_lines.simps) (simp add: printed_def Let_def)
  next
    case True
    let ?s = "drop (Suc (length ?l)) b"
    have d: "dropWhile (\<lambda>c. c \<noteq> CHR 0x0A) b \<noteq> []" using True by (auto simp: dropWhile_eq_Nil_conv)
    then have "dropWhile (\<lambda>c. c \<noteq> CHR 0x0A) b = CHR 0x0A # tl (dropWhile (\<lambda>c. c \<noteq> CHR 0x0A) b)"
      using hd_dropWhile [OF d] by (metis list.collapse)
    moreover have "?s = tl (dropWhile (\<lambda>c. c \<noteq> CHR 0x0A) b)" by (simp add: dropWhile_eq_drop drop_Suc tl_drop)
    ultimately have b: "b = ?l @ CHR 0x0A # ?s" by (metis takeWhile_dropWhile_id)
    have sp: "split_lines b = (?l # fst (split_lines ?s), snd (split_lines ?s))"
      by (subst b, rule split_line) (auto dest: set_takeWhileD)
    obtain w0 where "u_write S 1 (?l @ newline) w = Ok (int (length (?l @ newline))) w0" "out w0 = out w @ ?l @ newline" "rest w0 = rest w"
      by (rule file_io_write [OF assms(1)])
    then obtain w1 where w1: "(if match pattern ?l then andthen (u_write S 1 (?l @ newline)) skip else skip) w = Ok () w1"
      "out w1 = out w @ (if match pattern ?l then ?l @ newline else [])" "rest w1 = rest w"
      by (cases "match pattern ?l") (auto simp: andthen_def bind_def)
    have "length ?s < length b" using True by (cases b) auto
    moreover have "CHR 0x00 \<notin> set ?s" using "1.prems" by (auto dest: in_set_dropD)
    ultimately obtain w2 where w2: "grep_lines S pattern ?s w1 = Ok (snd (split_lines ?s)) w2"
      "out w2 = out w1 @ printed pattern (fst (split_lines ?s))" "rest w2 = rest w1"
      using "1.IH" by blast
    have "grep_lines S pattern b w = Ok (snd (split_lines ?s)) w2"
      using True z w1(1) w2(1) by (subst grep_lines.simps) (simp add: Let_def andthen_def bind_def [of "if _ then _ else _"])
    then show ?thesis using w1 w2 unfolding sp by (simp add: printed_def)
  qed
qed

lemma grep_loop_run:
  assumes "file_io S fd rest out" "CHR 0x0A \<notin> set b" "CHR 0x00 \<notin> set (b @ rest w)" "length (rest w) < turns"
    "\<forall>l \<in> set (all_lines (b @ rest w)). length l < 1023"
  shows "\<exists>w'. grep_loop S pattern fd turns b w = Ok () w' \<and> out w' = out w @ printed pattern (fst (split_lines (b @ rest w)))"
  using assms(2-5)
proof (induction turns arbitrary: b w)
  case (Suc turns)
  have "length (hd (all_lines (b @ rest w))) < 1023" using Suc.prems(4) by (auto simp: all_lines_def hd_append)
  then have "length b < 1023" using split_prefix [OF Suc.prems(1), of "rest w"] by auto
  then have "0 < 1024 - length b - 1" by simp
  then obtain k w1 where r: "u_read S fd (1024 - length b - 1) w = Ok (int k, take k (rest w)) w1" "k \<le> length (rest w)"
    "k = 0 \<longleftrightarrow> rest w = []" "rest w1 = drop k (rest w)" "out w1 = out w"
    by (rule file_io_read [OF assms(1)])
  show ?case
  proof (cases "k = 0")
    case True
    then show ?thesis using r split_none [OF Suc.prems(1)] by (simp add: bind_def printed_def)
  next
    case False
    let ?b = "b @ take k (rest w)"
    have z: "CHR 0x00 \<notin> set ?b" using Suc.prems(2) by (auto dest: in_set_takeD)
    obtain w2 where w2: "grep_lines S pattern ?b w1 = Ok (snd (split_lines ?b)) w2"
      "out w2 = out w1 @ printed pattern (fst (split_lines ?b))" "rest w2 = rest w1"
      using grep_lines_run [OF assms(1) z, of pattern w1] by blast
    have sp: "split_lines (b @ rest w) = (fst (split_lines ?b) @ fst (split_lines (snd (split_lines ?b) @ rest w2)), snd (split_lines (snd (split_lines ?b) @ rest w2)))"
      using split_append [of ?b "drop k (rest w)"] w2(3) r(4) by simp
    have "CHR 0x00 \<notin> set (snd (split_lines ?b) @ rest w2)"
      using z split_set [of ?b] Suc.prems(2) w2(3) r(4) by (auto dest: in_set_dropD)
    moreover have "\<forall>l \<in> set (all_lines (snd (split_lines ?b) @ rest w2)). length l < 1023"
      using Suc.prems(4) sp by (simp add: all_lines_def)
    moreover have "length (rest w2) < turns" using Suc.prems(3) r(2,4) w2(3) False by simp
    ultimately obtain w3 where "grep_loop S pattern fd turns (snd (split_lines ?b)) w2 = Ok () w3"
      "out w3 = out w2 @ printed pattern (fst (split_lines (snd (split_lines ?b) @ rest w2)))"
      using Suc.IH [OF split_rest] by blast
    then show ?thesis using r False w2 sp by (simp add: bind_def printed_def)
  qed
qed simp

text \<open>
  C23. \<open>grep\<close> prints exactly the lines that match, in their order, however the reads cut the file into
  pieces, and returns. The file has no zero bytes and its lines are shorter than the buffer. A last
  line without a newline is not looked at.
\<close>

theorem grep_prints_matching_lines:
  assumes "file_io S fd rest out" "CHR 0x00 \<notin> set (rest w)" "length (rest w) < turns"
    and "\<forall>l \<in> set (all_lines (rest w)). length l < 1023"
  shows "\<exists>w'. grep S turns pattern fd w = Ok () w' \<and> out w' = out w @ printed pattern (fst (split_lines (rest w)))"
  unfolding grep_def using grep_loop_run [OF assms(1), of "[]" w turns pattern] assms(2-4) by simp

theorem grep_prints_matching_lines_witness:
  "\<exists>w'. grep io_demo 50 ''^a.*c'' 3 (''abc'' @ newline @ ''bc'' @ newline @ ''axc'', []) = Ok () w' \<and> snd w' = ''abc'' @ newline"
proof -
  let ?t = "''abc'' @ newline @ ''bc'' @ newline @ ''axc''"
  have s: "split_lines ?t = ([''abc'', ''bc''], ''axc'')" by (simp add: newline_def)
  have "match ''^a.*c'' ''abc''" "\<not> match ''^a.*c'' ''bc''"
    by (simp_all add: match_def matchhere.simps matchstar.simps)
  then have "printed ''^a.*c'' [''abc'', ''bc''] = ''abc'' @ newline" by (simp add: printed_def)
  then show ?thesis
    using grep_prints_matching_lines [OF io_demo_file, of "(?t, [])" 50 "''^a.*c''" 3] s
    by (simp add: all_lines_def newline_def)
qed

end
