(* ===== verification/Shell.thy ===== *)
theory Shell
  imports Ulib "HOL-Library.Sublist"
begin

text \<open>
  The shell, \<open>user/sh.c\<close>: the recursive-descent parser, the termination of the argument strings, and
  the evaluation of commands. A pointer into the command line is the text from there to \<open>es\<close>, so
  that \<open>*s\<close> is zero exactly at the empty text. The parser's mutually recursive routines are given a
  number of calls; \<open>parsecmd\<close> gives them four for each character of the line, and it is shown that
  this is enough.
\<close>

section \<open>Commands\<close>

datatype 't cmd =
    EXEC "'t list"
  | REDIR "'t cmd" 't "32 word" int
  | PIPE "'t cmd" "'t cmd"
  | LIST "'t cmd" "'t cmd"
  | BACK "'t cmd"

definition MAXARGS :: nat where [layout]: "MAXARGS = 10"

type_synonym tok = "string \<times> string"
  \<comment> \<open>\<open>q\<close> and \<open>eq\<close>\<close>

section \<open>Tokens\<close>

definition ws :: "char \<Rightarrow> bool" where
  \<comment> \<open>\<open>strchr(whitespace, c)\<close>\<close>
  "ws c \<longleftrightarrow> c \<in> set [CHR 0x20, CHR 0x09, CHR 0x0D, CHR 0x0A, CHR 0x0B]"

definition symbol :: "char \<Rightarrow> bool" where
  \<comment> \<open>\<open>strchr(symbols, c)\<close>\<close>
  "symbol c \<longleftrightarrow> c \<in> set ''<|>&;()''"

definition gettoken :: "string \<Rightarrow> char \<times> tok \<times> string" where
  \<comment> \<open>the token's kind, its text, and \<open>*ps\<close> afterwards; the kind 0 is the end of the line\<close>
  "gettoken s =
     (let q = dropWhile ws s;
          (t, eq) = (case q of [] \<Rightarrow> (CHR 0x00, [])
            | c # r \<Rightarrow>
                if c \<in> set ''|();&<'' then (c, r)
                else if c = CHR ''>'' then (if r \<noteq> [] \<and> hd r = CHR ''>'' then (CHR ''+'', tl r) else (c, r))
                else (CHR ''a'', dropWhile (\<lambda>c. \<not> ws c \<and> \<not> symbol c) q))
      in (t, (q, eq), dropWhile ws eq))"

definition peek :: "string \<Rightarrow> string \<Rightarrow> bool" where
  \<comment> \<open>\<open>peek\<close> also moves \<open>*ps\<close> past the white space; its callers go on from \<open>dropWhile ws s\<close>\<close>
  "peek toks s \<longleftrightarrow> dropWhile ws s \<noteq> [] \<and> hd (dropWhile ws s) \<in> set toks"

section \<open>The parser\<close>

datatype 'a parsed = Parsed 'a string | Syntax string | Too_deep
  \<comment> \<open>a result and \<open>*ps\<close>; \<open>panic(msg)\<close>; out of the calls given\<close>

fun pthen :: "'a parsed \<Rightarrow> ('a \<Rightarrow> string \<Rightarrow> 'b parsed) \<Rightarrow> 'b parsed" where
  "pthen (Parsed a s) f = f a s"
| "pthen (Syntax m) f = Syntax m"
| "pthen Too_deep f = Too_deep"

lemma gettoken_shorter: "dropWhile ws s \<noteq> [] \<Longrightarrow> gettoken s = (t, qe, s') \<Longrightarrow> length s' < length s"
proof -
  assume a: "dropWhile ws s \<noteq> []" "gettoken s = (t, qe, s')"
  then obtain c r where q: "dropWhile ws s = c # r" by (cases "dropWhile ws s") auto
  have l: "length (c # r) \<le> length s" by (metis q length_dropWhile_le)
  have c: "\<not> ws c" using q by (metis hd_dropWhile list.distinct(1) list.sel(1))
  have w: "length (dropWhile ws x) \<le> length x" for x by (rule length_dropWhile_le)
  have d: "length (dropWhile (\<lambda>c. \<not> ws c \<and> \<not> symbol c) r) \<le> length r" by (rule length_dropWhile_le)
  have "s' = dropWhile ws r \<or> s' = dropWhile ws (tl r) \<or> s' = dropWhile ws (dropWhile (\<lambda>c. \<not> ws c \<and> \<not> symbol c) r)"
    using a(2) q c by (auto simp: gettoken_def Let_def symbol_def split: if_splits)
  then show "length s' < length s" using w [of r] w [of "tl r"] w [of "dropWhile (\<lambda>c. \<not> ws c \<and> \<not> symbol c) r"] d l by auto
qed

lemma gettoken_le: "gettoken s = (t, qe, s') \<Longrightarrow> length s' \<le> length s"
proof (cases "dropWhile ws s = []")
  case True
  then show "gettoken s = (t, qe, s') \<Longrightarrow> length s' \<le> length s" by (simp add: gettoken_def)
next
  case False
  then show "gettoken s = (t, qe, s') \<Longrightarrow> length s' \<le> length s" using gettoken_shorter by fastforce
qed

lemma gettoken_end: "gettoken s = (t, qe, s') \<Longrightarrow> t \<noteq> CHR 0x00 \<Longrightarrow> dropWhile ws s \<noteq> []"
  by (rule notI) (simp add: gettoken_def del: dropWhile_eq_Nil_conv)

lemma pthen_cong [fundef_cong]:
  "p = p' \<Longrightarrow> (\<And>a s. p' = Parsed a s \<Longrightarrow> f a s = f' a s) \<Longrightarrow> pthen p f = pthen p' f'"
  by (cases p') simp_all

function parseredirs :: "string \<Rightarrow> (tok \<times> 32 word \<times> int) list parsed" where
  \<comment> \<open>the redirections read, in their order; each of them is wrapped around the command so far\<close>
  "parseredirs s =
     (if peek ''<>'' s then
        let (t, _, s1) = gettoken s; (t2, f, s2) = gettoken s1 in
        if t2 \<noteq> CHR ''a'' then Syntax ''missing file for redirection''
        else pthen (parseredirs s2) (\<lambda>rs s3.
          Parsed ((if t = CHR ''<'' then (f, O_RDONLY, 0)
                   else if t = CHR ''>'' then (f, O_WRONLY OR O_CREATE OR O_TRUNC, 1)
                   else (f, O_WRONLY OR O_CREATE, 1)) # rs) s3)
      else Parsed [] (dropWhile ws s))"
  by auto
termination
proof (relation "measure length", simp)
  fix s t qe s1 t2 f s2 and x y :: "char \<times> tok \<times> string" and y' y2'
  assume a: "peek ''<>'' s" "x = gettoken s" "(t, y') = x" "(qe, s1) = y'" "y = gettoken s1" "(t2, y2') = y" "(f, s2) = y2'" "\<not> t2 \<noteq> CHR ''a''"
  then have "length s1 < length s" using gettoken_shorter [of s t qe s1] by (auto simp: peek_def)
  moreover have "length s2 \<le> length s1" using gettoken_le [of s1 t2 f s2] a by auto
  ultimately show "(s2, s) \<in> measure length" by simp
qed

declare parseredirs.simps [simp del]

lemma parseredirs_le: "parseredirs s = Parsed rs s' \<Longrightarrow> length s' \<le> length s"
proof (induction s arbitrary: rs rule: length_induct)
  case (1 s)
  show ?case
  proof (cases "peek ''<>'' s")
    case False
    then show ?thesis using "1.prems" length_dropWhile_le [of ws s] by (simp add: parseredirs.simps [of s])
  next
    case True
    obtain t qe s1 t2 f s2 where g: "gettoken s = (t, qe, s1)" "gettoken s1 = (t2, f, s2)" by (metis prod_cases3)
    have l: "length s1 < length s" "length s2 \<le> length s1" using gettoken_shorter [OF _ g(1)] gettoken_le [OF g(2)] True by (auto simp: peek_def)
    obtain rs2 where "parseredirs s2 = Parsed rs2 s'"
      using "1.prems" True g by (cases "parseredirs s2") (auto simp: parseredirs.simps [of s] split: if_splits)
    then have "length s' \<le> length s2" using "1.IH" l by auto
    then show ?thesis using l by simp
  qed
qed

function parseargs :: "nat \<Rightarrow> string \<Rightarrow> (tok list \<times> (tok \<times> 32 word \<times> int) list) parsed" where
  \<comment> \<open>the loop of \<open>parseexec\<close>: the arguments and the redirections between them\<close>
  "parseargs argc s =
     (if peek ''|)&;'' s then Parsed ([], []) (dropWhile ws s)
      else
        let (t, qe, s1) = gettoken s in
        if t = CHR 0x00 then Parsed ([], []) s1
        else if t \<noteq> CHR ''a'' then Syntax ''syntax''
        else if Suc argc \<ge> MAXARGS then Syntax ''too many args''
        else pthen (parseredirs s1) (\<lambda>rs s2.
          pthen (parseargs (Suc argc) s2) (\<lambda>(args, rs') s3. Parsed (qe # args, rs @ rs') s3)))"
  by auto
termination
proof (relation "measure (\<lambda>(argc, s). length s)", simp)
  fix argc s t qe s1 rs s2 and x :: "char \<times> tok \<times> string" and y
  assume a: "x = gettoken s" "(t, y) = x" "(qe, s1) = y" "t \<noteq> CHR 0x00" "parseredirs s1 = Parsed rs s2"
  then have "length s1 < length s" using gettoken_shorter [of s t qe s1] gettoken_end [of s t qe s1] by auto
  then show "((Suc argc, s2), argc, s) \<in> measure (\<lambda>(argc, s). length s)" using parseredirs_le [OF a(5)] by simp
qed

declare parseargs.simps [simp del]

definition wrap :: "tok cmd \<Rightarrow> (tok \<times> 32 word \<times> int) list \<Rightarrow> tok cmd" where
  "wrap c rs = foldl (\<lambda>c (f, mode, fd). REDIR c f mode fd) c rs"

function parsebacks :: "tok cmd \<Rightarrow> string \<Rightarrow> tok cmd \<times> string" where
  \<comment> \<open>the loop of \<open>parseline\<close>\<close>
  "parsebacks c s = (if peek ''&'' s then parsebacks (BACK c) (snd (snd (gettoken s))) else (c, dropWhile ws s))"
  by auto
termination
proof (relation "measure (\<lambda>(c, s). length s)", simp)
  fix c :: "tok cmd" and s
  assume "peek ''&'' s"
  then show "((BACK c, snd (snd (gettoken s))), c, s) \<in> measure (\<lambda>(c, s). length s)"
    using gettoken_shorter [of s] by (cases "gettoken s") (auto simp: peek_def)
qed

declare parsebacks.simps [simp del]

fun parseline :: "nat \<Rightarrow> string \<Rightarrow> tok cmd parsed"
  and parsepipe :: "nat \<Rightarrow> string \<Rightarrow> tok cmd parsed"
  and parseexec :: "nat \<Rightarrow> string \<Rightarrow> tok cmd parsed"
  and parseblock :: "nat \<Rightarrow> string \<Rightarrow> tok cmd parsed" where
  "parseline 0 s = Too_deep"
| "parseline (Suc n) s =
     pthen (parsepipe n s) (\<lambda>c s1.
     let (c, s2) = parsebacks c s1 in
     if peek '';'' s2 then
       pthen (parseline n (snd (snd (gettoken s2)))) (\<lambda>d s3. Parsed (LIST c d) s3)
     else Parsed c (dropWhile ws s2))"
| "parsepipe 0 s = Too_deep"
| "parsepipe (Suc n) s =
     pthen (parseexec n s) (\<lambda>c s1.
     if peek ''|'' s1 then
       pthen (parsepipe n (snd (snd (gettoken s1)))) (\<lambda>d s2. Parsed (PIPE c d) s2)
     else Parsed c (dropWhile ws s1))"
| "parseexec 0 s = Too_deep"
| "parseexec (Suc n) s =
     (if peek ''('' s then parseblock n s
      else pthen (parseredirs s) (\<lambda>rs s1. pthen (parseargs 0 s1) (\<lambda>(args, rs') s2. Parsed (wrap (EXEC args) (rs @ rs')) s2)))"
| "parseblock 0 s = Too_deep"
| "parseblock (Suc n) s =
     (if \<not> peek ''('' s then Syntax ''parseblock''
      else
        pthen (parseline n (snd (snd (gettoken s)))) (\<lambda>c s1.
        if \<not> peek '')'' s1 then Syntax ''syntax - missing )''
        else pthen (parseredirs (snd (snd (gettoken s1)))) (\<lambda>rs s2. Parsed (wrap c rs) s2)))"

definition parse_all :: "string \<Rightarrow> tok cmd parsed" where
  \<comment> \<open>the number bounds how deep the calls are nested, not how many there are\<close>
  "parse_all s = pthen (parseline (4 * length s + 4) s) (\<lambda>c s. Parsed c (dropWhile ws s))"

text \<open>
  \<open>nulterminate\<close> writes a zero at the end of every counted string. The strings of the command are
  what is then found from each \<open>q\<close> up to the next zero.
\<close>

primrec ends :: "tok cmd \<Rightarrow> nat set" where
  \<comment> \<open>the places written, by their distance from the end of the line\<close>
  "ends (EXEC args) = (\<lambda>(q, eq). length eq) ` set args"
| "ends (REDIR c f mode fd) = insert (length (snd f)) (ends c)"
| "ends (PIPE c d) = ends c \<union> ends d"
| "ends (LIST c d) = ends c \<union> ends d"
| "ends (BACK c) = ends c"

fun nulled :: "nat set \<Rightarrow> string \<Rightarrow> string" where
  "nulled E [] = []"
| "nulled E (c # s) = (if Suc (length s) \<in> E then CHR 0x00 else c) # nulled E s"

definition nulterminate :: "tok cmd \<Rightarrow> string cmd" where
  "nulterminate c = map_cmd (\<lambda>(q, eq). takeWhile (\<lambda>x. x \<noteq> CHR 0x00) (nulled (ends c) q)) c"

section \<open>Running commands\<close>

definition shpanic :: "'w sys \<Rightarrow> string \<Rightarrow> ('a, 'w) uprog" where
  "shpanic S msg = andthen (fprintf S 2 (''%s'' @ newline) [U_str (Some msg)]) (uexit 1)"

definition fork1 :: "'w sys \<Rightarrow> (int, 'w) uprog" where
  "fork1 S = bind (u_fork S) (\<lambda>pid. if pid = - 1 then shpanic S ''fork'' else ret pid)"

primrec runcmd :: "'w sys \<Rightarrow> string cmd \<Rightarrow> ('a, 'w) uprog" where
  "runcmd S (EXEC argv) =
     (if argv = [] then uexit 1 else
      andthen (u_exec S (hd argv) argv)
      (andthen (fprintf S 2 (''exec %s failed'' @ newline) [U_str (Some (hd argv))])
      (uexit 0)))"
| "runcmd S (REDIR c file mode fd) =
     andthen (u_close S fd)
     (bind (u_open S file mode) (\<lambda>r.
      if r < 0 then andthen (fprintf S 2 (''open %s failed'' @ newline) [U_str (Some file)]) (uexit 1)
      else runcmd S c))"
| "runcmd S (LIST c d) =
     bind (fork1 S) (\<lambda>pid.
     if pid = 0 then runcmd S c else
     andthen (u_wait S)
     (runcmd S d))"
| "runcmd S (PIPE c d) =
     bind (u_pipe S) (\<lambda>(r, p0, p1).
     if r < 0 then shpanic S ''pipe'' else
     bind (fork1 S) (\<lambda>pid.
     if pid = 0 then
       andthen (u_close S 1) (andthen (u_dup S p1) (andthen (u_close S p0) (andthen (u_close S p1) (runcmd S c))))
     else
       bind (fork1 S) (\<lambda>pid.
       if pid = 0 then
         andthen (u_close S 0) (andthen (u_dup S p0) (andthen (u_close S p0) (andthen (u_close S p1) (runcmd S d))))
       else
         andthen (u_close S p0) (andthen (u_close S p1) (andthen (u_wait S) (andthen (u_wait S) (uexit 0)))))))"
| "runcmd S (BACK c) =
     bind (fork1 S) (\<lambda>pid. if pid = 0 then runcmd S c else uexit 0)"

definition parsecmd :: "'w sys \<Rightarrow> string \<Rightarrow> (string cmd, 'w) uprog" where
  "parsecmd S s =
     (case parse_all s of
        Parsed c rest \<Rightarrow>
          if rest \<noteq> [] then
            andthen (fprintf S 2 (''leftovers: %s'' @ newline) [U_str (Some rest)]) (shpanic S ''syntax'')
          else ret (nulterminate c)
      | Syntax msg \<Rightarrow> shpanic S msg
      | Too_deep \<Rightarrow> stop Endless)"

definition getcmd :: "'w sys \<Rightarrow> nat \<Rightarrow> (string option, 'w) uprog" where
  \<comment> \<open>\<open>None\<close> at the end of the input; a zero that was read ends the line\<close>
  "getcmd S nbuf =
     andthen (u_write S 2 ''$ '')
     (bind (ugets S (int nbuf)) (\<lambda>buf.
      let s = takeWhile (\<lambda>c. c \<noteq> CHR 0x00) buf in
      ret (if s = [] then None else Some s)))"

primrec open_console :: "'w sys \<Rightarrow> nat \<Rightarrow> (unit, 'w) uprog" where
  "open_console S 0 = stop Endless"
| "open_console S (Suc turns) =
     bind (u_open S ''console'' O_RDWR) (\<lambda>fd.
     if fd \<ge> 0 then if fd \<ge> 3 then andthen (u_close S fd) skip else open_console S turns
     else skip)"

primrec sh_loop :: "'w sys \<Rightarrow> nat \<Rightarrow> (unit, 'w) uprog" where
  "sh_loop S 0 = stop Endless"
| "sh_loop S (Suc turns) =
     bind (getcmd S 100) (\<lambda>r.
     case r of None \<Rightarrow> skip
     | Some buf \<Rightarrow>
         if take 3 buf = ''cd '' then
           let dir = drop 3 (butlast buf) in
           bind (u_chdir S dir) (\<lambda>r.
           andthen (if r < 0 then fprintf S 2 (''cannot cd %s'' @ newline) [U_str (Some dir)] else skip)
           (sh_loop S turns))
         else
           bind (fork1 S) (\<lambda>pid.
           if pid = 0 then bind (parsecmd S buf) (runcmd S)
           else andthen (u_wait S) (sh_loop S turns)))"

definition sh_main :: "'w sys \<Rightarrow> nat \<Rightarrow> (int, 'w) uprog" where
  "sh_main S turns = andthen (open_console S turns) (andthen (sh_loop S turns) (uexit 0))"

section \<open>The parser always comes to an end\<close>

definition wordc :: "char \<Rightarrow> bool" where
  "wordc c \<longleftrightarrow> \<not> ws c \<and> \<not> symbol c"

fun good_tok :: "string \<Rightarrow> tok \<Rightarrow> bool" where
  \<comment> \<open>a word of the text \<open>s\<close>: it ends where the text does or at a character that is not part of a word\<close>
  "good_tok s (q, e) \<longleftrightarrow> suffix q s \<and> suffix e q \<and> (\<forall>c \<in> set (take (length q - length e) q). wordc c) \<and> (e = [] \<or> \<not> wordc (hd e))"

declare good_tok.simps [simp del]

definition fine :: "('a \<Rightarrow> tok set) \<Rightarrow> string \<Rightarrow> 'a parsed \<Rightarrow> bool" where
  \<comment> \<open>not out of calls; a result leaves a rest of the text, and its tokens are words of the text\<close>
  "fine T s r \<longleftrightarrow> (case r of Parsed a s' \<Rightarrow> suffix s' s \<and> (\<forall>t \<in> T a. good_tok s t) | Syntax m \<Rightarrow> True | Too_deep \<Rightarrow> False)"

lemma fine_simps [simp]:
  "fine T s (Parsed a s') \<longleftrightarrow> suffix s' s \<and> (\<forall>t \<in> T a. good_tok s t)" "fine T s (Syntax m)" "\<not> fine T s Too_deep"
  by (simp_all add: fine_def)

lemma good_tok_mono: "good_tok s' t \<Longrightarrow> suffix s' s \<Longrightarrow> good_tok s t"
  by (cases t) (auto simp: good_tok.simps intro: suffix_order.trans)

lemma fine_mono: "fine T s' p \<Longrightarrow> suffix s' s \<Longrightarrow> fine T s p"
  by (cases p) (auto intro: suffix_order.trans good_tok_mono)

lemma fine_pthen:
  assumes "fine T s p" "\<And>a s'. p = Parsed a s' \<Longrightarrow> suffix s' s \<Longrightarrow> \<forall>t \<in> T a. good_tok s t \<Longrightarrow> fine U s (f a s')"
  shows "fine U s (pthen p f)"
  using assms by (cases p) simp_all

lemma suffix_ws: "suffix (dropWhile ws s) s"
  by (rule suffix_dropWhile)

lemma gettoken_suffix:
  assumes "gettoken s = (t, qe, s')" shows "suffix s' s" "t = CHR ''a'' \<Longrightarrow> good_tok s qe"
proof -
  let ?q = "dropWhile ws s" and ?w = "\<lambda>c. \<not> ws c \<and> \<not> symbol c"
  have q: "suffix ?q s" by (rule suffix_ws)
  have d: "suffix (dropWhile ws e) s" if "suffix e ?q" for e using that q suffix_ws [of e] by (metis suffix_order.trans)
  show "suffix s' s"
  proof (cases ?q)
    case (Cons c r)
    then have "suffix r ?q" "suffix (tl r) ?q" by (auto intro: suffix_ConsI suffix_order.trans [OF suffix_tl])
    then show ?thesis using assms d d [OF suffix_dropWhile [of ?w]] Cons by (auto simp: gettoken_def Let_def split: if_splits)
  qed (use assms in \<open>simp add: gettoken_def del: dropWhile_eq_Nil_conv\<close>)
  assume a: "t = CHR ''a''"
  then have qe: "qe = (?q, dropWhile ?w ?q)" using assms by (auto simp: gettoken_def Let_def split: list.splits if_splits)
  have "take (length ?q - length (dropWhile ?w ?q)) ?q = takeWhile ?w ?q"
    by (metis takeWhile_dropWhile_id append_eq_conv_conj length_append diff_add_inverse2)
  then show "good_tok s qe" using q hd_dropWhile [of ?w ?q] unfolding qe
    by (auto simp: good_tok.simps suffix_dropWhile wordc_def dest: set_takeWhileD)
qed

lemma peek_shorter: "peek toks s \<Longrightarrow> length (snd (snd (gettoken s))) < length s" "suffix (snd (snd (gettoken s))) s"
  using gettoken_shorter [of s] gettoken_suffix(1) [of s] by (cases "gettoken s"; auto simp: peek_def)+

lemma fine_parseredirs: "fine (\<lambda>rs. fst ` set rs) s (parseredirs s)"
proof (induction s rule: length_induct)
  case (1 s)
  show ?case
  proof (cases "peek ''<>'' s")
    case False
    then show ?thesis using suffix_ws [of s] by (simp add: parseredirs.simps [of s])
  next
    case True
    obtain t qe s1 t2 f s2 where g: "gettoken s = (t, qe, s1)" "gettoken s1 = (t2, f, s2)" by (metis prod_cases3)
    have l: "length s1 < length s" "length s2 \<le> length s1" using gettoken_shorter [OF _ g(1)] gettoken_le [OF g(2)] True by (auto simp: peek_def)
    have sf: "suffix s1 s" "suffix s2 s" using gettoken_suffix(1) [OF g(1)] gettoken_suffix(1) [OF g(2)] by (auto intro: suffix_order.trans)
    have "fine (\<lambda>rs. fst ` set rs) s (parseredirs s2)" by (rule fine_mono [OF _ sf(2)]) (use "1.IH" l in auto)
    moreover have "t2 = CHR ''a'' \<Longrightarrow> good_tok s f" using gettoken_suffix(2) [OF g(2)] good_tok_mono sf(1) by blast
    ultimately show ?thesis using True g by (auto simp: parseredirs.simps [of s] intro!: fine_pthen [where T = "\<lambda>rs. fst ` set rs"])
  qed
qed

abbreviation arg_toks :: "tok list \<times> (tok \<times> 32 word \<times> int) list \<Rightarrow> tok set" where
  "arg_toks \<equiv> \<lambda>(args, rs). set args \<union> fst ` set rs"

lemma fine_parseargs: "fine arg_toks s (parseargs argc s)"
proof (induction s arbitrary: argc rule: length_induct)
  case (1 s)
  obtain t qe s1 where g: "gettoken s = (t, qe, s1)" by (metis prod_cases3)
  note sf = gettoken_suffix [OF g]
  show ?case
  proof (cases "\<not> peek ''|)&;'' s \<and> t = CHR ''a'' \<and> Suc argc < MAXARGS")
    case False
    then show ?thesis using g sf(1) suffix_ws [of s] by (auto simp: parseargs.simps [of argc s])
  next
    case True
    have l: "length s1 < length s" using gettoken_shorter [OF _ g] gettoken_end [OF g] True by auto
    have "fine arg_toks s (pthen (parseredirs s1) (\<lambda>rs s2.
        pthen (parseargs (Suc argc) s2) (\<lambda>(args, rs') s3. Parsed (qe # args, rs @ rs') s3)))"
    proof (rule fine_pthen [OF fine_mono [OF fine_parseredirs sf(1)]])
      fix rs and s2 :: string assume s2: "parseredirs s1 = Parsed rs s2" "suffix s2 s" "\<forall>t \<in> fst ` set rs. good_tok s t"
      have "length s2 < length s" using parseredirs_le [OF s2(1)] l by simp
      then have "fine arg_toks s (parseargs (Suc argc) s2)" by (intro fine_mono [OF _ s2(2)]) (use "1.IH" in blast)
      then show "fine arg_toks s (pthen (parseargs (Suc argc) s2) (\<lambda>(args, rs') s3. Parsed (qe # args, rs @ rs') s3))"
        by (rule fine_pthen) (use s2(3) sf(2) True in \<open>auto split: prod.split\<close>)
    qed
    then show ?thesis using True g by (simp add: parseargs.simps [of argc s])
  qed
qed

lemma set_wrap [simp]: "set_cmd (wrap c rs) = set_cmd c \<union> fst ` set rs"
  unfolding wrap_def by (induction rs arbitrary: c) auto

lemma fine_parsebacks: "suffix (snd (parsebacks c s)) s \<and> set_cmd (fst (parsebacks c s)) = set_cmd c"
proof (induction s arbitrary: c rule: length_induct)
  case (1 s)
  show ?case
  proof (cases "peek ''&'' s")
    case True
    then show ?thesis using 1 peek_shorter(1) [OF True] suffix_order.trans [OF _ peek_shorter(2) [of s]]
      by (simp add: parsebacks.simps [of c s])
  next
    case False
    then show ?thesis using suffix_ws [of s] by (simp add: parsebacks.simps [of c s])
  qed
qed

lemma suffix_less: "suffix s1 s \<Longrightarrow> peek toks s1 \<Longrightarrow> length (snd (snd (gettoken s1))) < length s \<and> suffix (snd (snd (gettoken s1))) s"
  using peek_shorter(1) [of toks s1] suffix_order.trans [OF peek_shorter(2) [of s1]] suffix_length_le [of s1 s] by auto

lemma parse_fine:
  "(4 * length s + 4 \<le> n \<longrightarrow> fine set_cmd s (parseline n s)) \<and> (4 * length s + 3 \<le> n \<longrightarrow> fine set_cmd s (parsepipe n s))
   \<and> (4 * length s + 2 \<le> n \<longrightarrow> fine set_cmd s (parseexec n s)) \<and> (4 * length s + 1 \<le> n \<longrightarrow> fine set_cmd s (parseblock n s))"
proof (induction n arbitrary: s)
  case (Suc n)
  have "fine set_cmd s (parseline (Suc n) s)" if n: "4 * length s + 4 \<le> Suc n"
    unfolding parseline.simps
  proof (rule fine_pthen)
    show "fine set_cmd s (parsepipe n s)" using Suc n by simp
    fix c :: "tok cmd" and s1 :: string assume s1: "suffix s1 s" "\<forall>t \<in> set_cmd c. good_tok s t"
    obtain d s2 where b: "parsebacks c s1 = (d, s2)" by (metis surj_pair)
    then have s2: "suffix s2 s" "set_cmd d = set_cmd c" using fine_parsebacks [of c s1] s1 by (auto intro: suffix_order.trans)
    have "fine set_cmd s (parseline n (snd (snd (gettoken s2))))" if "peek '';'' s2"
      using Suc.IH [of "snd (snd (gettoken s2))"] n suffix_less [OF s2(1) that] by (auto intro: fine_mono)
    then show "fine set_cmd s (let (c, s2) = parsebacks c s1 in
        if peek '';'' s2 then pthen (parseline n (snd (snd (gettoken s2)))) (\<lambda>d s3. Parsed (LIST c d) s3) else Parsed c (dropWhile ws s2))"
      using b s2 s1(2) suffix_order.trans [OF suffix_ws s2(1)] by (auto intro!: fine_pthen [where T = set_cmd])
  qed
  moreover have "fine set_cmd s (parsepipe (Suc n) s)" if n: "4 * length s + 3 \<le> Suc n"
    unfolding parsepipe.simps
  proof (rule fine_pthen)
    show "fine set_cmd s (parseexec n s)" using Suc n by simp
    fix c :: "tok cmd" and s1 :: string assume s1: "suffix s1 s" "\<forall>t \<in> set_cmd c. good_tok s t"
    have "fine set_cmd s (parsepipe n (snd (snd (gettoken s1))))" if "peek ''|'' s1"
      using Suc.IH [of "snd (snd (gettoken s1))"] n suffix_less [OF s1(1) that] by (auto intro: fine_mono)
    then show "fine set_cmd s (if peek ''|'' s1 then pthen (parsepipe n (snd (snd (gettoken s1)))) (\<lambda>d s2. Parsed (PIPE c d) s2)
        else Parsed c (dropWhile ws s1))"
      using s1 suffix_order.trans [OF suffix_ws s1(1)] by (auto intro!: fine_pthen [where T = set_cmd])
  qed
  moreover have "fine set_cmd s (parseexec (Suc n) s)" if n: "4 * length s + 2 \<le> Suc n"
  proof -
    have "fine set_cmd s (pthen (parseredirs s) (\<lambda>rs s1. pthen (parseargs 0 s1) (\<lambda>(args, rs') s2. Parsed (wrap (EXEC args) (rs @ rs')) s2)))"
    proof (rule fine_pthen [OF fine_parseredirs])
      fix rs :: "(tok \<times> 32 word \<times> int) list" and s1 :: string assume a: "suffix s1 s" "\<forall>t \<in> fst ` set rs. good_tok s t"
      show "fine set_cmd s (pthen (parseargs 0 s1) (\<lambda>(args, rs') s2. Parsed (wrap (EXEC args) (rs @ rs')) s2))"
        by (rule fine_pthen [OF fine_mono [OF fine_parseargs a(1)]]) (use a(2) in \<open>auto split: prod.split\<close>)
    qed
    then show ?thesis using Suc.IH [of s] n by simp
  qed
  moreover have "fine set_cmd s (parseblock (Suc n) s)" if n: "4 * length s + 1 \<le> Suc n"
  proof (cases "peek ''('' s")
    case True
    note g = peek_shorter(1) [OF True] peek_shorter(2) [of s]
    have "fine set_cmd s (parseline n (snd (snd (gettoken s))))"
      using Suc.IH [of "snd (snd (gettoken s))"] n g by (auto intro: fine_mono)
    moreover have "fine set_cmd s (if \<not> peek '')'' s1 then Syntax ''syntax - missing )''
        else pthen (parseredirs (snd (snd (gettoken s1)))) (\<lambda>rs s2. Parsed (wrap c rs) s2))"
      if "suffix s1 s" "\<forall>t \<in> set_cmd c. good_tok s t" for c s1
      using that fine_mono [OF fine_parseredirs, of "snd (snd (gettoken s1))" s] suffix_less [OF that(1), of "'')''"]
      by (fastforce intro!: fine_pthen [where T = "\<lambda>rs. fst ` set rs"])
    ultimately show ?thesis using True by (auto intro!: fine_pthen [where T = set_cmd])
  qed simp
  ultimately show ?case by blast
qed simp

lemma parse_all_fine: "fine set_cmd s (parse_all s)"
  unfolding parse_all_def using parse_fine [of s "4 * length s + 4"]
  by (auto intro!: fine_pthen [where T = set_cmd] intro: suffix_order.trans [OF suffix_ws])

text \<open>
  C25. The parser of the shell comes to an end on every line: its calls are never nested deeper than four
  for each character of the line and four more, and it returns a command or reports a syntax error.
\<close>

theorem parsecmd_terminates:
  "(\<exists>c s'. parse_all s = Parsed c s' \<and> suffix s' s) \<or> (\<exists>msg. parse_all s = Syntax msg)"
  using parse_all_fine [of s] by (cases "parse_all s") auto

section \<open>The argument strings\<close>

definition tok_text :: "tok \<Rightarrow> string" where
  "tok_text = (\<lambda>(q, e). take (length q - length e) q)"

lemma ends_set: "ends c = (\<lambda>t. length (snd t)) ` set_cmd c"
  by (induction c) (auto simp: split_def)

lemma nulled_word: "(\<And>k. 0 < k \<Longrightarrow> k \<le> length w \<Longrightarrow> length e + k \<notin> E) \<Longrightarrow> nulled E (w @ e) = w @ nulled E e"
  by (induction w) (simp_all, metis Suc_leI add.commute add_Suc_right le_SucI less_or_eq_imp_le order_refl zero_less_Suc)

lemma suffix_same_length: "suffix a s \<Longrightarrow> suffix b s \<Longrightarrow> length a = length b \<Longrightarrow> a = b"
  by (auto simp: suffix_def)

lemma string_at:
  assumes t: "t \<in> set_cmd c" and good: "\<forall>t \<in> set_cmd c. good_tok s t" and z: "CHR 0x00 \<notin> set s"
  shows "takeWhile (\<lambda>x. x \<noteq> CHR 0x00) (nulled (ends c) (fst t)) = tok_text t"
proof -
  obtain q e where qe: "t = (q, e)" by (cases t)
  define w where "w = tok_text t"
  have g: "suffix q s" "suffix e q" "\<forall>c \<in> set w. wordc c" using good t qe by (auto simp: good_tok.simps w_def tok_text_def)
  have q: "q = w @ e" using g(2) by (auto simp: w_def tok_text_def qe suffix_def)
  have "length e + k \<notin> ends c" if k: "0 < k" "k \<le> length w" for k
  proof
    assume "length e + k \<in> ends c"
    then obtain q' e' where e': "(q', e') \<in> set_cmd c" "length e' = length e + k" by (auto simp: ends_set)
    have "good_tok s (q', e')" using good e'(1) by blast
    then have "suffix e' s" "e' = [] \<or> \<not> wordc (hd e')" by (auto simp: good_tok.simps intro: suffix_order.trans)
    moreover have "suffix (drop (length w - k) w @ e) s"
      using g(1) q suffix_drop [of "length w - k" w] by (metis suffix_append suffix_order.trans same_suffix_suffix)
    ultimately have "e' = drop (length w - k) w @ e" using e'(2) k by (intro suffix_same_length) auto
    moreover have "drop (length w - k) w \<noteq> []" using k by simp
    then have "hd (drop (length w - k) w @ e) \<in> set w" by (metis hd_append2 hd_in_set in_set_dropD)
    ultimately show False using \<open>e' = [] \<or> _\<close> e'(2) k g(3) by auto
  qed
  then have "nulled (ends c) q = w @ nulled (ends c) e" unfolding q by (rule nulled_word)
  moreover have "CHR 0x00 \<notin> set w" using z g(1) unfolding q by (auto simp: suffix_def)
  then have "takeWhile (\<lambda>x. x \<noteq> CHR 0x00) (w @ nulled (ends c) e) = w @ takeWhile (\<lambda>x. x \<noteq> CHR 0x00) (nulled (ends c) e)"
    by (intro takeWhile_append2) auto
  moreover have "length e \<in> ends c" using t qe by (force simp: ends_set)
  then have "takeWhile (\<lambda>x. x \<noteq> CHR 0x00) (nulled (ends c) e) = []" by (cases e) auto
  ultimately have "takeWhile (\<lambda>x. x \<noteq> CHR 0x00) (nulled (ends c) q) = w" by simp
  then show ?thesis by (simp add: w_def qe)
qed

lemma nulterminate_text:
  assumes "parse_all s = Parsed c s'" "CHR 0x00 \<notin> set s"
  shows "nulterminate c = map_cmd tok_text c"
proof -
  have "\<forall>t \<in> set_cmd c. good_tok s t" using parse_all_fine [of s] assms(1) by simp
  then have "takeWhile (\<lambda>x. x \<noteq> CHR 0x00) (nulled (ends c) (fst t)) = tok_text t" if "t \<in> set_cmd c" for t
    using string_at [OF that _ assms(2)] by blast
  then show ?thesis unfolding nulterminate_def by (intro cmd.map_cong) (auto simp: split_def)
qed

text \<open>
  C24. \<open>nulterminate\<close>, which writes zeros into the line the tokens point into, makes every argument and
  file name of a parsed command the word that was read, and damages no other: whatever the line, a
  zero falls on the end of the line or on a character that belongs to no word.
\<close>

theorem nulterminate_exact:
  assumes "parse_all s = Parsed c s'" "CHR 0x00 \<notin> set s"
  shows "nulterminate c = map_cmd tok_text c"
  using assms by (rule nulterminate_text)

theorem nulterminate_exact_witness:
  "\<exists>c. parse_all ''a>b'' = Parsed c [] \<and> nulterminate c = REDIR (EXEC [''a'']) ''b'' (O_WRONLY OR O_CREATE OR O_TRUNC) 1"
proof -
  have "parse_all ''a>b'' = Parsed (REDIR (EXEC [(''a>b'', ''>b'')]) (''b'', []) (O_WRONLY OR O_CREATE OR O_TRUNC) 1) []"
    by code_simp
  then show ?thesis using nulterminate_exact [of "''a>b''"] by (simp add: tok_text_def)
qed

end
