(* ===== verification/Shellprint.thy ===== *)
theory Shellprint
  imports Shell
begin

unbundle bit_operations_syntax

text \<open>
  The shell's parser inverts a printer: every command whose words are proper words, printed with
  parentheses where the grammar needs them, is parsed back as itself.
\<close>

section \<open>A printer\<close>

definition word_ok :: "string \<Rightarrow> bool" where
  "word_ok t \<longleftrightarrow> t \<noteq> [] \<and> (\<forall>c \<in> set t. wordc c \<and> c \<noteq> CHR 0x00)"

definition redir_sym :: "32 word \<Rightarrow> string" where
  "redir_sym mode = (if mode = O_RDONLY then ''<'' else if mode = O_WRONLY OR O_CREATE OR O_TRUNC then ''>'' else ''>>'')"

definition redir_ok :: "string \<times> 32 word \<times> int \<Rightarrow> bool" where
  "redir_ok = (\<lambda>(f, mode, fd). word_ok f
     \<and> (mode, fd) \<in> {(O_RDONLY, 0), (O_WRONLY OR O_CREATE OR O_TRUNC, 1), (O_WRONLY OR O_CREATE, 1)})"

definition show_redirs :: "(string \<times> 32 word \<times> int) list \<Rightarrow> string" where
  "show_redirs rs = concat (map (\<lambda>(f, mode, fd). redir_sym mode @ f @ '' '') rs)"

definition show_words :: "string list \<Rightarrow> string" where
  "show_words args = concat (map (\<lambda>a. a @ '' '') args)"

definition paren :: "bool \<Rightarrow> string \<Rightarrow> string" where
  "paren b s = (if b then ''('' @ s @ '')'' else s)"

fun show_cmd :: "nat \<Rightarrow> string cmd \<Rightarrow> string" where
  \<comment> \<open>at level 0 a line, 1 a line without \<open>;\<close>, 2 a pipeline, 3 a simple command\<close>
  "show_cmd k (EXEC args) = show_words args"
| "show_cmd k (REDIR c f mode fd) = show_cmd 3 c @ show_redirs [(f, mode, fd)]"
| "show_cmd k (PIPE c d) = paren (2 < k) (show_cmd 3 c @ ''|'' @ show_cmd 2 d)"
| "show_cmd k (BACK c) = paren (1 < k) (show_cmd 1 c @ ''&'')"
| "show_cmd k (LIST c d) = paren (0 < k) (show_cmd 1 c @ '';'' @ show_cmd 0 d)"

fun cmd_ok :: "string cmd \<Rightarrow> bool" where
  "cmd_ok (EXEC args) \<longleftrightarrow> length args < MAXARGS \<and> (\<forall>a \<in> set args. word_ok a)"
| "cmd_ok (REDIR c f mode fd) \<longleftrightarrow> cmd_ok c \<and> redir_ok (f, mode, fd)"
| "cmd_ok (PIPE c d) \<longleftrightarrow> cmd_ok c \<and> cmd_ok d"
| "cmd_ok (BACK c) \<longleftrightarrow> cmd_ok c"
| "cmd_ok (LIST c d) \<longleftrightarrow> cmd_ok c \<and> cmd_ok d"

section \<open>Tokens of printed text\<close>

lemma ws_idem [simp]: "dropWhile ws (dropWhile ws s) = dropWhile ws s"
  by (rule dropWhile_idem)

lemma peek_ws [simp]: "peek toks (dropWhile ws s) = peek toks s"
  by (simp add: peek_def del: dropWhile_eq_Nil_conv)

lemma gettoken_ws [simp]: "gettoken (dropWhile ws s) = gettoken s"
  by (simp add: gettoken_def)

lemma parse_ws [simp]:
  "parseredirs (dropWhile ws s) = parseredirs s" "parseargs argc (dropWhile ws s) = parseargs argc s"
  "parsebacks c (dropWhile ws s) = parsebacks c s" "parseblock n (dropWhile ws s) = parseblock n s"
  "parseexec n (dropWhile ws s) = parseexec n s" "parsepipe n (dropWhile ws s) = parsepipe n s"
  "parseline n (dropWhile ws s) = parseline n s"
proof -
  show r: "parseredirs (dropWhile ws s) = parseredirs s"
    by (subst (1 2) parseredirs.simps) simp
  show a: "parseargs argc (dropWhile ws s) = parseargs argc s"
    by (subst (1 2) parseargs.simps) simp
  show "parsebacks c (dropWhile ws s) = parsebacks c s"
    by (subst (1 2) parsebacks.simps) simp
  show b: "parseblock n (dropWhile ws s) = parseblock n s" for n by (cases n) simp_all
  then show e: "parseexec n (dropWhile ws s) = parseexec n s" for n using r by (cases n) simp_all
  then show p: "parsepipe n (dropWhile ws s) = parsepipe n s" for n by (cases n) simp_all
  then show "parseline n (dropWhile ws s) = parseline n s" for n by (cases n) simp_all
qed

lemma word_char: "wordc c \<Longrightarrow> \<not> ws c" "wordc c \<Longrightarrow> c \<notin> set ''|();&<>''" "ws CHR '' ''" "\<not> wordc CHR '' ''"
  by (auto simp: wordc_def symbol_def ws_def)

lemma gettoken_word:
  assumes "word_ok t"
  shows "gettoken (t @ CHR '' '' # s) = (CHR ''a'', (t @ CHR '' '' # s, CHR '' '' # s), dropWhile ws s)"
    and "tok_text (t @ CHR '' '' # s, CHR '' '' # s) = t"
    and "\<not> peek ''<>'' (t @ s')" "\<not> peek ''|)&;'' (t @ s')" "\<not> peek ''('' (t @ s')"
proof -
  obtain c r where t: "t = c # r" using assms by (cases t) (auto simp: word_ok_def)
  have c: "\<not> ws c" "c \<notin> set ''|();&<>''" using assms word_char(1,2) [of c] by (auto simp: word_ok_def t)
  have "dropWhile (\<lambda>c. \<not> ws c \<and> \<not> symbol c) (t @ CHR '' '' # s) = CHR '' '' # s"
    using assms word_char(3) by (auto simp: word_ok_def wordc_def dropWhile_append)
  then show "gettoken (t @ CHR '' '' # s) = (CHR ''a'', (t @ CHR '' '' # s, CHR '' '' # s), dropWhile ws s)"
    using c word_char(3) by (auto simp: gettoken_def t)
  show "tok_text (t @ CHR '' '' # s, CHR '' '' # s) = t" by (simp add: tok_text_def)
  show "\<not> peek ''<>'' (t @ s')" "\<not> peek ''|)&;'' (t @ s')" "\<not> peek ''('' (t @ s')" using c by (auto simp: peek_def t)
qed

lemma gettoken_symbol:
  "c \<in> set ''|();&<'' \<Longrightarrow> snd (snd (gettoken (c # s))) = dropWhile ws s \<and> fst (gettoken (c # s)) = c"
  "peek toks (c # s) \<longleftrightarrow> (if ws c then peek toks s else c \<in> set toks)"
  by (auto simp: gettoken_def ws_def peek_def)

section \<open>Redirections and arguments\<close>

lemma modes: "O_RDONLY \<noteq> O_WRONLY OR O_CREATE OR O_TRUNC" "O_RDONLY \<noteq> O_WRONLY OR O_CREATE"
  "O_WRONLY OR O_CREATE OR O_TRUNC \<noteq> O_WRONLY OR O_CREATE"
  by (simp_all add: layout)

definition redir_text :: "tok \<times> 32 word \<times> int \<Rightarrow> string \<times> 32 word \<times> int" where
  "redir_text = (\<lambda>(f, mode, fd). (tok_text f, mode, fd))"

lemma parse_redir:
  assumes "redir_ok (f, mode, fd)" "parseredirs s = Parsed rs s'"
  shows "\<exists>q. parseredirs (show_redirs [(f, mode, fd)] @ s) = Parsed ((q, mode, fd) # rs) s' \<and> tok_text q = f"
proof -
  have f: "word_ok f" using assms(1) by (simp add: redir_ok_def)
  obtain c r where t: "f = c # r" using f by (cases f) (auto simp: word_ok_def)
  have c: "\<not> ws c" "c \<noteq> CHR ''>''" using f word_char(1,2) [of c] by (auto simp: word_ok_def t)
  have g: "gettoken (''<'' @ f @ '' '' @ s) = (CHR ''<'', (''<'' @ f @ '' '' @ s, f @ '' '' @ s), f @ '' '' @ s)"
    "gettoken (''>'' @ f @ '' '' @ s) = (CHR ''>'', (''>'' @ f @ '' '' @ s, f @ '' '' @ s), f @ '' '' @ s)"
    "gettoken (''>>'' @ f @ '' '' @ s) = (CHR ''+'', (''>>'' @ f @ '' '' @ s, f @ '' '' @ s), f @ '' '' @ s)"
    using c by (auto simp: gettoken_def ws_def t)
  have "peek ''<>'' (redir_sym mode @ f @ '' '' @ s)" by (auto simp: redir_sym_def peek_def ws_def)
  then show ?thesis using assms(1,2) g gettoken_word(1,2) [OF f, of s] modes
    by (subst parseredirs.simps) (auto simp: show_redirs_def redir_sym_def redir_ok_def)
qed

lemma parse_redirs:
  assumes "\<forall>r \<in> set rs. redir_ok r" "\<not> peek ''<>'' s"
  shows "\<exists>rs'. parseredirs (show_redirs rs @ s) = Parsed rs' (dropWhile ws s) \<and> map redir_text rs' = rs"
  using assms(1)
proof (induction rs)
  case Nil
  then show ?case using assms(2) by (subst parseredirs.simps) (simp add: show_redirs_def)
next
  case (Cons r rs)
  obtain f mode fd where r: "r = (f, mode, fd)" by (metis prod_cases3)
  obtain rs' where rs': "parseredirs (show_redirs rs @ s) = Parsed rs' (dropWhile ws s)" "map redir_text rs' = rs" using Cons by auto
  obtain q where "parseredirs (show_redirs [r] @ show_redirs rs @ s) = Parsed ((q, mode, fd) # rs') (dropWhile ws s)" "tok_text q = f"
    using parse_redir [of f mode fd, OF _ rs'(1)] Cons.prems r by auto
  moreover have "show_redirs (r # rs) = show_redirs [r] @ show_redirs rs" by (simp add: show_redirs_def)
  ultimately show ?case using rs'(2) r by (auto simp: redir_text_def)
qed

definition stops :: "string \<Rightarrow> string \<Rightarrow> bool" where
  "stops toks s \<longleftrightarrow> dropWhile ws s = [] \<or> hd (dropWhile ws s) \<in> set toks"

lemma stops_peek: "stops toks s \<Longrightarrow> (\<And>c. c \<in> set toks \<Longrightarrow> c \<notin> set toks') \<Longrightarrow> \<not> peek toks' s"
  by (auto simp: stops_def peek_def)

lemma parseargs_end: "stops ''|)&;'' s \<Longrightarrow> parseargs argc s = Parsed ([], []) (dropWhile ws s)"
proof (cases "dropWhile ws s = []")
  case True
  then have "\<not> peek ''|)&;'' s" "gettoken s = (CHR 0x00, ([], []), [])" by (simp_all add: peek_def gettoken_def del: dropWhile_eq_Nil_conv)
  then show ?thesis using True by (subst parseargs.simps) (simp del: dropWhile_eq_Nil_conv)
next
  case False
  assume "stops ''|)&;'' s"
  then have "peek ''|)&;'' s" using False by (simp add: stops_def peek_def del: dropWhile_eq_Nil_conv)
  then show ?thesis by (subst parseargs.simps) simp
qed

lemma parse_args:
  assumes "args \<noteq> []" "\<forall>a \<in> set args. word_ok a" "argc + length args < MAXARGS" "\<forall>r \<in> set rs. redir_ok r" "stops ''|)&;'' s"
  shows "\<exists>as rs'. parseargs argc (show_words args @ show_redirs rs @ s) = Parsed (as, rs') (dropWhile ws s)
     \<and> map tok_text as = args \<and> map redir_text rs' = rs"
  using assms(1-3)
proof (induction args arbitrary: argc)
  case (Cons a args)
  have a: "word_ok a" "Suc argc < MAXARGS" using Cons.prems by auto
  let ?s = "show_words args @ show_redirs rs @ s"
  have sh: "show_words (a # args) @ show_redirs rs @ s = a @ CHR '' '' # ?s" by (simp add: show_words_def)
  have p: "parseargs argc (a @ CHR '' '' # ?s) = pthen (parseredirs ?s) (\<lambda>rs s2.
      pthen (parseargs (Suc argc) s2) (\<lambda>(args, rs') s3. Parsed ((a @ CHR '' '' # ?s, CHR '' '' # ?s) # args, rs @ rs') s3))"
    using a gettoken_word(1,4) [OF a(1)] by (subst parseargs.simps) simp
  show ?case
  proof (cases "args = []")
    case True
    have s: "\<not> peek ''<>'' s" by (rule stops_peek [OF assms(5)]) auto
    obtain rs' where rs': "parseredirs (show_redirs rs @ s) = Parsed rs' (dropWhile ws s)" "map redir_text rs' = rs"
      using parse_redirs [OF assms(4) s] by blast
    have "parseargs (Suc argc) s = Parsed ([], []) (dropWhile ws s)"
      using parseargs_end [OF assms(5)] .
    then show ?thesis using True p rs' gettoken_word(2) [OF a(1), of ?s] unfolding sh by (simp add: show_words_def)
  next
    case False
    then obtain b bs where b: "args = b # bs" by (cases args) auto
    have "\<not> peek ''<>'' ?s" using gettoken_word(3) [of b] Cons.prems b by (simp add: show_words_def)
    then have "parseredirs ?s = Parsed [] (dropWhile ws ?s)" by (subst parseredirs.simps) simp
    moreover obtain as rs' where "parseargs (Suc argc) ?s = Parsed (as, rs') (dropWhile ws s)" "map tok_text as = args" "map redir_text rs' = rs"
      using Cons.IH [of "Suc argc"] Cons.prems False by auto
    ultimately show ?thesis using p gettoken_word(2) [OF a(1), of ?s] unfolding sh by (auto simp del: dropWhile_append)
  qed
qed simp

section \<open>Commands\<close>

fun unwrap :: "string cmd \<Rightarrow> string cmd \<times> (string \<times> 32 word \<times> int) list" where
  "unwrap (REDIR c f mode fd) = (fst (unwrap c), snd (unwrap c) @ [(f, mode, fd)])"
| "unwrap c = (c, [])"

definition rewrap :: "string cmd \<Rightarrow> (string \<times> 32 word \<times> int) list \<Rightarrow> string cmd" where
  "rewrap c rs = foldl (\<lambda>c (f, mode, fd). REDIR c f mode fd) c rs"

lemma rewrap_unwrap: "rewrap (fst (unwrap c)) (snd (unwrap c)) = c"
  by (induction c) (simp_all add: rewrap_def)

lemma show_unwrap: "show_cmd 3 c = show_cmd 3 (fst (unwrap c)) @ show_redirs (snd (unwrap c))"
  by (induction c) (simp_all add: show_redirs_def)

lemma ok_unwrap: "cmd_ok c \<Longrightarrow> cmd_ok (fst (unwrap c)) \<and> (\<forall>r \<in> set (snd (unwrap c)). redir_ok r)"
  by (induction c) auto

lemma unwrap_smaller: "fst (unwrap c) = c \<and> snd (unwrap c) = [] \<or> size_cmd (\<lambda>_. 0) (fst (unwrap c)) < size_cmd (\<lambda>_. 0) c"
  by (induction c) auto

lemma unwrap_base: "fst (unwrap c) \<noteq> REDIR d f mode fd"
  by (induction c) auto

lemma map_wrap: "map_cmd tok_text (wrap c rs) = rewrap (map_cmd tok_text c) (map redir_text rs)"
  unfolding wrap_def rewrap_def by (induction rs arbitrary: c) (auto simp: redir_text_def)

definition rt_exec :: "string cmd \<Rightarrow> bool" where
  "rt_exec c \<longleftrightarrow> (\<forall>n s. stops ''|)&;'' s \<longrightarrow> 4 * length (show_cmd 3 c @ s) + 2 \<le> n \<longrightarrow>
     (\<exists>t. parseexec n (show_cmd 3 c @ s) = Parsed t (dropWhile ws s) \<and> map_cmd tok_text t = c))"

definition rt_pipe :: "string cmd \<Rightarrow> bool" where
  "rt_pipe c \<longleftrightarrow> (\<forall>n s. stops '')&;'' s \<longrightarrow> 4 * length (show_cmd 2 c @ s) + 3 \<le> n \<longrightarrow>
     (\<exists>t. parsepipe n (show_cmd 2 c @ s) = Parsed t (dropWhile ws s) \<and> map_cmd tok_text t = c))"

definition rt_back :: "string cmd \<Rightarrow> bool" where
  "rt_back c \<longleftrightarrow> (\<forall>n s. stops '')&;'' s \<longrightarrow> 4 * length (show_cmd 1 c @ s) + 3 \<le> n \<longrightarrow>
     (\<exists>t t0 s0. parsepipe n (show_cmd 1 c @ s) = Parsed t0 s0 \<and> parsebacks t0 s0 = parsebacks t s \<and> map_cmd tok_text t = c))"

definition rt_line :: "string cmd \<Rightarrow> bool" where
  "rt_line c \<longleftrightarrow> (\<forall>n s. stops '')'' s \<longrightarrow> 4 * length (show_cmd 0 c @ s) + 4 \<le> n \<longrightarrow>
     (\<exists>t. parseline n (show_cmd 0 c @ s) = Parsed t (dropWhile ws s) \<and> map_cmd tok_text t = c))"

lemma rt_execD: "rt_exec c \<Longrightarrow> stops ''|)&;'' s \<Longrightarrow> 4 * length (show_cmd 3 c @ s) + 2 \<le> n \<Longrightarrow>
     \<exists>t. parseexec n (show_cmd 3 c @ s) = Parsed t (dropWhile ws s) \<and> map_cmd tok_text t = c"
  unfolding rt_exec_def by blast

lemma rt_pipeD: "rt_pipe c \<Longrightarrow> stops '')&;'' s \<Longrightarrow> 4 * length (show_cmd 2 c @ s) + 3 \<le> n \<Longrightarrow>
     \<exists>t. parsepipe n (show_cmd 2 c @ s) = Parsed t (dropWhile ws s) \<and> map_cmd tok_text t = c"
  unfolding rt_pipe_def by blast

lemma rt_backD: "rt_back c \<Longrightarrow> stops '')&;'' s \<Longrightarrow> 4 * length (show_cmd 1 c @ s) + 3 \<le> n \<Longrightarrow>
     \<exists>t t0 s0. parsepipe n (show_cmd 1 c @ s) = Parsed t0 s0 \<and> parsebacks t0 s0 = parsebacks t s \<and> map_cmd tok_text t = c"
  unfolding rt_back_def by blast

lemma rt_lineD: "rt_line c \<Longrightarrow> stops '')'' s \<Longrightarrow> 4 * length (show_cmd 0 c @ s) + 4 \<le> n \<Longrightarrow>
     \<exists>t. parseline n (show_cmd 0 c @ s) = Parsed t (dropWhile ws s) \<and> map_cmd tok_text t = c"
  unfolding rt_line_def by blast

lemma stops_symbol: "c \<in> set toks \<Longrightarrow> \<not> ws c \<Longrightarrow> stops toks (c # s)"
  by (simp add: stops_def)

lemma not_ws [simp]: "\<not> ws CHR ''|''" "\<not> ws CHR '')''" "\<not> ws CHR ''&''" "\<not> ws CHR '';''" "\<not> ws CHR ''(''"
  by (simp_all add: ws_def)

lemma rt_pipe_PIPE:
  assumes "rt_exec c" "rt_pipe d"
  shows "rt_pipe (PIPE c d)"
  unfolding rt_pipe_def
proof (intro allI impI)
  fix n s assume s: "stops '')&;'' s" and n: "4 * length (show_cmd 2 (PIPE c d) @ s) + 3 \<le> n"
  then obtain m where m: "n = Suc m" by (cases n) auto
  let ?s = "CHR ''|'' # show_cmd 2 d @ s"
  have l: "4 * length (show_cmd 3 c @ ?s) + 2 \<le> m" "4 * length (show_cmd 2 d @ s) + 3 \<le> m" using n m by (simp_all add: paren_def)
  have "stops ''|)&;'' ?s" by (rule stops_symbol) simp_all
  then obtain t where t: "parseexec m (show_cmd 3 c @ ?s) = Parsed t ?s" "map_cmd tok_text t = c"
    using rt_execD [OF assms(1) _ l(1)] by auto
  obtain u where u: "parsepipe m (show_cmd 2 d @ s) = Parsed u (dropWhile ws s)" "map_cmd tok_text u = d"
    using rt_pipeD [OF assms(2) s l(2)] by blast
  have "parsepipe n (show_cmd 2 (PIPE c d) @ s) = Parsed (PIPE t u) (dropWhile ws s)"
    using t(1) u(1) m gettoken_symbol(1) [of "CHR ''|''" "show_cmd 2 d @ s"] by (simp add: paren_def gettoken_symbol(2))
  then show "\<exists>t. parsepipe n (show_cmd 2 (PIPE c d) @ s) = Parsed t (dropWhile ws s) \<and> map_cmd tok_text t = PIPE c d"
    using t(2) u(2) by auto
qed

lemma rt_back_BACK:
  assumes "rt_back c"
  shows "rt_back (BACK c)"
  unfolding rt_back_def
proof (intro allI impI)
  fix n s assume s: "stops '')&;'' s" and n: "4 * length (show_cmd 1 (BACK c) @ s) + 3 \<le> n"
  have l: "4 * length (show_cmd 1 c @ CHR ''&'' # s) + 3 \<le> n" using n by (simp add: paren_def)
  have "stops '')&;'' (CHR ''&'' # s)" by (rule stops_symbol) simp_all
  then obtain t t0 s0 where t: "parsepipe n (show_cmd 1 c @ CHR ''&'' # s) = Parsed t0 s0" "parsebacks t0 s0 = parsebacks t (CHR ''&'' # s)"
    "map_cmd tok_text t = c" using rt_backD [OF assms _ l] by blast
  have "parsebacks t (CHR ''&'' # s) = parsebacks (BACK t) s"
    using gettoken_symbol(1) [of "CHR ''&''" s] by (subst parsebacks.simps) (simp add: gettoken_symbol(2))
  then show "\<exists>t t0 s0. parsepipe n (show_cmd 1 (BACK c) @ s) = Parsed t0 s0 \<and> parsebacks t0 s0 = parsebacks t s \<and> map_cmd tok_text t = BACK c"
    using t by (intro exI [of _ "BACK t"] exI [of _ t0] exI [of _ s0]) (simp add: paren_def)
qed

lemma rt_line_LIST:
  assumes "rt_back c" "rt_line d"
  shows "rt_line (LIST c d)"
  unfolding rt_line_def
proof (intro allI impI)
  fix n s assume s: "stops '')'' s" and n: "4 * length (show_cmd 0 (LIST c d) @ s) + 4 \<le> n"
  then obtain m where m: "n = Suc m" by (cases n) auto
  let ?s = "CHR '';'' # show_cmd 0 d @ s"
  have l: "4 * length (show_cmd 1 c @ ?s) + 3 \<le> m" "4 * length (show_cmd 0 d @ s) + 4 \<le> m" using n m by (simp_all add: paren_def)
  have "stops '')&;'' ?s" by (rule stops_symbol) simp_all
  then obtain t t0 s0 where t: "parsepipe m (show_cmd 1 c @ ?s) = Parsed t0 s0" "parsebacks t0 s0 = parsebacks t ?s" "map_cmd tok_text t = c"
    using rt_backD [OF assms(1) _ l(1)] by blast
  obtain u where u: "parseline m (show_cmd 0 d @ s) = Parsed u (dropWhile ws s)" "map_cmd tok_text u = d"
    using rt_lineD [OF assms(2) s l(2)] by blast
  have "parsebacks t ?s = (t, ?s)" by (subst parsebacks.simps) (simp add: gettoken_symbol(2))
  then have "parseline n (show_cmd 0 (LIST c d) @ s) = Parsed (LIST t u) (dropWhile ws s)"
    using t(1,2) u(1) m gettoken_symbol(1) [of "CHR '';''" "show_cmd 0 d @ s"] by (simp add: paren_def gettoken_symbol(2))
  then show "\<exists>t. parseline n (show_cmd 0 (LIST c d) @ s) = Parsed t (dropWhile ws s) \<and> map_cmd tok_text t = LIST c d"
    using t(3) u(2) by auto
qed

lemma rt_back_pipe:
  assumes "rt_pipe c" "show_cmd 1 c = show_cmd 2 c" shows "rt_back c"
  unfolding rt_back_def assms(2)
proof (intro allI impI)
  fix n s assume s: "stops '')&;'' s" "4 * length (show_cmd 2 c @ s) + 3 \<le> n"
  then obtain t where "parsepipe n (show_cmd 2 c @ s) = Parsed t (dropWhile ws s)" "map_cmd tok_text t = c" using rt_pipeD [OF assms(1)] by blast
  then show "\<exists>t t0 s0. parsepipe n (show_cmd 2 c @ s) = Parsed t0 s0 \<and> parsebacks t0 s0 = parsebacks t s \<and> map_cmd tok_text t = c"
    by (intro exI [of _ t] exI [of _ "dropWhile ws s"]) simp
qed

lemma rt_line_back:
  assumes "rt_back c" "show_cmd 0 c = show_cmd 1 c" shows "rt_line c"
  unfolding rt_line_def assms(2)
proof (intro allI impI)
  fix n s assume s: "stops '')'' s" and n: "4 * length (show_cmd 1 c @ s) + 4 \<le> n"
  then obtain m where m: "n = Suc m" by (cases n) auto
  have "stops '')&;'' s" using s by (auto simp: stops_def)
  then obtain t t0 s0 where t: "parsepipe m (show_cmd 1 c @ s) = Parsed t0 s0" "parsebacks t0 s0 = parsebacks t s" "map_cmd tok_text t = c"
    using rt_backD [OF assms(1), of s m] n m by auto
  have p: "\<not> peek ''&'' s" "\<not> peek '';'' s" by (rule stops_peek [OF s], simp)+
  then have "parsebacks t s = (t, dropWhile ws s)" by (subst parsebacks.simps) simp
  then show "\<exists>t. parseline n (show_cmd 1 c @ s) = Parsed t (dropWhile ws s) \<and> map_cmd tok_text t = c"
    using t p m by simp
qed

lemma rt_pipe_exec:
  assumes "rt_exec c" "show_cmd 2 c = show_cmd 3 c" shows "rt_pipe c"
  unfolding rt_pipe_def assms(2)
proof (intro allI impI)
  fix n s assume s: "stops '')&;'' s" and n: "4 * length (show_cmd 3 c @ s) + 3 \<le> n"
  then obtain m where m: "n = Suc m" by (cases n) auto
  have "stops ''|)&;'' s" using s by (auto simp: stops_def)
  then obtain t where t: "parseexec m (show_cmd 3 c @ s) = Parsed t (dropWhile ws s)" "map_cmd tok_text t = c"
    using rt_execD [OF assms(1), of s m] n m by auto
  have "\<not> peek ''|'' s" by (rule stops_peek [OF s]) auto
  then show "\<exists>t. parsepipe n (show_cmd 3 c @ s) = Parsed t (dropWhile ws s) \<and> map_cmd tok_text t = c"
    using t m by simp
qed

lemma peek_redirs: "peek ''('' (show_redirs rs @ s) \<Longrightarrow> peek ''('' s"
proof (cases rs)
  case (Cons r rs')
  obtain f mode fd where "r = (f, mode, fd)" by (metis prod_cases3)
  then have "show_redirs rs @ s = redir_sym mode @ f @ '' '' @ show_redirs rs' @ s" using Cons by (simp add: show_redirs_def)
  moreover have "\<not> peek ''('' (redir_sym mode @ u)" for u by (simp add: redir_sym_def gettoken_symbol(2) ws_def)
  ultimately show "peek ''('' (show_redirs rs @ s) \<Longrightarrow> peek ''('' s" by metis
qed (simp add: show_redirs_def)

lemma rt_exec_simple:
  assumes "cmd_ok c" "fst (unwrap c) = EXEC args"
  shows "rt_exec c"
  unfolding rt_exec_def
proof (intro allI impI)
  let ?rs = "snd (unwrap c)"
  fix n s assume s: "stops ''|)&;'' s" and "4 * length (show_cmd 3 c @ s) + 2 \<le> n"
  then obtain m where m: "n = Suc m" by (cases n) auto
  have ok: "length args < MAXARGS" "\<forall>a \<in> set args. word_ok a" "\<forall>r \<in> set ?rs. redir_ok r" using ok_unwrap [OF assms(1)] assms(2) by auto
  have sh: "show_cmd 3 c @ s = show_words args @ show_redirs ?rs @ s" using show_unwrap [of c] assms(2) by simp
  have c: "c = rewrap (EXEC args) ?rs" using rewrap_unwrap [of c] assms(2) by simp
  have np: "\<not> peek ''<>'' s" by (rule stops_peek [OF s]) auto
  have nb: "\<not> peek ''('' s" by (rule stops_peek [OF s]) auto
  show "\<exists>t. parseexec n (show_cmd 3 c @ s) = Parsed t (dropWhile ws s) \<and> map_cmd tok_text t = c"
  proof (cases args)
    case Nil
    obtain rs' where rs': "parseredirs (show_redirs ?rs @ s) = Parsed rs' (dropWhile ws s)" "map redir_text rs' = ?rs"
      using parse_redirs [OF ok(3) np] by blast
    have "\<not> peek ''('' (show_redirs ?rs @ s)"
      using peek_redirs nb by blast
    then have "parseexec n (show_redirs ?rs @ s) = Parsed (wrap (EXEC []) rs') (dropWhile ws s)"
      using m rs'(1) parseargs_end [OF s, of 0] by simp
    then show ?thesis using Nil c rs'(2) unfolding sh by (auto simp: map_wrap show_words_def)
  next
    case (Cons a as)
    let ?t = "show_words args @ show_redirs ?rs @ s"
    have np: "\<not> peek ''<>'' ?t" "\<not> peek ''('' ?t"
      using gettoken_word(3,5) [of a] ok(2) Cons by (simp_all add: show_words_def)
    then have p: "parseredirs ?t = Parsed [] (dropWhile ws ?t)" by (subst parseredirs.simps) simp
    have "args \<noteq> []" using Cons by simp
    then obtain as' rs' where r: "parseargs 0 ?t = Parsed (as', rs') (dropWhile ws s)" "map tok_text as' = args" "map redir_text rs' = ?rs"
      using parse_args [OF _ ok(2) _ ok(3) s, of 0] ok(1) by auto
    then have "parseexec n ?t = Parsed (wrap (EXEC as') rs') (dropWhile ws s)"
      using m np(2) p by (simp del: dropWhile_append)
    then show ?thesis using c r(2,3) unfolding sh by (auto simp: map_wrap)
  qed
qed

lemma rt_exec_block:
  assumes "cmd_ok c" "rt_line (fst (unwrap c))" "show_cmd 3 (fst (unwrap c)) = ''('' @ show_cmd 0 (fst (unwrap c)) @ '')''"
  shows "rt_exec c"
  unfolding rt_exec_def
proof (intro allI impI)
  let ?b = "fst (unwrap c)" and ?rs = "snd (unwrap c)"
  fix n s assume s: "stops ''|)&;'' s" and n: "4 * length (show_cmd 3 c @ s) + 2 \<le> n"
  let ?u = "CHR '')'' # show_redirs ?rs @ s"
  have sh: "show_cmd 3 c @ s = CHR ''('' # show_cmd 0 ?b @ ?u" using show_unwrap [of c] assms(3) by simp
  obtain m where m: "n = Suc (Suc m)" using n sh by (cases n; cases "n - 1") auto
  have l: "4 * length (show_cmd 0 ?b @ ?u) + 4 \<le> m" using n m sh by simp
  have "stops '')'' ?u" by (rule stops_symbol) simp_all
  then obtain t where t: "parseline m (show_cmd 0 ?b @ ?u) = Parsed t ?u" "map_cmd tok_text t = ?b"
    using rt_lineD [OF assms(2) _ l] by auto
  have np: "\<not> peek ''<>'' s" by (rule stops_peek [OF s]) auto
  obtain rs' where rs': "parseredirs (show_redirs ?rs @ s) = Parsed rs' (dropWhile ws s)" "map redir_text rs' = ?rs"
    using parse_redirs [OF _ np] ok_unwrap [OF assms(1)] by blast
  have "parseexec n (CHR ''('' # show_cmd 0 ?b @ ?u) = Parsed (wrap t rs') (dropWhile ws s)"
    using m t(1) rs'(1) gettoken_symbol(1) [of "CHR ''(''" "show_cmd 0 ?b @ ?u"] gettoken_symbol(1) [of "CHR '')''" "show_redirs ?rs @ s"]
    by (simp add: gettoken_symbol(2) del: dropWhile_append)
  then show "\<exists>t. parseexec n (show_cmd 3 c @ s) = Parsed t (dropWhile ws s) \<and> map_cmd tok_text t = c"
    using t(2) rs'(2) rewrap_unwrap [of c] unfolding sh by (auto simp: map_wrap)
qed

lemma round_trip: "cmd_ok c \<Longrightarrow> rt_exec c \<and> rt_pipe c \<and> rt_back c \<and> rt_line c"
proof (induction c rule: measure_induct_rule [of "size_cmd (\<lambda>_. 0)"])
  case (less c)
  have "rt_line c" if "c = PIPE d e" for d e
    using that less rt_line_back [OF rt_back_pipe [OF rt_pipe_PIPE [of d e]]] by (simp add: paren_def)
  moreover have "rt_line c" if "c = BACK d" for d
    using that less rt_line_back [OF rt_back_BACK [of d]] by (simp add: paren_def)
  moreover have "rt_line c" if "c = LIST d e" for d e
    using that less rt_line_LIST [of d e] by simp
  ultimately have composite: "(\<exists>d e. c = PIPE d e) \<or> (\<exists>d. c = BACK d) \<or> (\<exists>d e. c = LIST d e) \<Longrightarrow> rt_line c" by blast
  have exec: "rt_exec c"
  proof (cases "\<exists>args. fst (unwrap c) = EXEC args")
    case True
    then show ?thesis using rt_exec_simple [OF less.prems] by blast
  next
    case False
    have comp: "(\<exists>d e. fst (unwrap c) = PIPE d e) \<or> (\<exists>d. fst (unwrap c) = BACK d) \<or> (\<exists>d e. fst (unwrap c) = LIST d e)"
      using False unwrap_base [of c] by (cases "fst (unwrap c)") auto
    have "rt_line (fst (unwrap c))"
      using unwrap_smaller [of c] composite comp less.IH [of "fst (unwrap c)"] ok_unwrap [OF less.prems] by metis
    then show ?thesis by (rule rt_exec_block [OF less.prems]) (use comp in \<open>auto simp: paren_def\<close>)
  qed
  have pipe: "rt_pipe c" using exec less rt_pipe_PIPE by (cases c) (auto intro: rt_pipe_exec simp: paren_def)
  have bk: "rt_back c" using pipe less rt_back_BACK by (cases c) (auto intro: rt_back_pipe simp: paren_def)
  have "rt_line c" using bk less rt_line_LIST by (cases c) (auto intro: rt_line_back simp: paren_def)
  then show ?case using exec pipe bk by blast
qed

lemma no_zero: "cmd_ok c \<Longrightarrow> CHR 0x00 \<notin> set (show_cmd k c)"
proof (induction k c rule: show_cmd.induct)
  case (1 k args)
  then show ?case by (auto simp: show_words_def word_ok_def)
next
  case (2 k c f mode fd)
  then show ?case by (auto simp: show_redirs_def redir_sym_def redir_ok_def word_ok_def)
qed (auto simp: paren_def)

text \<open>
  C9. The shell understands every command: any tree of commands, pipelines, lists, background commands
  and redirections whose arguments and files are words, at most nine arguments to a command, when
  printed with parentheses where they are needed, is parsed back to exactly that tree.
\<close>

theorem shell_parses_printed:
  assumes "cmd_ok c"
  shows "parsecmd S (show_cmd 0 c) w = Ok c w"
proof -
  let ?s = "show_cmd 0 c"
  have "stops '')'' []" by (simp add: stops_def)
  then obtain t where t: "parseline (4 * length ?s + 4) (?s @ []) = Parsed t (dropWhile ws [])" "map_cmd tok_text t = c"
    using rt_lineD [of c "[]" "4 * length ?s + 4"] round_trip [OF assms] by auto
  then have p: "parse_all ?s = Parsed t []" by (simp add: parse_all_def)
  then have "nulterminate t = c" using nulterminate_text [OF p no_zero [OF assms]] t(2) by simp
  then show ?thesis using p by (simp add: parsecmd_def)
qed

theorem shell_parses_printed_witness:
  "parsecmd out_sys ''ls <in |wc &;echo a b '' [] =
     Ok (LIST (BACK (PIPE (REDIR (EXEC [''ls'']) ''in'' O_RDONLY 0) (EXEC [''wc'']))) (EXEC [''echo'', ''a'', ''b''])) []"
proof -
  let ?c = "LIST (BACK (PIPE (REDIR (EXEC [''ls'']) ''in'' O_RDONLY 0) (EXEC [''wc'']))) (EXEC [''echo'', ''a'', ''b''])"
  have "cmd_ok ?c" by (simp add: word_ok_def wordc_def ws_def symbol_def redir_ok_def layout)
  then show ?thesis using shell_parses_printed [of ?c out_sys "[]"]
    by (simp add: paren_def show_words_def show_redirs_def redir_sym_def)
qed

end
