(* ===== verification/Spec2Isabelle.thy ===== *)
theory Spec2Isabelle
  imports Contend Wakeup Usermem Boot Transact Tty Grep Shellprint
begin

text \<open>
  A verification development for the xv6 operating system on RISC-V (\<open>src/xv6-riscv\<close>).

  \<^bold>\<open>The program.\<close> xv6 is a small Unix kernel for a multi-hart RISC-V machine and a set of user
  programs. The kernel has layers: spinlocks over the interrupt flag (\<open>spinlock.c\<close>); a page
  allocator (\<open>kalloc.c\<close>) and three-level page tables (\<open>vm.c\<close>); processes, scheduling, sleep and
  wakeup (\<open>proc.c\<close>); a file system in six layers, namely disk driver (\<open>virtio_disk.c\<close>), buffer
  cache (\<open>bio.c\<close>), write-ahead log (\<open>log.c\<close>), inodes, directories and path names (\<open>fs.c\<close>), open
  files (\<open>file.c\<close>, \<open>pipe.c\<close>) and the system calls over them (\<open>sysfile.c\<close>, \<open>exec.c\<close>); trap
  handling and system call dispatch (\<open>trap.c\<close>, \<open>syscall.c\<close>, \<open>sysproc.c\<close>); and the console
  (\<open>console.c\<close>, \<open>uart.c\<close>, \<open>printf.c\<close>).

  \<^bold>\<open>The model.\<close> Theory Kprelude holds the state-and-halt monad every routine is written in, its
  Hoare triples and the shared list and word lemmas. Kstate is the kernel's global data as one
  record, with the source's structs as records and its enums as datatypes. Pointers into the
  fixed tables of the kernel are indices, and null is None; pages are addressed by 64-bit words in
  a byte memory. A routine either returns (\<open>Ok\<close>) or does not (\<open>Stop\<close>: a panic, a spin on a held
  lock, or a switch to the scheduler that never came back).

  \<^bold>\<open>Granularity.\<close> Kernel routines are modelled as the run of one thread from one switch to the
  next; what other threads and devices do while it is switched out is the next function of the
  \<open>others\<close> queue of the state. The protocols whose correctness is about finer interleaving (the
  spinlock, sleep and wakeup) have in addition a step relation in which harts interleave at the
  granularity of single instructions on shared data.

  \<^item> Cmem: \<open>string.c\<close> over a byte memory; little-endian words in memory.
  \<^item> Riscv: the constants and address macros of \<open>param.h\<close>, \<open>riscv.h\<close>, \<open>memlayout.h\<close>, \<open>fs.h\<close>.
  \<^item> Spinlock: \<open>spinlock.c\<close> and the interrupt flag; mutual exclusion.
  \<^item> Sched: the scheduling half of \<open>proc.c\<close>.
\<close>

end
